(* ===== verification/Cqy_Prelude.thy ===== *)
theory Cqy_Prelude
  imports Main "HOL-Library.Word" "HOL-Library.Char_ord" "HOL-Library.List_Lexorder"
begin

unbundle bit_operations_syntax

text \<open>
  Shared vocabulary of the development: the machine integers of the C++ sources, the byte
  view of \<open>std::string\<close> (a \<open>char\<close> is a byte, so a \<open>std::string\<close> is a HOL
  \<^typ>\<open>string\<close>), little-endian storage of 32-bit fields, the exceptions the sources can
  raise, and the interface of an identifier that packs two numbers into one word.

  \<open>char_traits<char>\<close> compares characters as unsigned bytes, and strings
  lexicographically; this is the order that \<open>Char_ord\<close> and \<open>List_Lexorder\<close> put on
  \<^typ>\<open>string\<close>, so \<open>\<le>\<close> on strings below is \<open>std::string\<close>'s own order.
\<close>

named_theorems cqy_defs "definitions of the model, unfolded together by the component proofs"
named_theorems cqy_inv "preservation of the component invariants"

section \<open>Machine integers and bytes\<close>

type_synonym u8 = "8 word"
type_synonym u16 = "16 word"
type_synonym u32 = "32 word"
type_synonym u64 = "64 word"

text \<open>A byte as a character and back.\<close>

definition char_of_byte :: "u8 \<Rightarrow> char" where
  "char_of_byte w = char_of (unat w)"

definition byte_of_char :: "char \<Rightarrow> u8" where
  "byte_of_char c = word_of_nat (of_char c)"

lemma unat_u8_less: "unat (w :: u8) < 256"
  using unsigned_less [of w] by simp

lemma of_char_less [simp]: "(of_char c :: nat) < 256"
  using of_char_mod_256 [of c, where 'a = nat] by (metis mod_less_divisor zero_less_numeral)

lemma byte_char_byte [simp]: "byte_of_char (char_of_byte w) = w"
  using unat_u8_less [of w] by (simp add: byte_of_char_def char_of_byte_def of_char_of)

lemma char_byte_char [simp]: "char_of_byte (byte_of_char c) = c"
  by (simp add: byte_of_char_def char_of_byte_def unat_of_nat)

lemma char_of_byte_inject [simp]: "char_of_byte a = char_of_byte b \<longleftrightarrow> a = b"
  by (metis byte_char_byte)

section \<open>Little-endian fields\<close>

text \<open>The four bytes of a \<open>uint32_t\<close> in memory, least significant first, and the value
  read back from the four bytes at offset \<open>i\<close> of a buffer.\<close>

definition u32_bytes :: "u32 \<Rightarrow> u8 list" where
  "u32_bytes w = [ucast w, ucast (drop_bit 8 w), ucast (drop_bit 16 w), ucast (drop_bit 24 w)]"

definition u32_of_bytes :: "u8 \<Rightarrow> u8 \<Rightarrow> u8 \<Rightarrow> u8 \<Rightarrow> u32" where
  "u32_of_bytes b0 b1 b2 b3 =
     ucast b0 OR push_bit 8 (ucast b1) OR push_bit 16 (ucast b2) OR push_bit 24 (ucast b3)"

definition put_u32 :: "u32 \<Rightarrow> string" where
  "put_u32 w = map char_of_byte (u32_bytes w)"

definition get_u8 :: "string \<Rightarrow> nat \<Rightarrow> u8" where
  "get_u8 s i = byte_of_char (s ! i)"

definition get_u32 :: "string \<Rightarrow> nat \<Rightarrow> u32" where
  "get_u32 s i = u32_of_bytes (get_u8 s i) (get_u8 s (i + 1)) (get_u8 s (i + 2)) (get_u8 s (i + 3))"

lemma u32_of_bytes_le [simp]:
  "u32_of_bytes (ucast w) (ucast (drop_bit 8 w)) (ucast (drop_bit 16 w)) (ucast (drop_bit 24 w)) = w"
proof (rule bit_word_eqI)
  fix n assume "n < LENGTH(32)"
  then consider "n < 8" | "8 \<le> n" "n < 16" | "16 \<le> n" "n < 24" | "24 \<le> n" "n < 32"
    by fastforce
  then show "bit (u32_of_bytes (ucast w) (ucast (drop_bit 8 w)) (ucast (drop_bit 16 w))
      (ucast (drop_bit 24 w))) n = bit w n"
    by cases (auto simp: u32_of_bytes_def bit_simps)
qed

lemma length_u32_bytes [simp]: "length (u32_bytes w) = 4"
  by (simp add: u32_bytes_def)

lemma length_put_u32 [simp]: "length (put_u32 w) = 4"
  by (simp add: put_u32_def)

lemma get_put_u32:
  assumes "drop i s = put_u32 w @ rest" "i \<le> length s"
  shows "get_u32 s i = w"
proof -
  have *: "s ! (i + k) = (put_u32 w @ rest) ! k" for k
    by (simp add: assms(2) flip: assms(1))
  have "get_u8 s i = ucast w" "get_u8 s (i + 1) = ucast (drop_bit 8 w)"
    "get_u8 s (i + 2) = ucast (drop_bit 16 w)" "get_u8 s (i + 3) = ucast (drop_bit 24 w)"
    using * [of 0] * [of 1] * [of 2] * [of 3]
    by (simp_all add: get_u8_def put_u32_def u32_bytes_def)
  then show ?thesis
    by (simp add: get_u32_def)
qed

section \<open>Exceptions and undefined behaviour\<close>

text \<open>
  What an operation of the sources can end in besides a value: a C++ exception that the
  library or the repository raises, or a read outside an object. The latter is undefined
  behaviour in C++; the model makes it a value so that its absence is something to prove.
\<close>

datatype cpp_error =
    Runtime_Error string     \<comment> \<open>\<open>std::runtime_error\<close> with its message\<close>
  | Out_Of_Range             \<comment> \<open>\<open>std::out_of_range\<close>\<close>
  | Bad_Access               \<comment> \<open>undefined behaviour: a null or out-of-bounds access\<close>
  | Assert_Failed            \<comment> \<open>a failed \<open>assert\<close>, which ends the process\<close>

type_synonym 'a result = "cpp_error + 'a"

definition bind_result :: "'a result \<Rightarrow> ('a \<Rightarrow> 'b result) \<Rightarrow> 'b result" where
  "bind_result r f = (case r of Inl e \<Rightarrow> Inl e | Inr x \<Rightarrow> f x)"

lemma bind_result_simps [simp]:
  "bind_result (Inl e) f = Inl e"
  "bind_result (Inr x) f = f x"
  by (simp_all add: bind_result_def)

lemma bind_result_Inr_iff:
  "bind_result r f = Inr y \<longleftrightarrow> (\<exists>x. r = Inr x \<and> f x = Inr y)"
  by (cases r) auto

section \<open>Identifiers that pack two numbers\<close>

text \<open>
  \<open>cqy_handle_t\<close> (node number and context number) and \<open>entity_id_t\<close> (slot and version)
  are both unions that lay two numbers over one word. \<open>ok\<close> says which second components
  fit into their field.
\<close>

locale packed_pair =
  fixes pack :: "'a \<Rightarrow> 'b \<Rightarrow> 'p"
    and hi :: "'p \<Rightarrow> 'a"
    and lo :: "'p \<Rightarrow> 'b"
    and ok :: "'b \<Rightarrow> bool"
  assumes hi_pack: "hi (pack a b) = a"
    and lo_pack: "ok b \<Longrightarrow> lo (pack a b) = b"
    and pack_hi_lo: "pack (hi p) (lo p) = p"
    and ok_lo: "ok (lo p)"
begin

lemma pack_eq_iff: "ok b \<Longrightarrow> ok b' \<Longrightarrow> pack a b = pack a' b' \<longleftrightarrow> a = a' \<and> b = b'"
  by (metis hi_pack lo_pack)

lemma eq_by_parts: "p = q \<longleftrightarrow> hi p = hi q \<and> lo p = lo q"
  by (metis pack_hi_lo)

lemma parts_unique: "ok b \<Longrightarrow> \<exists>!p. hi p = a \<and> lo p = b"
  by (metis hi_pack lo_pack eq_by_parts)

lemma inj_pack: "inj_on (\<lambda>(a, b). pack a b) {(a, b). ok b}"
  by (auto simp: inj_on_def pack_eq_iff)

end

section \<open>Interface of systems that run in steps\<close>

text \<open>A state that is changed by events, and what every event of a kind keeps of it; then it holds along every run.\<close>

locale step_invariant =
  fixes step :: "'e \<Rightarrow> 's \<Rightarrow> 's" and inv :: "'s \<Rightarrow> bool" and ok :: "'e \<Rightarrow> bool"
  assumes inv_step: "inv s \<Longrightarrow> ok e \<Longrightarrow> inv (step e s)"
begin

lemma inv_fold: "inv s \<Longrightarrow> \<forall>e \<in> set es. ok e \<Longrightarrow> inv (fold step es s)"
  by (induction es arbitrary: s) (simp_all add: inv_step)

end

text \<open>Steps that are not always possible: what is scheduled and cannot go on waits.\<close>

locale waiting_steps =
  fixes wstep :: "'e \<Rightarrow> 's \<Rightarrow> 's option" and winv :: "'s \<Rightarrow> bool"
  assumes winv_step: "winv s \<Longrightarrow> wstep e s = Some s' \<Longrightarrow> winv s'"
begin

definition step_or_wait :: "'e \<Rightarrow> 's \<Rightarrow> 's" where
  "step_or_wait e s = (case wstep e s of None \<Rightarrow> s | Some s' \<Rightarrow> s')"

end

sublocale waiting_steps \<subseteq> total: step_invariant step_or_wait winv "\<lambda>_. True"
  by unfold_locales (auto simp: step_or_wait_def intro: winv_step split: option.split)

end
