(* ===== verification/Cqy_Queue.thy ===== *)
theory Cqy_Queue
  imports Cqy_Prelude
begin

text \<open>
  \<open>cqy_cv_queue_t\<close> of \<open>include/cqy_utils.h\<close>: the queue between the producers of messages and
  the one coroutine that consumes them, used for the mailbox of a context and for the
  outgoing messages of a node. The operations here are the bodies that run under the queue's
  mutex; \<open>Cqy_Queue_Conc\<close> interleaves them.
\<close>

section \<open>Model\<close>

record 'a cqy_cv_queue_t =
  q_items :: "'a list"
  q_stop :: bool

definition queue_init :: "'a cqy_cv_queue_t" where
  "queue_init = \<lparr>q_items = [], q_stop = False\<rparr>"

text \<open>\<open>shutdown()\<close>: whether this call was the one that stopped the queue.\<close>

definition q_shutdown :: "'a cqy_cv_queue_t \<Rightarrow> bool \<times> 'a cqy_cv_queue_t" where
  "q_shutdown q = (if q_stop q then (False, q) else (True, q\<lparr>q_stop := True\<rparr>))"

definition q_size :: "'a cqy_cv_queue_t \<Rightarrow> nat" where
  "q_size q = length (q_items q)"

text \<open>The predicate both \<open>cv.wait\<close> calls use.\<close>

definition q_ready :: "'a cqy_cv_queue_t \<Rightarrow> bool" where
  "q_ready q \<longleftrightarrow> q_items q \<noteq> [] \<or> q_stop q"

text \<open>\<open>pop()\<close>: \<open>None\<close> while the caller is suspended in \<open>cv.wait\<close>, otherwise the front or the
  exception \<open>queue stop\<close>; a stopped queue throws even when items are left.\<close>

definition q_pop :: "'a cqy_cv_queue_t \<Rightarrow> ('a result \<times> 'a cqy_cv_queue_t) option" where
  "q_pop q =
     (if \<not> q_ready q then None
      else if q_items q = [] \<or> q_stop q then Some (Inl (Runtime_Error ''queue stop''), q)
      else Some (Inr (hd (q_items q)), q\<lparr>q_items := tl (q_items q)\<rparr>))"

text \<open>\<open>try_pop\<close>, given whether \<open>tryLock\<close> succeeded; it does not look at \<open>stop\<close>.\<close>

definition q_try_pop :: "bool \<Rightarrow> 'a cqy_cv_queue_t \<Rightarrow> 'a option \<times> 'a cqy_cv_queue_t" where
  "q_try_pop locked q =
     (if \<not> locked then (None, q)
      else if q_items q = [] then (None, q)
      else (Some (hd (q_items q)), q\<lparr>q_items := tl (q_items q)\<rparr>))"

text \<open>\<open>pop_all()\<close>: everything at once, also from a stopped queue.\<close>

definition q_pop_all :: "'a cqy_cv_queue_t \<Rightarrow> ('a list \<times> 'a cqy_cv_queue_t) option" where
  "q_pop_all q = (if \<not> q_ready q then None else Some (q_items q, q\<lparr>q_items := []\<rparr>))"

definition q_push :: "'a \<Rightarrow> 'a cqy_cv_queue_t \<Rightarrow> 'a cqy_cv_queue_t" where
  "q_push t q = (if q_stop q then q else q\<lparr>q_items := q_items q @ [t]\<rparr>)"

lemmas queue_defs = queue_init_def q_shutdown_def q_size_def q_ready_def q_pop_def q_try_pop_def
  q_pop_all_def q_push_def

section \<open>The channel interface\<close>

text \<open>What a node and a context expect of their queue: order is kept, a closed channel takes
  nothing more, and draining returns everything that was put.\<close>

locale fifo_channel =
  fixes contents :: "'q \<Rightarrow> 'a list"
    and closed :: "'q \<Rightarrow> bool"
    and put :: "'a \<Rightarrow> 'q \<Rightarrow> 'q"
    and drain :: "'q \<Rightarrow> ('a list \<times> 'q) option"
    and close :: "'q \<Rightarrow> 'q"
  assumes put_open: "\<not> closed q \<Longrightarrow> contents (put x q) = contents q @ [x] \<and> \<not> closed (put x q)"
    and put_closed: "closed q \<Longrightarrow> put x q = q"
    and drain_ready: "contents q \<noteq> [] \<or> closed q \<Longrightarrow>
      \<exists>q'. drain q = Some (contents q, q') \<and> contents q' = [] \<and> closed q' = closed q"
    and drain_blocks: "contents q = [] \<Longrightarrow> \<not> closed q \<Longrightarrow> drain q = None"
    and close_contents: "contents (close q) = contents q"
    and close_closed: "closed (close q)"
begin

lemma fold_put_open:
  "\<not> closed q \<Longrightarrow> contents (fold put xs q) = contents q @ xs \<and> \<not> closed (fold put xs q)"
  by (induction xs arbitrary: q) (auto simp: put_open)

lemma fold_put_closed: "closed q \<Longrightarrow> fold put xs q = q"
  by (induction xs) (simp_all add: put_closed)

lemma drain_all:
  assumes "\<not> closed q" "contents q @ xs \<noteq> []"
  shows "\<exists>q'. drain (fold put xs q) = Some (contents q @ xs, q') \<and> contents q' = [] \<and> \<not> closed q'"
proof -
  have "contents (fold put xs q) = contents q @ xs" "\<not> closed (fold put xs q)"
    using fold_put_open [OF assms(1)] by blast+
  then show ?thesis
    using drain_ready [of "fold put xs q"] assms(2) by auto
qed

lemma put_after_close: "contents (fold put xs (close q)) = contents q"
  by (simp add: fold_put_closed close_closed close_contents)

lemma drain_after_close:
  "\<exists>q'. drain (fold put xs (close q)) = Some (contents q, q') \<and> contents q' = []"
  using drain_ready [of "close q"] close_closed [of q]
  by (auto simp: fold_put_closed close_contents)

lemma drain_put_order:
  "\<not> closed q \<Longrightarrow> drain (fold put xs q) = Some (ys, q') \<Longrightarrow> ys = contents q @ xs"
  by (metis drain_all drain_blocks fold_put_open option.inject option.simps(3) prod.inject)

end

interpretation chan: fifo_channel q_items q_stop q_push q_pop_all "\<lambda>q. snd (q_shutdown q)"
  by unfold_locales (auto simp: queue_defs)

section \<open>Properties\<close>

text \<open>Popping one item at a time.\<close>

fun pop_n :: "nat \<Rightarrow> 'a cqy_cv_queue_t \<Rightarrow> 'a list \<times> 'a cqy_cv_queue_t" where
  "pop_n 0 q = ([], q)"
| "pop_n (Suc n) q =
     (case q_pop q of
        Some (Inr x, q') \<Rightarrow> (case pop_n n q' of (xs, q'') \<Rightarrow> (x # xs, q''))
      | _ \<Rightarrow> ([], q))"

lemma pop_n_open:
  "\<not> q_stop q \<Longrightarrow> fst (pop_n n q) = take n (q_items q) \<and> q_items (snd (pop_n n q)) = drop n (q_items q)"
proof (induction n arbitrary: q)
  case (Suc n)
  show ?case
  proof (cases "q_items q")
    case Nil
    with Suc.prems show ?thesis by (simp add: q_pop_def q_ready_def)
  next
    case (Cons x xs)
    with Suc.prems have pop: "q_pop q = Some (Inr x, q\<lparr>q_items := xs\<rparr>)"
      by (simp add: q_pop_def q_ready_def)
    with Cons Suc.IH [of "q\<lparr>q_items := xs\<rparr>"] Suc.prems show ?thesis
      by (simp add: case_prod_beta)
  qed
qed simp

text \<open>The queue is first in, first out: after pushing \<open>xs\<close> onto an open queue, popping
  \<open>n\<close> times gives the first \<open>n\<close> of the old items followed by \<open>xs\<close>, and \<open>pop_all\<close> gives all
  of them, in order, and leaves the queue empty.\<close>

theorem queue_fifo:
  assumes "\<not> q_stop q" "q_items q @ xs \<noteq> []"
  shows "fst (pop_n n (fold q_push xs q)) = take n (q_items q @ xs) \<and>
     (\<exists>q'. q_pop_all (fold q_push xs q) = Some (q_items q @ xs, q') \<and> q_items q' = [])"
  using chan.fold_put_open [OF assms(1), of xs] pop_n_open [of "fold q_push xs q" n]
    chan.drain_all [OF assms] by auto

theorem queue_fifo_witness:
  "fst (pop_n 2 (fold q_push [''a'', ''b'', ''c''] queue_init)) = [''a'', ''b'']"
  using queue_fifo [of "queue_init :: string cqy_cv_queue_t" "[''a'', ''b'', ''c'']" 2]
  by (simp add: queue_init_def)

text \<open>After \<open>shutdown()\<close>: pushes are dropped, \<open>pop()\<close> throws \<open>queue stop\<close> without waiting even
  when items are left, \<open>pop_all()\<close> still hands out the items that were queued before, and a
  second \<open>shutdown()\<close> reports that it did nothing.\<close>

theorem queue_after_shutdown:
  "q_items (fold q_push xs (snd (q_shutdown q))) = q_items q
   \<and> q_pop (snd (q_shutdown q)) = Some (Inl (Runtime_Error ''queue stop''), snd (q_shutdown q))
   \<and> (\<exists>q'. q_pop_all (snd (q_shutdown q)) = Some (q_items q, q') \<and> q_items q' = [])
   \<and> \<not> fst (q_shutdown (snd (q_shutdown q)))"
  using chan.put_after_close [of xs q] chan.drain_after_close [of "[]" q]
  by (simp add: q_pop_def q_ready_def) (simp add: q_shutdown_def)

end
