(* ===== verification/Cqy_Queue_Conc.thy ===== *)
theory Cqy_Queue_Conc
  imports Cqy_Queue
begin

text \<open>
  \<open>cqy_cv_queue_t\<close> under concurrency. One consumer coroutine (thread 0: the loop
  \<open>wait_msg_spawn\<close> of a context or \<open>node_mq_spawn\<close> of a node) calls \<open>pop\<close> or \<open>pop_all\<close>; any
  number of other threads call \<open>push\<close> and \<open>shutdown\<close>. A step is one access to shared state:
  acquiring the mutex, evaluating the wait predicate, suspending in \<open>cv.wait\<close> (which registers
  the coroutine and releases the mutex), the body of \<open>push\<close> under the mutex, setting \<open>stop\<close>,
  \<open>notify\<close>. \<open>cv.wait(lock, pred)\<close> is \<open>while (!pred()) cv.wait(lock)\<close>; a notification wakes the
  consumer if it is registered and is lost otherwise. The mutex and the condition variable are
  those of async\_simple and are represented by these documented effects only.
\<close>

section \<open>Model\<close>

datatype wait_kind = W_pop | W_pop_all

datatype 'a pc =
    Idle
  | C_lock wait_kind     \<comment> \<open>waiting for the mutex, on entry or after a notification\<close>
  | C_check wait_kind    \<comment> \<open>holds the mutex, about to evaluate the predicate\<close>
  | C_block wait_kind    \<comment> \<open>holds the mutex, the predicate was false\<close>
  | C_wait wait_kind     \<comment> \<open>registered with the condition variable, mutex released\<close>
  | C_take wait_kind     \<comment> \<open>holds the mutex, the predicate was true\<close>
  | C_front              \<comment> \<open>\<open>pop\<close>, holds the mutex, \<open>items.empty() || stop.load()\<close> was false\<close>
  | P_check 'a           \<comment> \<open>\<open>push\<close>, about to read \<open>stop\<close>\<close>
  | P_lock 'a            \<comment> \<open>\<open>push\<close>, spinning on \<open>tryLock\<close>\<close>
  | P_notify             \<comment> \<open>\<open>push\<close>, item stored, about to \<open>notify\<close>\<close>
  | S_notify             \<comment> \<open>\<open>shutdown\<close>, \<open>stop\<close> set, about to \<open>notifyAll\<close>\<close>

text \<open>\<open>h_in\<close> and \<open>h_out\<close> record the items stored and handed out.\<close>

record 'a qsys =
  sq :: "'a cqy_cv_queue_t"
  s_lock :: "nat option"
  s_pc :: "nat \<Rightarrow> 'a pc"
  h_in :: "'a list"
  h_out :: "'a list"

datatype 'a qevent =
    E_call_pop wait_kind
  | E_consumer
  | E_call_push nat 'a
  | E_producer nat
  | E_shutdown nat

definition qsys_init :: "'a qsys" where
  "qsys_init = \<lparr>sq = queue_init, s_lock = None, s_pc = (\<lambda>_. Idle), h_in = [], h_out = []\<rparr>"

text \<open>\<open>notify\<close> and \<open>notifyAll\<close>: the consumer is the only possible waiter.\<close>

definition wake :: "(nat \<Rightarrow> 'a pc) \<Rightarrow> (nat \<Rightarrow> 'a pc)" where
  "wake p = (case p 0 of C_wait k \<Rightarrow> p(0 := C_lock k) | _ \<Rightarrow> p)"

text \<open>The end of a call: the items taken are the first \<open>n\<close>, the mutex is released.\<close>

definition take_items :: "nat \<Rightarrow> 'a qsys \<Rightarrow> 'a qsys" where
  "take_items n s =
     s\<lparr>sq := (sq s)\<lparr>q_items := drop n (q_items (sq s))\<rparr>, s_lock := None, s_pc := (s_pc s)(0 := Idle),
       h_out := h_out s @ take n (q_items (sq s))\<rparr>"

text \<open>\<open>pop\<close> reads \<open>stop\<close> again after the wait, and throws when it is set or nothing is there (\<open>take_items 0\<close>); otherwise it takes the first item in a step of its
  own, so that a shutdown can come in between. \<open>pop_all\<close> takes everything.\<close>

definition consumer_step :: "'a qsys \<Rightarrow> 'a qsys option" where
  "consumer_step s =
     (case s_pc s 0 of
        C_lock k \<Rightarrow>
          (if s_lock s = None then Some (s\<lparr>s_lock := Some 0, s_pc := (s_pc s)(0 := C_check k)\<rparr>) else None)
      | C_check k \<Rightarrow>
          Some (s\<lparr>s_pc := (s_pc s)(0 := (if q_ready (sq s) then C_take k else C_block k))\<rparr>)
      | C_block k \<Rightarrow> Some (s\<lparr>s_lock := None, s_pc := (s_pc s)(0 := C_wait k)\<rparr>)
      | C_take W_pop \<Rightarrow>
          Some (if q_items (sq s) = [] \<or> q_stop (sq s) then take_items 0 s else s\<lparr>s_pc := (s_pc s)(0 := C_front)\<rparr>)
      | C_take W_pop_all \<Rightarrow> Some (take_items (length (q_items (sq s))) s)
      | C_front \<Rightarrow> Some (take_items 1 s)
      | _ \<Rightarrow> None)"

definition producer_step :: "nat \<Rightarrow> 'a qsys \<Rightarrow> 'a qsys option" where
  "producer_step i s =
     (case s_pc s i of
        P_check x \<Rightarrow> Some (s\<lparr>s_pc := (s_pc s)(i := (if q_stop (sq s) then Idle else P_lock x))\<rparr>)
      | P_lock x \<Rightarrow>
          (if s_lock s = None
           then Some (s\<lparr>sq := (sq s)\<lparr>q_items := q_items (sq s) @ [x]\<rparr>,
                  s_pc := (s_pc s)(i := P_notify), h_in := h_in s @ [x]\<rparr>)
           else None)
      | P_notify \<Rightarrow> Some (s\<lparr>s_pc := wake ((s_pc s)(i := Idle))\<rparr>)
      | S_notify \<Rightarrow> Some (s\<lparr>s_pc := wake ((s_pc s)(i := Idle))\<rparr>)
      | _ \<Rightarrow> None)"

text \<open>\<open>stop.exchange(true)\<close>; a second caller returns at once.\<close>

definition shutdown_step :: "nat \<Rightarrow> 'a qsys \<Rightarrow> 'a qsys option" where
  "shutdown_step i s =
     (if s_pc s i = Idle
      then Some (case q_shutdown (sq s) of (first, q') \<Rightarrow>
             s\<lparr>sq := q', s_pc := (s_pc s)(i := (if first then S_notify else Idle))\<rparr>)
      else None)"

fun q_exec :: "'a qevent \<Rightarrow> 'a qsys \<Rightarrow> 'a qsys option" where
  "q_exec (E_call_pop k) s =
     (if s_pc s 0 = Idle then Some (s\<lparr>s_pc := (s_pc s)(0 := C_lock k)\<rparr>) else None)"
| "q_exec E_consumer s = consumer_step s"
| "q_exec (E_call_push i x) s =
     (if i \<noteq> 0 \<and> s_pc s i = Idle then Some (s\<lparr>s_pc := (s_pc s)(i := P_check x)\<rparr>) else None)"
| "q_exec (E_producer i) s = (if i \<noteq> 0 then producer_step i s else None)"
| "q_exec (E_shutdown i) s = (if i \<noteq> 0 then shutdown_step i s else None)"

inductive q_reach :: "'a qsys \<Rightarrow> bool" where
  start: "q_reach qsys_init"
| step: "q_reach s \<Longrightarrow> q_exec e s = Some t \<Longrightarrow> q_reach t"

fun q_run :: "'a qevent list \<Rightarrow> 'a qsys \<Rightarrow> 'a qsys option" where
  "q_run [] s = Some s"
| "q_run (e # es) s = Option.bind (q_exec e s) (q_run es)"

lemma q_run_reach: "q_reach s \<Longrightarrow> q_run es s = Some t \<Longrightarrow> q_reach t"
  by (induction es arbitrary: s) (auto intro: q_reach.step split: bind_splits)

lemma q_run_append: "q_run (es @ es') s = Option.bind (q_run es s) (q_run es')"
  by (induction es arbitrary: s) (auto split: bind_splits)

text \<open>The reachable states are those of the runs.\<close>

lemma q_reach_iff_run: "q_reach s \<longleftrightarrow> (\<exists>es. q_run es qsys_init = Some s)"
proof
  show "q_reach s \<Longrightarrow> \<exists>es. q_run es qsys_init = Some s"
  proof (induction rule: q_reach.induct)
    case start
    show ?case by (intro exI [of _ "[]"]) simp
  next
    case (step s e t)
    then obtain es where "q_run es qsys_init = Some s" by blast
    with step.hyps(2) show ?case by (intro exI [of _ "es @ [e]"]) (simp add: q_run_append)
  qed
qed (use q_run_reach [OF q_reach.start] in blast)

section \<open>Invariant\<close>

fun is_consumer_pc :: "'a pc \<Rightarrow> bool" where
  "is_consumer_pc (C_lock k) = True"
| "is_consumer_pc (C_check k) = True"
| "is_consumer_pc (C_block k) = True"
| "is_consumer_pc (C_wait k) = True"
| "is_consumer_pc (C_take k) = True"
| "is_consumer_pc C_front = True"
| "is_consumer_pc _ = False"

fun holds_lock :: "'a pc \<Rightarrow> bool" where
  "holds_lock (C_check k) = True"
| "holds_lock (C_block k) = True"
| "holds_lock (C_take k) = True"
| "holds_lock C_front = True"
| "holds_lock _ = False"

definition q_inv :: "'a qsys \<Rightarrow> bool" where
  "q_inv s \<longleftrightarrow>
     (s_pc s 0 = Idle \<or> is_consumer_pc (s_pc s 0)) \<and>
     (\<forall>i. i \<noteq> 0 \<longrightarrow> \<not> is_consumer_pc (s_pc s i)) \<and>
     s_lock s = (if holds_lock (s_pc s 0) then Some 0 else None) \<and>
     (\<forall>k. s_pc s 0 = C_block k \<longrightarrow> q_items (sq s) = []) \<and> (s_pc s 0 = C_front \<longrightarrow> q_items (sq s) \<noteq> []) \<and>
     (\<forall>k. s_pc s 0 = C_wait k \<longrightarrow> q_items (sq s) \<noteq> [] \<longrightarrow> (\<exists>i. s_pc s i = P_notify)) \<and>
     h_in s = h_out s @ q_items (sq s)"

text \<open>Without a shutdown in between, the two steps after the wait are \<open>pop\<close> of the sequential queue.\<close>

lemma consumer_pop_steps:
  assumes "s_pc s 0 = C_take W_pop" "q_pop (sq s) = Some (r, q')"
  shows "case r of
      Inr x \<Rightarrow> \<exists>t. consumer_step s = Some t \<and> consumer_step t = Some (s\<lparr>sq := q', s_lock := None, s_pc := (s_pc s)(0 := Idle), h_out := h_out s @ [x]\<rparr>)
    | Inl _ \<Rightarrow> consumer_step s = Some (s\<lparr>sq := q', s_lock := None, s_pc := (s_pc s)(0 := Idle)\<rparr>)"
  using assms
  by (cases "q_items (sq s)"; cases "q_stop (sq s)") (auto simp: consumer_step_def take_items_def q_pop_def q_ready_def)

lemma q_inv_take:
  assumes "q_inv s" "holds_lock (s_pc s 0)"
  shows "q_inv (take_items n s)"
  using assms by (auto simp: q_inv_def take_items_def)

lemma q_inv_init: "q_inv qsys_init"
  by (simp add: q_inv_def qsys_init_def queue_init_def)

lemma q_inv_consumer:
  assumes "q_inv s" "consumer_step s = Some t"
  shows "q_inv t"
proof (cases "s_pc s 0")
  case (C_lock k)
  with assms show ?thesis by (auto simp: q_inv_def consumer_step_def)
next
  case (C_check k)
  with assms show ?thesis by (cases "q_ready (sq s)") (auto simp: q_inv_def consumer_step_def q_ready_def)
next
  case (C_block k)
  with assms show ?thesis by (auto simp: q_inv_def consumer_step_def)
next
  case (C_take k)
  then have "q_inv (take_items n s)" for n using q_inv_take [OF assms(1)] by simp
  with C_take assms show ?thesis
    by (cases k) (auto simp: consumer_step_def, auto simp: q_inv_def)
next
  case C_front
  then show ?thesis using assms q_inv_take [OF assms(1)] by (auto simp: consumer_step_def)
qed (use assms in \<open>simp_all add: consumer_step_def\<close>)

lemma wake_other: "i \<noteq> 0 \<Longrightarrow> wake p i = p i"
  by (cases "p 0") (simp_all add: wake_def)

lemma wake_0:
  "wake p 0 \<noteq> C_wait k" "holds_lock (wake p 0) = holds_lock (p 0)"
  "is_consumer_pc (wake p 0) = is_consumer_pc (p 0)" "wake p 0 = C_block k \<longleftrightarrow> p 0 = C_block k" "wake p 0 = C_front \<longleftrightarrow> p 0 = C_front"
  "wake p 0 = Idle \<longleftrightarrow> p 0 = Idle"
  by (cases "p 0"; simp add: wake_def)+

lemma q_inv_wake:
  assumes "q_inv s" "i \<noteq> 0"
  shows "q_inv (s\<lparr>s_pc := wake ((s_pc s)(i := Idle))\<rparr>)"
  using assms by (simp add: q_inv_def wake_0 wake_other)

text \<open>Moving a producer that owes no notification keeps the invariant.\<close>

lemma q_inv_move_producer:
  assumes "q_inv s" "i \<noteq> 0" "s_pc s i \<noteq> P_notify" "\<not> is_consumer_pc p" "q_items q' = q_items (sq s)"
  shows "q_inv (s\<lparr>sq := q', s_pc := (s_pc s)(i := p)\<rparr>)"
proof -
  have "\<exists>j. ((s_pc s)(i := p)) j = P_notify" if "\<exists>j. s_pc s j = P_notify"
  proof -
    from that obtain j where j: "s_pc s j = P_notify" ..
    with assms(3) have "j \<noteq> i" by auto
    with j have "((s_pc s)(i := p)) j = P_notify" by simp
    then show ?thesis ..
  qed
  with assms show ?thesis
    by (simp add: q_inv_def)
qed

lemma q_inv_producer:
  assumes "q_inv s" "i \<noteq> 0" "producer_step i s = Some t"
  shows "q_inv t"
proof (cases "s_pc s i")
  case (P_check x)
  then have "t = s\<lparr>sq := sq s, s_pc := (s_pc s)(i := (if q_stop (sq s) then Idle else P_lock x))\<rparr>"
    using assms(3) by (simp add: producer_step_def)
  then show ?thesis
    using P_check assms(1,2) q_inv_move_producer [of s i _ "sq s"] by simp
next
  case (P_lock x)
  then have t: "t = s\<lparr>sq := (sq s)\<lparr>q_items := q_items (sq s) @ [x]\<rparr>,
      s_pc := (s_pc s)(i := P_notify), h_in := h_in s @ [x]\<rparr>" and l: "s_lock s = None"
    using assms by (auto simp: producer_step_def split: if_splits)
  from l assms(1) have "\<not> holds_lock (s_pc s 0)" by (auto simp: q_inv_def)
  then have "s_pc s 0 \<noteq> C_block k" for k by auto
  moreover have "\<exists>j. ((s_pc s)(i := P_notify)) j = P_notify" by (rule exI [of _ i]) simp
  ultimately show ?thesis
    using assms(1,2) by (simp add: q_inv_def t)
next
  case P_notify
  with assms q_inv_wake [OF assms(1,2)] show ?thesis by (simp add: producer_step_def)
next
  case S_notify
  with assms q_inv_wake [OF assms(1,2)] show ?thesis by (simp add: producer_step_def)
qed (use assms in \<open>simp_all add: producer_step_def\<close>)

lemma q_inv_shutdown:
  assumes "q_inv s" "i \<noteq> 0" "shutdown_step i s = Some t"
  shows "q_inv t"
proof -
  from assms(3) have i: "s_pc s i = Idle"
    and t: "t = (case q_shutdown (sq s) of (first, q') \<Rightarrow>
             s\<lparr>sq := q', s_pc := (s_pc s)(i := (if first then S_notify else Idle))\<rparr>)"
    by (auto simp: shutdown_step_def split: if_splits)
  show ?thesis
    using q_inv_move_producer [OF assms(1,2), of S_notify "(sq s)\<lparr>q_stop := True\<rparr>"]
      q_inv_move_producer [OF assms(1,2), of Idle "sq s"] i
    by (simp add: t q_shutdown_def)
qed

lemma q_inv_exec:
  assumes "q_inv s" "q_exec e s = Some t"
  shows "q_inv t"
proof (cases e)
  case (E_call_pop k)
  with assms show ?thesis by (auto simp: q_inv_def split: if_splits)
next
  case (E_call_push i x)
  with assms q_inv_move_producer [of s i "P_check x" "sq s"] show ?thesis by (simp split: if_splits)
next
  case E_consumer
  with assms show ?thesis by (simp add: q_inv_consumer)
next
  case (E_producer i)
  with assms show ?thesis by (auto intro: q_inv_producer split: if_splits)
next
  case (E_shutdown i)
  with assms show ?thesis by (auto intro: q_inv_shutdown split: if_splits)
qed

lemma q_reach_inv: "q_reach s \<Longrightarrow> q_inv s"
  by (induction rule: q_reach.induct) (auto intro: q_inv_init q_inv_exec)

section \<open>Properties\<close>

text \<open>C7. Under every interleaving the queue is first in, first out and loses nothing: the items
  handed out so far, followed by the items still queued, are the items stored, in the order in
  which they were stored.\<close>

theorem conc_fifo:
  assumes "q_reach s"
  shows "h_in s = h_out s @ q_items (sq s)"
  using q_reach_inv [OF assms] by (simp add: q_inv_def)

text \<open>The consumer suspends on the empty queue, then thread 1 stores an item.\<close>

definition example_run :: "string qevent list" where
  "example_run = [E_call_pop W_pop, E_consumer, E_consumer, E_consumer,
     E_call_push 1 ''hello'', E_producer 1, E_producer 1]"

lemmas q_run_simps = qsys_init_def queue_init_def consumer_step_def producer_step_def
  shutdown_step_def wake_def q_ready_def q_shutdown_def take_items_def

definition example_state :: "string qsys" where
  "example_state = \<lparr>sq = \<lparr>q_items = [''hello''], q_stop = False\<rparr>, s_lock = None,
     s_pc = (\<lambda>_. Idle)(0 := C_wait W_pop, 1 := P_notify), h_in = [''hello''], h_out = []\<rparr>"

lemma example_state_run: "q_run example_run qsys_init = Some example_state"
  by (simp add: example_run_def example_state_def q_run_simps fun_upd_twist)

lemma example_state_reach: "q_reach example_state"
  using q_run_reach [OF q_reach.start example_state_run] .

theorem conc_fifo_witness: "h_in example_state = h_out example_state @ q_items (sq example_state)"
  by (rule conc_fifo) (rule example_state_reach)

text \<open>C24. No push is slept through: whenever the consumer is suspended while an item is queued, some
  producer is about to notify, and its next step wakes the consumer.\<close>

theorem push_wakes_consumer:
  assumes "q_reach s" "s_pc s 0 = C_wait k" "q_items (sq s) \<noteq> []"
  shows "\<exists>i t. q_exec (E_producer i) s = Some t \<and> s_pc t 0 = C_lock k"
proof -
  have inv: "q_inv s" using assms(1) by (rule q_reach_inv)
  with assms(2,3) obtain i where i: "s_pc s i = P_notify" by (auto simp: q_inv_def)
  with assms(2) have "i \<noteq> 0" by (cases i) auto
  with i assms(2) have "q_exec (E_producer i) s = Some (s\<lparr>s_pc := wake ((s_pc s)(i := Idle))\<rparr>)"
    "s_pc (s\<lparr>s_pc := wake ((s_pc s)(i := Idle))\<rparr>) 0 = C_lock k"
    by (simp_all add: producer_step_def wake_def)
  then show ?thesis by blast
qed

theorem push_wakes_consumer_witness:
  "\<exists>i t. q_exec (E_producer i) example_state = Some t \<and> s_pc t 0 = C_lock W_pop"
  by (rule push_wakes_consumer [OF example_state_reach]) (simp_all add: example_state_def)

text \<open>The lost wake-up: a stopped queue with a suspended consumer and no notification pending.\<close>

fun quiet :: "'a pc \<Rightarrow> bool" where
  "quiet Idle = True"
| "quiet (P_check x) = True"
| "quiet _ = False"

lemma stopped_waiting_stuck:
  assumes "q_stop (sq s)" "s_pc s 0 = C_wait k" "\<forall>i. i \<noteq> 0 \<longrightarrow> quiet (s_pc s i)"
    and "q_exec e s = Some t"
  shows "q_stop (sq t) \<and> s_pc t 0 = C_wait k \<and> (\<forall>i. i \<noteq> 0 \<longrightarrow> quiet (s_pc t i))"
proof (cases e)
  case (E_producer i)
  with assms have i: "i \<noteq> 0" and p: "producer_step i s = Some t" by (auto split: if_splits)
  with assms(3) have "quiet (s_pc s i)" by blast
  with p assms(1) have "t = s\<lparr>s_pc := (s_pc s)(i := Idle)\<rparr>"
    by (cases "s_pc s i") (simp_all add: producer_step_def)
  with i assms(1-3) show ?thesis by simp
qed (use assms in \<open>auto simp: consumer_step_def shutdown_step_def q_shutdown_def split: if_splits\<close>)

lemma stopped_waiting_forever:
  assumes "q_stop (sq s)" "s_pc s 0 = C_wait k" "\<forall>i. i \<noteq> 0 \<longrightarrow> quiet (s_pc s i)"
  shows "pred_option (\<lambda>t. s_pc t 0 = C_wait k) (q_run es s)"
  using assms
proof (induction es arbitrary: s)
  case (Cons e es)
  show ?case
  proof (cases "q_exec e s")
    case (Some t)
    with stopped_waiting_stuck [OF Cons.prems Some] Cons.IH show ?thesis by simp
  qed simp
qed simp

definition lost_run :: "wait_kind \<Rightarrow> 'a qevent list" where
  "lost_run k = [E_call_pop k, E_consumer, E_consumer, E_shutdown 1, E_producer 1, E_consumer]"

definition lost_state :: "wait_kind \<Rightarrow> 'a qsys" where
  "lost_state k = \<lparr>sq = \<lparr>q_items = [], q_stop = True\<rparr>, s_lock = None,
     s_pc = (\<lambda>_. Idle)(0 := C_wait k), h_in = [], h_out = []\<rparr>"

lemma lost_run_state: "q_run (lost_run k) qsys_init = Some (lost_state k)"
  by (simp add: lost_run_def lost_state_def q_run_simps fun_upd_idem)

text \<open>C35. \<open>shutdown()\<close> sets \<open>stop\<close> and notifies without taking the mutex, so its notification can
  fall between the consumer's evaluation of the predicate and its suspension. From the state this
  leads to, the consumer stays suspended whatever the threads do: later pushes return at the
  \<open>stop\<close> check and later shutdowns do not notify again.\<close>

theorem shutdown_lost_wakeup:
  "\<exists>s :: 'a qsys. q_reach s \<and> q_stop (sq s) \<and> s_pc s 0 = C_wait k \<and>
     (\<forall>es. pred_option (\<lambda>t. s_pc t 0 = C_wait k) (q_run es s))"
proof (intro exI conjI allI)
  show "q_reach (lost_state k :: 'a qsys)"
    by (rule q_run_reach [OF q_reach.start lost_run_state])
  show "q_stop (sq (lost_state k :: 'a qsys))" and w: "s_pc (lost_state k :: 'a qsys) 0 = C_wait k"
    by (simp_all add: lost_state_def)
  show "pred_option (\<lambda>t. s_pc t 0 = C_wait k) (q_run es (lost_state k :: 'a qsys))" for es
    by (rule stopped_waiting_forever) (simp_all add: lost_state_def)
qed

end
