(* ===== verification/Cqy_Ctx_Lock.thy ===== *)
theory Cqy_Ctx_Lock
  imports Cqy_Prelude
begin

text \<open>
  The lock of a context (\<open>ctx_lock\<close>) and the code that takes it: \<open>on_msg\<close> coroutines
  (\<open>wait_msg_spawn\<close>), registered functions (\<open>register_rpc_func\<close>, unless registered with
  \<open>muli = true\<close>) and tasks of \<open>async_call\<close> run under it; \<open>ctx_call\<close>, \<open>ctx_call_name\<close> and
  \<open>sync_call\<close> release it while they wait and take it back through \<open>finally\<close>
  (\<open>include/cqy_finally.h\<close>), also when the call throws. The lock is async\_simple's \<open>SpinLock\<close>, a
  flag: taking it waits for the flag to be clear and sets it, \<open>unlock\<close> clears it whoever calls.
  \<open>coScopedLock\<close> waits as a coroutine, which gives its thread back; \<open>lock()\<close>, the one in \<open>finally\<close>, waits on the
  thread. The executors and their threads are therefore part of the state.
\<close>

section \<open>\<open>finally\<close>\<close>

text \<open>The objects a \<open>FinalAction\<close> was moved through; \<open>invoke_\<close> is the flag of each.\<close>

record final_action =
  fa_invoke :: bool

definition final_new :: final_action where
  "final_new = \<lparr>fa_invoke = True\<rparr>"

text \<open>The move constructor: the new object and the object moved from.\<close>

definition final_move :: "final_action \<Rightarrow> final_action \<times> final_action" where
  "final_move other = (\<lparr>fa_invoke = fa_invoke other\<rparr>, other\<lparr>fa_invoke := False\<rparr>)"

text \<open>The destructor, on a counter of the calls of \<open>f_\<close>.\<close>

definition final_destroy :: "final_action \<Rightarrow> nat \<Rightarrow> nat" where
  "final_destroy fa calls = (if fa_invoke fa then calls + 1 else calls)"

text \<open>A chain of moves: all the objects that are destroyed in the end.\<close>

fun final_moves :: "nat \<Rightarrow> final_action \<Rightarrow> final_action list" where
  "final_moves 0 fa = [fa]"
| "final_moves (Suc n) fa = (case final_move fa of (new, old) \<Rightarrow> old # final_moves n new)"

section \<open>Tasks of a context\<close>

datatype task_kind = On_msg | Rpc_func bool | Async_task

text \<open>Whether the task runs under a scoped lock; the argument of \<open>Rpc_func\<close> is \<open>muli\<close>.\<close>

definition guarded :: "task_kind \<Rightarrow> bool" where
  "guarded k = (case k of Rpc_func muli \<Rightarrow> \<not> muli | _ \<Rightarrow> True)"

text \<open>Not started, waiting in \<open>coScopedLock\<close>, in user code, inside \<open>ctx_call\<close> or \<open>sync_call\<close> after \<open>unlock\<close>, in the \<open>lock()\<close> of the
  \<open>finally\<close> of such a call, finished. The number counts the calls around the innermost one: the task given to
  \<open>sync_call\<close> may itself use \<open>ctx_call\<close> or \<open>sync_call\<close>.\<close>

datatype task_pc = T_none | T_wait | T_run | T_call nat | T_spin nat | T_done

text \<open>The kind of each task, the executor it is resumed on and the number of threads of each executor.\<close>

record lock_cfg =
  lc_kind :: "nat \<Rightarrow> task_kind"
  lc_ex :: "nat \<Rightarrow> nat"
  lc_threads :: "nat \<Rightarrow> nat"

text \<open>\<open>lk_on\<close> are the tasks that occupy a thread at the moment.\<close>

record lock_sys =
  lk_flag :: bool
  lk_task :: "nat \<Rightarrow> task_pc"
  lk_on :: "nat list"

definition lock_init :: lock_sys where
  "lock_init = \<lparr>lk_flag = False, lk_task = (\<lambda>_. T_none), lk_on = []\<rparr>"

datatype lock_event = L_spawn nat | L_enter nat | L_suspend nat | L_resume nat | L_call nat | L_nested nat | L_return nat | L_lock nat | L_finish nat

definition goto :: "nat \<Rightarrow> task_pc \<Rightarrow> lock_sys \<Rightarrow> lock_sys" where
  "goto i pc s = s\<lparr>lk_task := (lk_task s)(i := pc)\<rparr>"

definition get_on :: "nat \<Rightarrow> lock_sys \<Rightarrow> lock_sys" where
  "get_on i s = s\<lparr>lk_on := i # lk_on s\<rparr>"

definition get_off :: "nat \<Rightarrow> lock_sys \<Rightarrow> lock_sys" where
  "get_off i s = s\<lparr>lk_on := removeAll i (lk_on s)\<rparr>"

definition occupied :: "lock_cfg \<Rightarrow> nat \<Rightarrow> lock_sys \<Rightarrow> nat" where
  "occupied C e s = length (filter (\<lambda>j. lc_ex C j = e) (lk_on s))"

definition has_thread :: "lock_cfg \<Rightarrow> nat \<Rightarrow> lock_sys \<Rightarrow> bool" where
  "has_thread C e s \<longleftrightarrow> occupied C e s < lc_threads C e"

text \<open>\<open>async_call\<close>, a message or a call: a coroutine is started.\<close>

definition spawn_task :: "nat \<Rightarrow> lock_sys \<Rightarrow> lock_sys option" where
  "spawn_task i s = (if lk_task s i = T_none then Some (goto i T_wait s) else None)"

text \<open>\<open>coScopedLock\<close> of the wrapper, where it has one, and the end of the task with its guard.\<close>

definition task_enter :: "lock_cfg \<Rightarrow> nat \<Rightarrow> lock_sys \<Rightarrow> lock_sys option" where
  "task_enter C i s =
     (if lk_task s i \<noteq> T_wait \<or> \<not> has_thread C (lc_ex C i) s then None
      else if \<not> guarded (lc_kind C i) then Some (goto i T_run (get_on i s))
      else if lk_flag s then None
      else Some ((goto i T_run (get_on i s))\<lparr>lk_flag := True\<rparr>))"

definition task_finish :: "lock_cfg \<Rightarrow> nat \<Rightarrow> lock_sys \<Rightarrow> lock_sys option" where
  "task_finish C i s =
     (if lk_task s i \<noteq> T_run \<or> i \<notin> set (lk_on s) then None
      else if guarded (lc_kind C i) then Some ((goto i T_done (get_off i s))\<lparr>lk_flag := False\<rparr>)
      else Some (goto i T_done (get_off i s)))"

text \<open>A \<open>co_await\<close> of the user code, or the one inside a call, gives the thread back and touches the lock no more than that; the task goes on when its executor has a
  thread for it.\<close>

definition may_await :: "task_pc \<Rightarrow> bool" where
  "may_await pc = (case pc of T_run \<Rightarrow> True | T_call _ \<Rightarrow> True | _ \<Rightarrow> False)"

definition task_suspend :: "nat \<Rightarrow> lock_sys \<Rightarrow> lock_sys option" where
  "task_suspend i s = (if may_await (lk_task s i) \<and> i \<in> set (lk_on s) then Some (get_off i s) else None)"

definition task_resume :: "lock_cfg \<Rightarrow> nat \<Rightarrow> lock_sys \<Rightarrow> lock_sys option" where
  "task_resume C i s =
     (if may_await (lk_task s i) \<and> i \<notin> set (lk_on s) \<and> has_thread C (lc_ex C i) s then Some (get_on i s) else None)"

text \<open>\<open>ctx_lock().unlock()\<close> in \<open>ctx_call\<close>, \<open>ctx_call_name\<close> and \<open>sync_call\<close>, used from the task itself or from a task it has given to \<open>sync_call\<close>. Nothing checks that the
  lock is held.\<close>

definition call_unlock :: "nat \<Rightarrow> lock_sys \<Rightarrow> lock_sys option" where
  "call_unlock i s =
     (if lk_task s i = T_run \<and> i \<in> set (lk_on s) then Some ((goto i (T_call 0) s)\<lparr>lk_flag := False\<rparr>) else None)"

definition call_nested :: "nat \<Rightarrow> lock_sys \<Rightarrow> lock_sys option" where
  "call_nested i s =
     (case lk_task s i of
        T_call n \<Rightarrow> if i \<in> set (lk_on s) then Some ((goto i (T_call (Suc n)) s)\<lparr>lk_flag := False\<rparr>) else None
      | _ \<Rightarrow> None)"

text \<open>The awaited call is over, by its result or by an exception, and the destructor of the \<open>finally\<close> object enters \<open>ctx_lock().lock()\<close>. From there the task keeps its
  thread until it has the lock.\<close>

definition call_return :: "nat \<Rightarrow> lock_sys \<Rightarrow> lock_sys option" where
  "call_return i s =
     (case lk_task s i of T_call n \<Rightarrow> if i \<in> set (lk_on s) then Some (goto i (T_spin n) s) else None | _ \<Rightarrow> None)"

definition call_relock :: "nat \<Rightarrow> lock_sys \<Rightarrow> lock_sys option" where
  "call_relock i s =
     (case lk_task s i of
        T_spin n \<Rightarrow>
          if lk_flag s then None
          else Some ((goto i (case n of 0 \<Rightarrow> T_run | Suc m \<Rightarrow> T_call m) s)\<lparr>lk_flag := True\<rparr>)
      | _ \<Rightarrow> None)"

fun lock_step :: "lock_cfg \<Rightarrow> lock_event \<Rightarrow> lock_sys \<Rightarrow> lock_sys option" where
  "lock_step C (L_spawn i) s = spawn_task i s"
| "lock_step C (L_enter i) s = task_enter C i s"
| "lock_step C (L_suspend i) s = task_suspend i s"
| "lock_step C (L_resume i) s = task_resume C i s"
| "lock_step C (L_call i) s = call_unlock i s"
| "lock_step C (L_nested i) s = call_nested i s"
| "lock_step C (L_return i) s = call_return i s"
| "lock_step C (L_lock i) s = call_relock i s"
| "lock_step C (L_finish i) s = task_finish C i s"

lemmas lock_defs = spawn_task_def task_enter_def task_finish_def task_suspend_def task_resume_def call_unlock_def
  call_nested_def call_return_def call_relock_def

inductive lock_trace :: "lock_cfg \<Rightarrow> lock_event list \<Rightarrow> lock_sys \<Rightarrow> bool" for C where
  start: "lock_trace C [] lock_init"
| step: "lock_trace C es s \<Longrightarrow> lock_step C e s = Some s' \<Longrightarrow> lock_trace C (es @ [e]) s'"

section \<open>Invariant\<close>

text \<open>The use of the lock the code is made for: only tasks that have the lock use \<open>ctx_call\<close>, \<open>ctx_call_name\<close> and \<open>sync_call\<close>, and a task given to \<open>sync_call\<close> does
  not use them again.\<close>

definition disciplined :: "lock_cfg \<Rightarrow> lock_event list \<Rightarrow> bool" where
  "disciplined C es \<longleftrightarrow>
     (\<forall>e \<in> set es. case e of L_call i \<Rightarrow> guarded (lc_kind C i) | L_nested i \<Rightarrow> False | _ \<Rightarrow> True)"

lemma disciplined_simps [simp]:
  "disciplined C []" "disciplined C (es @ fs) \<longleftrightarrow> disciplined C es \<and> disciplined C fs"
  "disciplined C (e # f # es) \<longleftrightarrow> disciplined C [e] \<and> disciplined C (f # es)"
  by (auto simp: disciplined_def)

text \<open>A task of the lock in its user code, whether it runs or is suspended in an await.\<close>

definition holds :: "lock_cfg \<Rightarrow> lock_sys \<Rightarrow> nat \<Rightarrow> bool" where
  "holds C s i \<longleftrightarrow> guarded (lc_kind C i) \<and> lk_task s i = T_run"

definition holders :: "lock_cfg \<Rightarrow> lock_sys \<Rightarrow> nat set" where
  "holders C s = {i. holds C s i}"

text \<open>The flag is set exactly while one task holds the lock; only tasks of the lock are inside a call; threads are given to active tasks, no more than there are, and a task that
  waits in \<open>lock()\<close> has one.\<close>

definition flag_inv :: "lock_cfg \<Rightarrow> lock_sys \<Rightarrow> bool" where
  "flag_inv C s \<longleftrightarrow>
     (if lk_flag s then \<exists>i. holders C s = {i} else holders C s = {}) \<and>
     (\<forall>i n. lk_task s i = T_call n \<or> lk_task s i = T_spin n \<longrightarrow> n = 0 \<and> guarded (lc_kind C i))"

definition thread_inv :: "lock_cfg \<Rightarrow> lock_sys \<Rightarrow> bool" where
  "thread_inv C s \<longleftrightarrow>
     distinct (lk_on s) \<and> (\<forall>e. occupied C e s \<le> lc_threads C e) \<and>
     (\<forall>i \<in> set (lk_on s). lk_task s i \<notin> {T_none, T_wait, T_done}) \<and>
     (\<forall>i n. lk_task s i = T_spin n \<longrightarrow> i \<in> set (lk_on s))"

lemma goto_sel [simp]:
  "lk_flag (goto i pc s) = lk_flag s" "lk_on (goto i pc s) = lk_on s" "lk_task (goto i pc s) = (lk_task s)(i := pc)"
  "lk_flag (get_on i s) = lk_flag s" "lk_on (get_on i s) = i # lk_on s" "lk_task (get_on i s) = lk_task s"
  "lk_flag (get_off i s) = lk_flag s" "lk_on (get_off i s) = removeAll i (lk_on s)" "lk_task (get_off i s) = lk_task s"
  by (simp_all add: goto_def get_on_def get_off_def)

lemma holders_iff: "i \<in> holders C s \<longleftrightarrow> guarded (lc_kind C i) \<and> lk_task s i = T_run"
  by (simp add: holders_def holds_def)

lemma occupied_cong: "lk_on s' = lk_on s \<Longrightarrow> occupied C e s' = occupied C e s"
  by (simp add: occupied_def)

lemma occupied_simps [simp]:
  "occupied C e (goto i pc s) = occupied C e s" "occupied C e (s\<lparr>lk_flag := b\<rparr>) = occupied C e s"
  "occupied C e (get_on i s) = (if lc_ex C i = e then Suc (occupied C e s) else occupied C e s)"
  by (simp_all add: occupied_def)

lemma occupied_off: "occupied C e (get_off i s) = length (removeAll i (filter (\<lambda>j. lc_ex C j = e) (lk_on s)))"
  by (simp add: occupied_def removeAll_filter_not_eq conj_commute)

lemma occupied_get_off: "occupied C e (get_off i s) \<le> occupied C e s"
  unfolding occupied_off by (simp add: occupied_def)

lemma occupied_get_off_less: "i \<in> set (lk_on s) \<Longrightarrow> occupied C (lc_ex C i) (get_off i s) < occupied C (lc_ex C i) s"
  unfolding occupied_off by (simp add: occupied_def length_removeAll_less)

lemma flag_inv_running:
  "flag_inv C s \<Longrightarrow> guarded (lc_kind C i) \<Longrightarrow> lk_task s i = T_run \<Longrightarrow> lk_flag s \<and> holders C s = {i}"
  using holders_iff [of i C s] by (auto simp: flag_inv_def split: if_splits)

lemma flag_inv_at_most_one:
  "flag_inv C s \<Longrightarrow> holds C s i \<Longrightarrow> holds C s j \<Longrightarrow> i = j"
  using flag_inv_running [of C s] unfolding holds_def by blast

text \<open>The holders after a step, by the position the task moves to.\<close>

lemma holders_upd:
  "lk_task s' = (lk_task s)(i := pc) \<Longrightarrow>
    holders C s' = (if guarded (lc_kind C i) \<and> pc = T_run then insert i (holders C s) else holders C s - {i})"
  by (auto simp: holders_def holds_def)

text \<open>A task takes the lock, lets it go, or moves with neither.\<close>

lemma flag_inv_upd:
  assumes "flag_inv C s" "lk_task s' = (lk_task s)(i := pc)"
    and "\<And>n. pc = T_call n \<or> pc = T_spin n \<Longrightarrow> n = 0 \<and> guarded (lc_kind C i)"
    and "guarded (lc_kind C i) \<and> pc = T_run \<and> \<not> lk_flag s \<and> lk_flag s' \<or>
      guarded (lc_kind C i) \<and> pc \<noteq> T_run \<and> lk_task s i = T_run \<and> \<not> lk_flag s' \<or>
      lk_flag s' = lk_flag s \<and> (guarded (lc_kind C i) \<longrightarrow> (pc = T_run \<longleftrightarrow> lk_task s i = T_run))"
  shows "flag_inv C s'"
proof -
  have calls: "\<forall>j n. lk_task s' j = T_call n \<or> lk_task s' j = T_spin n \<longrightarrow> n = 0 \<and> guarded (lc_kind C j)"
    using assms(1-3) by (auto simp: flag_inv_def)
  have "if lk_flag s' then \<exists>j. holders C s' = {j} else holders C s' = {}"
    using assms(4)
  proof (elim disjE conjE)
    assume "lk_flag s' = lk_flag s" "guarded (lc_kind C i) \<longrightarrow> (pc = T_run \<longleftrightarrow> lk_task s i = T_run)"
    moreover from this(2) have "holders C s' = holders C s"
      using holders_upd [OF assms(2)] holders_iff [of i C s] by auto
    ultimately show ?thesis using assms(1) by (simp add: flag_inv_def)
  qed (use assms(1) flag_inv_running [OF assms(1), of i] holders_upd [OF assms(2)] in \<open>auto simp: flag_inv_def\<close>)
  with calls show ?thesis by (simp add: flag_inv_def)
qed

lemma flag_inv_same: "flag_inv C s \<Longrightarrow> lk_flag s' = lk_flag s \<Longrightarrow> lk_task s' = lk_task s \<Longrightarrow> flag_inv C s'"
  unfolding flag_inv_def holders_def holds_def by simp

lemma flag_inv_step:
  assumes inv: "flag_inv C s" and "lock_step C e s = Some s'" "disciplined C [e]"
  shows "flag_inv C s'"
proof (cases e)
  case (L_suspend i)
  then show ?thesis using assms by (auto simp: lock_defs split: if_splits intro: flag_inv_same)
next
  case (L_resume i)
  then show ?thesis using assms by (auto simp: lock_defs split: if_splits intro: flag_inv_same)
next
  case (L_lock i)
  with assms(2) obtain n where n: "lk_task s i = T_spin n" by (auto simp: lock_defs split: task_pc.splits)
  with inv have "n = 0" "guarded (lc_kind C i)" by (auto simp: flag_inv_def)
  with n L_lock assms(2) show ?thesis
    by (intro flag_inv_upd [OF inv, of s' i T_run]) (auto simp: lock_defs split: if_splits)
next
  case (L_return i)
  with assms(2) obtain n where n: "lk_task s i = T_call n" by (auto simp: lock_defs split: task_pc.splits)
  with inv have "n = 0" "guarded (lc_kind C i)" by (auto simp: flag_inv_def)
  with n L_return assms(2) show ?thesis
    by (intro flag_inv_upd [OF inv, of s' i "T_spin 0"]) (auto simp: lock_defs split: if_splits)
next
  case (L_spawn i)
  then show ?thesis
    using assms by (intro flag_inv_upd [OF inv, of s' i T_wait]) (auto simp: lock_defs split: if_splits)
next
  case (L_enter i)
  then show ?thesis
    using assms by (intro flag_inv_upd [OF inv, of s' i T_run]) (auto simp: lock_defs split: if_splits)
next
  case (L_call i)
  then show ?thesis
    using assms by (intro flag_inv_upd [OF inv, of s' i "T_call 0"]) (auto simp: lock_defs disciplined_def split: if_splits)
next
  case (L_finish i)
  then show ?thesis
    using assms by (intro flag_inv_upd [OF inv, of s' i T_done]) (auto simp: lock_defs split: if_splits)
qed (use assms(3) in \<open>simp add: disciplined_def\<close>)

text \<open>The threads do not depend on the discipline: a task moves on its thread, or gets one, or gives it back.\<close>

lemma thread_inv_upd:
  assumes "thread_inv C s" "lk_task s' = (lk_task s)(i := pc)" "lk_on s' = lk_on s"
    and "i \<in> set (lk_on s) \<longleftrightarrow> pc \<notin> {T_none, T_wait, T_done}"
  shows "thread_inv C s'"
  using assms occupied_cong [OF assms(3)] unfolding thread_inv_def by auto

lemma thread_inv_on:
  assumes "thread_inv C s" "lk_task s' = (lk_task s)(i := pc)" "lk_on s' = i # lk_on s"
    and "i \<notin> set (lk_on s)" "has_thread C (lc_ex C i) s" "pc \<notin> {T_none, T_wait, T_done}"
  shows "thread_inv C s'"
proof -
  have "occupied C e s' \<le> lc_threads C e" for e
    using assms(1,3,5) occupied_cong [of s' "get_on i s" C e] by (auto simp: thread_inv_def has_thread_def Suc_le_eq)
  with assms show ?thesis unfolding thread_inv_def by auto
qed

lemma thread_inv_off:
  assumes "thread_inv C s" "lk_task s' = (lk_task s)(i := pc)" "lk_on s' = removeAll i (lk_on s)" "\<And>n. pc \<noteq> T_spin n"
  shows "thread_inv C s'"
proof -
  have "occupied C e s' \<le> lc_threads C e" for e
    using assms(1,3) occupied_cong [of s' "get_off i s" C e] occupied_get_off [of C e i s]
    by (auto simp: thread_inv_def intro: le_trans)
  with assms show ?thesis unfolding thread_inv_def by (auto simp: distinct_removeAll)
qed

lemma thread_inv_step:
  assumes inv: "thread_inv C s" and "lock_step C e s = Some s'"
  shows "thread_inv C s'"
proof -
  have off: "i \<notin> set (lk_on s)" if "lk_task s i = T_wait \<or> lk_task s i = T_none" for i
    using inv that unfolding thread_inv_def by auto
  have spin: "i \<in> set (lk_on s)" if "lk_task s i = T_spin n" for i n
    using inv that unfolding thread_inv_def by blast
  note defs = lock_defs may_await_def
  show ?thesis
  proof (cases e)
    case (L_spawn i)
    then show ?thesis using assms(2) off [of i] by (intro thread_inv_upd [OF inv, of s' i T_wait]) (auto simp: defs split: if_splits)
  next
    case (L_enter i)
    then show ?thesis
      using assms(2) off [of i] by (intro thread_inv_on [OF inv, of s' i T_run]) (auto simp: defs split: if_splits)
  next
    case (L_resume i)
    then show ?thesis
      using assms(2) by (intro thread_inv_on [OF inv, of s' i "lk_task s i"]) (auto simp: defs split: if_splits task_pc.splits)
  next
    case (L_suspend i)
    then show ?thesis
      using assms(2) by (intro thread_inv_off [OF inv, of s' i "lk_task s i"]) (auto simp: defs split: if_splits task_pc.splits)
  next
    case (L_finish i)
    then show ?thesis
      using assms(2) by (intro thread_inv_off [OF inv, of s' i T_done]) (auto simp: defs split: if_splits)
  next
    case (L_call i)
    then show ?thesis using assms(2) by (intro thread_inv_upd [OF inv, of s' i "T_call 0"]) (auto simp: defs split: if_splits)
  next
    case (L_nested i)
    with assms(2) obtain n where n: "lk_task s i = T_call n" by (auto simp: defs split: task_pc.splits)
    with L_nested assms(2) show ?thesis
      by (intro thread_inv_upd [OF inv, of s' i "T_call (Suc n)"]) (auto simp: defs split: if_splits)
  next
    case (L_return i)
    with assms(2) obtain n where n: "lk_task s i = T_call n" by (auto simp: defs split: task_pc.splits)
    with L_return assms(2) show ?thesis
      by (intro thread_inv_upd [OF inv, of s' i "T_spin n"]) (auto simp: defs split: if_splits)
  next
    case (L_lock i)
    with assms(2) obtain n where n: "lk_task s i = T_spin n" by (auto simp: defs split: task_pc.splits)
    with L_lock assms(2) spin [OF n] show ?thesis
      by (intro thread_inv_upd [OF inv, of s' i "case n of 0 \<Rightarrow> T_run | Suc m \<Rightarrow> T_call m"])
        (auto simp: defs split: if_splits nat.splits)
  qed
qed

definition lock_inv :: "lock_cfg \<Rightarrow> lock_sys \<Rightarrow> bool" where
  "lock_inv C s \<longleftrightarrow> flag_inv C s \<and> thread_inv C s"

lemma lock_inv_init: "lock_inv C lock_init"
  by (simp add: lock_inv_def flag_inv_def thread_inv_def lock_init_def holders_def holds_def occupied_def)

lemma lock_inv_step: "lock_inv C s \<Longrightarrow> lock_step C e s = Some s' \<Longrightarrow> disciplined C [e] \<Longrightarrow> lock_inv C s'"
  using flag_inv_step thread_inv_step by (auto simp: lock_inv_def)

lemma lock_inv_trace: "lock_trace C es s \<Longrightarrow> disciplined C es \<Longrightarrow> lock_inv C s"
  by (induction rule: lock_trace.induct) (auto intro: lock_inv_init lock_inv_step)

section \<open>Runs\<close>

fun lock_run :: "lock_cfg \<Rightarrow> lock_event list \<Rightarrow> lock_sys \<Rightarrow> lock_sys option" where
  "lock_run C [] s = Some s"
| "lock_run C (e # es) s = (case lock_step C e s of None \<Rightarrow> None | Some s' \<Rightarrow> lock_run C es s')"

inductive_cases lock_trace_NilE: "lock_trace C [] s"
inductive_cases lock_trace_snocE: "lock_trace C (es @ [e]) s"

lemma lock_run_append: "lock_run C (es @ es') s = Option.bind (lock_run C es s) (lock_run C es')"
  by (induction es arbitrary: s) (auto split: option.split)

text \<open>The traces are the runs.\<close>

lemma lock_trace_iff_run: "lock_trace C es s \<longleftrightarrow> lock_run C es lock_init = Some s"
proof (induction es arbitrary: s rule: rev_induct)
  case Nil
  then show ?case by (auto elim: lock_trace_NilE intro: lock_trace.start)
next
  case (snoc e es)
  then show ?case
    by (auto elim!: lock_trace_snocE intro: lock_trace.step simp: lock_run_append split: bind_splits option.splits)
qed

text \<open>What can be reached by a disciplined run.\<close>

definition lock_reach :: "lock_cfg \<Rightarrow> lock_sys \<Rightarrow> lock_sys \<Rightarrow> bool" where
  "lock_reach C s s' \<longleftrightarrow> (\<exists>fs. disciplined C fs \<and> lock_run C fs s = Some s')"

lemma lock_reach_refl: "lock_reach C s s"
  unfolding lock_reach_def by (rule exI [of _ "[]"]) simp

lemma lock_reach_trans:
  assumes "lock_reach C s t" "lock_reach C t u"
  shows "lock_reach C s u"
proof -
  from assms obtain es fs where "disciplined C es" "lock_run C es s = Some t" "disciplined C fs" "lock_run C fs t = Some u"
    unfolding lock_reach_def by blast
  then show ?thesis unfolding lock_reach_def by (intro exI [of _ "es @ fs"]) (simp add: lock_run_append)
qed

lemma lock_reach_step: "lock_step C e s = Some t \<Longrightarrow> disciplined C [e] \<Longrightarrow> lock_reach C s t"
  unfolding lock_reach_def by (rule exI [of _ "[e]"]) simp

lemma lock_reach_induct [consumes 1, case_names refl step]:
  assumes "lock_reach C s s'" "P s" "\<And>t e u. P t \<Longrightarrow> lock_step C e t = Some u \<Longrightarrow> disciplined C [e] \<Longrightarrow> P u"
  shows "P s'"
proof -
  obtain fs where "disciplined C fs" "lock_run C fs s = Some s'" using assms(1) unfolding lock_reach_def by blast
  then show ?thesis using assms(2)
  proof (induction fs arbitrary: s)
    case (Cons e fs)
    then obtain t where "lock_step C e s = Some t" "lock_run C fs t = Some s'" by (auto split: option.splits)
    moreover have "disciplined C [e]" "disciplined C fs" using Cons.prems(1) by (auto simp: disciplined_def)
    ultimately show ?case using Cons.IH Cons.prems(3) assms(3) by blast
  qed simp
qed

lemma lock_reach_inv: "lock_reach C s s' \<Longrightarrow> lock_inv C s \<Longrightarrow> lock_inv C s'"
  by (induction rule: lock_reach_induct) (auto intro: lock_inv_step)

section \<open>Waiting on a thread\<close>

text \<open>The task that holds the lock is suspended, and all the threads of its executor are in the \<open>lock()\<close> of a \<open>finally\<close>.\<close>

definition jam :: "lock_cfg \<Rightarrow> nat \<Rightarrow> lock_sys \<Rightarrow> bool" where
  "jam C h s \<longleftrightarrow>
     holds C s h \<and> h \<notin> set (lk_on s) \<and> \<not> has_thread C (lc_ex C h) s \<and>
     (\<forall>j \<in> set (lk_on s). lc_ex C j = lc_ex C h \<longrightarrow> (\<exists>n. lk_task s j = T_spin n))"

definition jammed :: "lock_cfg \<Rightarrow> lock_sys \<Rightarrow> bool" where
  "jammed C s \<longleftrightarrow> (\<exists>h. jam C h s)"

lemma occupied_off_other: "lc_ex C i \<noteq> e \<Longrightarrow> occupied C e (get_off i s) = occupied C e s"
  unfolding occupied_off by (simp add: occupied_def)

lemma jam_step:
  assumes "lock_inv C s" "jam C h s" "lock_step C e s = Some s'" "disciplined C [e]"
  shows "jam C h s'"
proof -
  have flag: "lk_flag s" and one: "\<And>i. holds C s i \<Longrightarrow> i = h"
    using assms(1,2) flag_inv_running [of C s h] flag_inv_at_most_one [of C s _ h]
    by (auto simp: lock_inv_def jam_def holds_def)
  note defs = jam_def holds_def has_thread_def lock_defs may_await_def
  show ?thesis
  proof (cases e)
    case (L_suspend i)
    then have "lc_ex C i \<noteq> lc_ex C h" using assms(2,3) by (auto simp: defs split: if_splits)
    with L_suspend assms(2,3) show ?thesis by (auto simp: defs occupied_off_other split: if_splits)
  next
    case (L_finish i)
    then have "lc_ex C i \<noteq> lc_ex C h" "i \<noteq> h" using assms(2,3) by (auto simp: defs split: if_splits)
    with L_finish assms(2,3) show ?thesis by (auto simp: defs occupied_off_other split: if_splits)
  next
    case (L_call i)
    then have "holds C s i" "i \<in> set (lk_on s)" using assms(3,4) by (auto simp: defs disciplined_def split: if_splits)
    with one assms(2) show ?thesis by (auto simp: jam_def)
  next
    case (L_spawn i)
    with assms(2,3) show ?thesis by (fastforce simp: defs split: if_splits)
  next
    case (L_enter i)
    with assms(2,3) show ?thesis by (auto simp: defs split: if_splits)
  next
    case (L_resume i)
    with assms(2,3) show ?thesis by (auto simp: defs split: if_splits)
  next
    case (L_return i)
    with assms(2,3) show ?thesis by (auto simp: defs split: if_splits task_pc.splits)
  qed (use assms(3,4) flag in \<open>auto simp: lock_defs disciplined_def split: task_pc.splits\<close>)
qed

lemma jam_reach: "lock_reach C s s' \<Longrightarrow> lock_inv C s \<and> jam C h s \<Longrightarrow> lock_inv C s' \<and> jam C h s'"
  by (induction rule: lock_reach_induct) (auto intro: lock_inv_step jam_step)


text \<open>Otherwise the lock can become free: the holder goes on, if need be after a task that can await has left its thread, and ends.\<close>

lemma holder_ends:
  assumes "holds C s h" "h \<in> set (lk_on s) \<or> has_thread C (lc_ex C h) s"
  shows "\<exists>t. lock_reach C s t \<and> \<not> lk_flag t \<and> (\<forall>i. i \<noteq> h \<longrightarrow> lk_task t i = lk_task s i)"
proof -
  have ends: "\<exists>u. lock_reach C t u \<and> \<not> lk_flag u \<and> (\<forall>i. i \<noteq> h \<longrightarrow> lk_task u i = lk_task s i)"
    if "lk_task t = lk_task s" "h \<in> set (lk_on t)" for t
    using that assms(1)
    by (intro exI [of _ "(goto h T_done (get_off h t))\<lparr>lk_flag := False\<rparr>"])
      (auto intro!: lock_reach_step [of C "L_finish h"] simp: disciplined_def holds_def lock_defs)
  show ?thesis
  proof (cases "h \<in> set (lk_on s)")
    case False
    then have "lock_reach C s (get_on h s)"
      using assms by (intro lock_reach_step [of C "L_resume h"]) (auto simp: disciplined_def holds_def lock_defs may_await_def)
    with ends [of "get_on h s"] show ?thesis using lock_reach_trans by fastforce
  qed (use ends [of s] in simp)
qed

lemma suspend_gives_thread:
  assumes "lock_inv C s" "j \<in> set (lk_on s)" "\<And>n. lk_task s j \<noteq> T_spin n"
  shows "lock_reach C s (get_off j s)" "has_thread C (lc_ex C j) (get_off j s)"
proof -
  have "may_await (lk_task s j)"
    using assms by (cases "lk_task s j") (auto simp: lock_inv_def thread_inv_def may_await_def)
  then show "lock_reach C s (get_off j s)"
    using assms(2) by (intro lock_reach_step [of C "L_suspend j"]) (simp_all add: disciplined_def lock_defs)
  have "occupied C (lc_ex C j) s \<le> lc_threads C (lc_ex C j)" using assms(1) by (simp add: lock_inv_def thread_inv_def)
  with occupied_get_off_less [OF assms(2), of C] show "has_thread C (lc_ex C j) (get_off j s)" by (simp add: has_thread_def)
qed

lemma lock_gets_free:
  assumes "lock_inv C s" "\<not> jammed C s"
  shows "\<exists>t. lock_reach C s t \<and> \<not> lk_flag t \<and> (\<forall>i. \<not> holds C s i \<longrightarrow> lk_task t i = lk_task s i)"
proof (cases "lk_flag s")
  case True
  with assms(1) obtain h where h: "holds C s h" by (auto simp: lock_inv_def flag_inv_def holders_def)
  show ?thesis
  proof (cases "h \<in> set (lk_on s) \<or> has_thread C (lc_ex C h) s")
    case True
    from holder_ends [OF h this] h show ?thesis by metis
  next
    case False
    with assms(2) h obtain j where j: "j \<in> set (lk_on s)" "lc_ex C j = lc_ex C h" "\<And>n. lk_task s j \<noteq> T_spin n"
      unfolding jammed_def jam_def by blast
    note free = suspend_gives_thread [OF assms(1) j(1,3)]
    have "holds C (get_off j s) h" using h by (simp add: holds_def)
    with holder_ends [of C "get_off j s" h] free(2) j(2) obtain t where
      "lock_reach C (get_off j s) t" "\<not> lk_flag t" "\<forall>i. i \<noteq> h \<longrightarrow> lk_task t i = lk_task s i" by auto
    with h lock_reach_trans [OF free(1)] show ?thesis by metis
  qed
qed (use lock_reach_refl in blast)

text \<open>And with the lock free every executor can get a thread free.\<close>

lemma thread_gets_free:
  assumes "lock_inv C s" "\<not> lk_flag s" "0 < lc_threads C e"
  shows "\<exists>t. lock_reach C s t \<and> \<not> lk_flag t \<and> has_thread C e t \<and>
    (\<forall>i. (\<forall>n. lk_task s i \<noteq> T_spin n) \<longrightarrow> lk_task t i = lk_task s i)"
proof (cases "has_thread C e s")
  case False
  then have "filter (\<lambda>j. lc_ex C j = e) (lk_on s) \<noteq> []" using assms(3) by (auto simp: has_thread_def occupied_def)
  then obtain j where j: "j \<in> set (lk_on s)" "lc_ex C j = e" by (auto simp: filter_empty_conv)
  show ?thesis
  proof (cases "\<exists>n. lk_task s j = T_spin n")
    case True
    with assms(1) have pc: "lk_task s j = T_spin 0" "guarded (lc_kind C j)" by (auto simp: lock_inv_def flag_inv_def)
    define t where "t = (goto j T_run s)\<lparr>lk_flag := True\<rparr>"
    define u where "u = (goto j T_done (get_off j t))\<lparr>lk_flag := False\<rparr>"
    have "lock_reach C s t"
      using pc assms(2) by (intro lock_reach_step [of C "L_lock j"]) (simp_all add: disciplined_def lock_defs t_def)
    moreover have "lock_reach C t u"
      using pc j by (intro lock_reach_step [of C "L_finish j"]) (simp_all add: disciplined_def lock_defs t_def u_def)
    moreover have "has_thread C e u"
    proof -
      have "occupied C e u = occupied C e (get_off j s)" by (intro occupied_cong) (simp add: u_def t_def)
      moreover have "occupied C e s \<le> lc_threads C e" using assms(1) by (simp add: lock_inv_def thread_inv_def)
      ultimately show ?thesis using occupied_get_off_less [OF j(1), of C] j(2) by (simp add: has_thread_def)
    qed
    ultimately show ?thesis
      using pc(1) by (intro exI [of _ u]) (auto simp: u_def t_def intro: lock_reach_trans)
  next
    case False
    with suspend_gives_thread [OF assms(1) j(1)] assms(2) j(2) show ?thesis by (intro exI [of _ "get_off j s"]) auto
  qed
qed (use assms(2) lock_reach_refl in blast)

text \<open>A task that has the free lock and a thread before it goes on.\<close>

lemma enters:
  assumes "\<not> lk_flag s" "has_thread C (lc_ex C i) s" "lk_task s i = T_wait"
  shows "\<exists>t. lock_reach C s t \<and> lk_task t i = T_run"
proof -
  obtain t where "lock_step C (L_enter i) s = Some t" "lk_task t i = T_run"
    using assms by (cases "guarded (lc_kind C i)") (simp_all add: lock_defs)
  then show ?thesis using lock_reach_step [of C "L_enter i"] by (auto simp: disciplined_def)
qed

lemma relocks:
  assumes "\<not> lk_flag s" "lk_task s i = T_spin 0"
  shows "\<exists>t. lock_reach C s t \<and> lk_task t i = T_run"
proof -
  obtain t where "lock_step C (L_lock i) s = Some t" "lk_task t i = T_run" using assms by (simp add: lock_defs)
  then show ?thesis using lock_reach_step [of C "L_lock i"] by (auto simp: disciplined_def)
qed

lemma comes_back:
  assumes "\<not> lk_flag s" "has_thread C (lc_ex C i) s" "lk_task s i = T_call 0"
  shows "\<exists>t. lock_reach C s t \<and> lk_task t i = T_run"
proof -
  have on: "\<exists>u. lock_reach C t u \<and> lk_task u i = T_run"
    if "i \<in> set (lk_on t)" "\<not> lk_flag t" "lk_task t i = T_call 0" for t
  proof -
    have "lock_reach C t (goto i (T_spin 0) t)"
      using that by (intro lock_reach_step [of C "L_return i"]) (simp_all add: disciplined_def lock_defs)
    then show ?thesis using relocks [of "goto i (T_spin 0) t" i C] that(2) lock_reach_trans by fastforce
  qed
  show ?thesis
  proof (cases "i \<in> set (lk_on s)")
    case False
    then have "lock_reach C s (get_on i s)"
      using assms by (intro lock_reach_step [of C "L_resume i"]) (simp_all add: disciplined_def lock_defs may_await_def)
    with on [of "get_on i s"] assms show ?thesis using lock_reach_trans by fastforce
  qed (use on assms in simp)
qed

lemma waiting_goes_on:
  assumes "lock_inv C s" "\<not> jammed C s" "0 < lc_threads C (lc_ex C i)" "lk_task s i \<notin> {T_none, T_run, T_done}"
  shows "\<exists>s'. lock_reach C s s' \<and> lk_task s' i = T_run"
proof -
  from lock_gets_free [OF assms(1,2)] obtain t where
    t: "lock_reach C s t" "\<not> lk_flag t" "lk_task t i = lk_task s i" using assms(4) by (auto simp: holds_def)
  note inv = lock_reach_inv [OF t(1) assms(1)]
  from thread_gets_free [OF inv t(2) assms(3)] obtain u where
    u: "lock_reach C t u" "\<not> lk_flag u" "has_thread C (lc_ex C i) u" "\<forall>i. (\<forall>n. lk_task t i \<noteq> T_spin n) \<longrightarrow> lk_task u i = lk_task t i"
    by blast
  have "\<exists>s'. lock_reach C t s' \<and> lk_task s' i = T_run"
  proof (cases "lk_task t i")
    case T_wait
    with u(4) have "lk_task u i = T_wait" by simp
    from enters [OF u(2,3) this] lock_reach_trans [OF u(1)] show ?thesis by blast
  next
    case (T_call n)
    with u(4) inv have "lk_task u i = T_call 0" by (auto simp: lock_inv_def flag_inv_def)
    from comes_back [OF u(2,3) this] lock_reach_trans [OF u(1)] show ?thesis by blast
  next
    case (T_spin n)
    with inv have "lk_task t i = T_spin 0" by (auto simp: lock_inv_def flag_inv_def)
    from relocks [OF t(2) this] show ?thesis by blast
  qed (use assms(4) t(3) in simp_all)
  with lock_reach_trans [OF t(1)] show ?thesis by blast
qed


section \<open>Properties\<close>

text \<open>A \<open>finally\<close> action runs exactly once, however often the object that carries it is moved.\<close>

theorem finally_runs_once: "fold final_destroy (final_moves n final_new) 0 = 1"
proof -
  have "fold final_destroy (final_moves n \<lparr>fa_invoke = True\<rparr>) c = c + 1" for c
    by (induction n arbitrary: c) (simp_all add: final_move_def final_destroy_def)
  then show ?thesis by (simp add: final_new_def)
qed

text \<open>C9. In a run in which only tasks of the lock use \<open>ctx_call\<close>, \<open>ctx_call_name\<close> and \<open>sync_call\<close> (so no function registered with \<open>muli = true\<close> does) and no task given to
  \<open>sync_call\<close> uses them again: at most one of the tasks that take the context lock is in its user code. An await of another kind does not release the lock, so a second \<open>on_msg\<close>,
  registered function or task starts only when the first has ended or is inside one of these calls, whatever the executors and however many threads they have. Without the conditions it fails
  (\<open>muli_call_breaks_lock\<close>, \<open>nested_call_never_returns\<close>).\<close>

theorem ctx_lock_exclusion:
  assumes "lock_trace C es s" "disciplined C es" "holds C s i" "holds C s j"
  shows "i = j"
  using flag_inv_at_most_one [OF _ assms(3,4)] lock_inv_trace [OF assms(1,2)] by (simp add: lock_inv_def)

text \<open>C25. Who waits for the lock, and for how long. In a run in which only tasks of the lock use the calls that release it, and none of them inside another: a task that waits in \<open>coScopedLock\<close>, is inside
  such a call or waits in the \<open>lock()\<close> of its \<open>finally\<close>, can still get into its user code exactly if the state is not jammed; it is jammed if the task that holds the lock is suspended
  and every thread of its executor waits in the \<open>lock()\<close> of a \<open>finally\<close>. So the lock is never lost; what remains is this deadlock, from which no run leads out, since \<open>lock()\<close> keeps the thread
  that the holder needs. (A spin lock is not fair: that a task can go on does not say that it is the next one.)\<close>

theorem ctx_lock_progress:
  assumes "lock_trace C es s" "disciplined C es" "0 < lc_threads C (lc_ex C i)"
    and "guarded (lc_kind C i)" "lk_task s i \<notin> {T_none, T_run, T_done}"
  shows "(\<exists>fs s'. disciplined C fs \<and> lock_run C fs s = Some s' \<and> lk_task s' i = T_run) \<longleftrightarrow> \<not> jammed C s"
proof -
  note inv = lock_inv_trace [OF assms(1,2)]
  have "\<not> jammed C s" if "lock_reach C s s'" "lk_task s' i = T_run" for s'
  proof
    assume "jammed C s"
    then obtain h where h: "jam C h s" unfolding jammed_def by blast
    then have "i \<noteq> h" using assms(5) by (auto simp: jam_def holds_def)
    moreover have "holds C s' h" "flag_inv C s'" using jam_reach [OF that(1)] inv h by (auto simp: jam_def lock_inv_def)
    ultimately show False using flag_inv_at_most_one that(2) assms(4) unfolding holds_def by blast
  qed
  with waiting_goes_on [OF inv _ assms(3,5)] show ?thesis unfolding lock_reach_def by blast
qed

text \<open>The deadlock can be reached with two message coroutines on one thread: the first waits in \<open>ctx_call\<close>, the second has the lock and awaits something else, the call of
  the first comes back.\<close>

definition one_thread :: lock_cfg where
  "one_thread = \<lparr>lc_kind = (\<lambda>_. On_msg), lc_ex = (\<lambda>_. 0), lc_threads = (\<lambda>_. 1)\<rparr>"

definition jam_events :: "lock_event list" where
  "jam_events = [L_spawn 0, L_spawn 1, L_enter 0, L_call 0, L_suspend 0, L_enter 1, L_suspend 1, L_resume 0, L_return 0]"

lemmas lock_eval = lock_defs lock_init_def goto_def get_on_def get_off_def has_thread_def occupied_def guarded_def holds_def may_await_def

theorem finally_lock_jams:
  "\<exists>s. lock_trace one_thread jam_events s \<and> disciplined one_thread jam_events \<and> jammed one_thread s"
  unfolding lock_trace_iff_run jammed_def
  by (auto simp: one_thread_def jam_events_def lock_eval disciplined_def jam_def intro!: exI [of _ 1])

text \<open>The tasks that have used a call.\<close>

lemma callers:
  assumes "lock_trace C es s" "lk_task s i = T_call n \<or> lk_task s i = T_spin n" "disciplined C es"
  shows "L_call i \<in> set es"
  using assms
proof (induction arbitrary: n rule: lock_trace.induct)
  case (step es s e s')
  have ih: "lk_task s i = T_call m \<or> lk_task s i = T_spin m \<Longrightarrow> L_call i \<in> set es" for m using step.IH step.prems(2) by simp
  show ?case
    using step.hyps(2) step.prems ih
    by (cases e) (auto simp: lock_defs disciplined_def split: if_splits task_pc.splits nat.splits)
qed (simp add: lock_init_def)

text \<open>It cannot happen where every executor has more threads than tasks that use a call.\<close>

theorem few_callers_no_jam:
  assumes "lock_trace C es s" "disciplined C es" "\<And>e. card {i. lc_ex C i = e \<and> L_call i \<in> set es} < lc_threads C e"
  shows "\<not> jammed C s"
proof
  assume "jammed C s"
  then obtain h where h: "jam C h s" unfolding jammed_def by blast
  let ?on = "filter (\<lambda>j. lc_ex C j = lc_ex C h) (lk_on s)"
  have "set ?on \<subseteq> {i. lc_ex C i = lc_ex C h \<and> L_call i \<in> set es}"
    using h callers [OF assms(1) _ assms(2)] by (fastforce simp: jam_def)
  moreover have "finite {i. lc_ex C i = lc_ex C h \<and> L_call i \<in> set es}"
    by (rule finite_subset [of _ "(\<lambda>e. case e of L_call i \<Rightarrow> i | _ \<Rightarrow> 0) ` set es"]) force+
  ultimately have "card (set ?on) \<le> card {i. lc_ex C i = lc_ex C h \<and> L_call i \<in> set es}" by (rule card_mono [rotated])
  moreover have "card (set ?on) = occupied C (lc_ex C h) s"
    using lock_inv_trace [OF assms(1,2)] distinct_card [of ?on]
    by (simp add: lock_inv_def thread_inv_def occupied_def)
  ultimately show False using h assms(3) [of "lc_ex C h"] by (simp add: jam_def has_thread_def)
qed


text \<open>A task in \<open>sync_call\<close> whose argument uses \<open>ctx_call\<close>: the inner \<open>finally\<close> takes the lock, which the task does not hold then, and the outer one waits for it, on the thread, for ever.\<close>

definition own_lock :: "lock_cfg \<Rightarrow> nat \<Rightarrow> lock_sys \<Rightarrow> bool" where
  "own_lock C i s \<longleftrightarrow>
     lk_flag s \<and> lk_task s i = T_spin 0 \<and>
     (\<forall>j. j \<noteq> i \<longrightarrow> \<not> holds C s j \<and> (\<forall>n. lk_task s j \<noteq> T_call n \<and> lk_task s j \<noteq> T_spin n))"

lemma own_lock_step: "own_lock C i s \<Longrightarrow> lock_step C e s = Some s' \<Longrightarrow> disciplined C [e] \<Longrightarrow> own_lock C i s'"
  by (cases e) (auto simp: own_lock_def holds_def lock_defs disciplined_def may_await_def split: if_splits task_pc.splits,
      (metis task_pc.distinct)+)

theorem nested_call_never_returns:
  assumes "guarded (lc_kind C i)" "0 < lc_threads C (lc_ex C i)"
  shows "\<exists>s. lock_trace C [L_spawn i, L_enter i, L_call i, L_nested i, L_return i, L_lock i, L_return i] s \<and>
    (\<forall>s'. lock_reach C s s' \<longrightarrow> lk_task s' i = T_spin 0 \<and> lk_flag s')"
proof -
  obtain s where "lock_trace C [L_spawn i, L_enter i, L_call i, L_nested i, L_return i, L_lock i, L_return i] s" "own_lock C i s"
    unfolding lock_trace_iff_run using assms
    by (simp add: lock_defs lock_init_def goto_def get_on_def has_thread_def occupied_def own_lock_def holds_def)
  moreover have "own_lock C i s'" if "lock_reach C s s'" for s'
    using that \<open>own_lock C i s\<close> by (induction rule: lock_reach_induct) (auto intro: own_lock_step)
  ultimately show ?thesis by (auto simp: own_lock_def)
qed

text \<open>Task 0 is a function registered with \<open>muli = true\<close>, the others are message coroutines; any executors, each with at least one thread.\<close>

definition muli_cfg :: "(nat \<Rightarrow> nat) \<Rightarrow> (nat \<Rightarrow> nat) \<Rightarrow> lock_cfg" where
  "muli_cfg ex n = \<lparr>lc_kind = (\<lambda>i. if i = 0 then Rpc_func True else On_msg), lc_ex = ex, lc_threads = (\<lambda>e. Suc (n e))\<rparr>"

text \<open>C36. A function registered with \<open>muli = true\<close> that uses \<open>ctx_call\<close> breaks the lock, on any executors: it unlocks
  what another task holds, so two \<open>on_msg\<close> coroutines run at once; and on its own it leaves the
  lock set when it has finished, so that no other task of the context ever starts.\<close>

theorem muli_call_breaks_lock:
  "(\<exists>es s. lock_trace (muli_cfg ex n) es s \<and> holds (muli_cfg ex n) s 1 \<and> holds (muli_cfg ex n) s 2) \<and>
   (\<exists>es s. lock_trace (muli_cfg ex n) es s \<and> lk_task s 0 = T_done \<and>
      lk_task s 1 = T_wait \<and> lk_flag s \<and> \<not> (\<exists>i m. lk_task s i = T_run \<or> lk_task s i = T_call m \<or> lk_task s i = T_spin m))"
proof
  note defs = lock_eval muli_cfg_def
  show "\<exists>es s. lock_trace (muli_cfg ex n) es s \<and> holds (muli_cfg ex n) s 1 \<and> holds (muli_cfg ex n) s 2"
    unfolding lock_trace_iff_run
    by (rule exI [of _ "[L_spawn 0, L_spawn 1, L_spawn 2, L_enter 1, L_suspend 1, L_enter 0, L_call 0, L_suspend 0, L_enter 2]"])
      (simp add: defs)
  show "\<exists>es s. lock_trace (muli_cfg ex n) es s \<and> lk_task s 0 = T_done \<and>
      lk_task s 1 = T_wait \<and> lk_flag s \<and> \<not> (\<exists>i m. lk_task s i = T_run \<or> lk_task s i = T_call m \<or> lk_task s i = T_spin m)"
    unfolding lock_trace_iff_run
    by (rule exI [of _ "[L_spawn 0, L_spawn 1, L_enter 0, L_call 0, L_return 0, L_lock 0, L_finish 0]"]) (simp add: defs)
qed

text \<open>A holder that is suspended in an await keeps the second coroutine out.\<close>

theorem ctx_lock_exclusion_witness:
  "\<exists>s. lock_trace one_thread [L_spawn 0, L_spawn 1, L_enter 0, L_suspend 0] s \<and> holds one_thread s 0 \<and> \<not> holds one_thread s 1"
proof -
  let ?es = "[L_spawn 0, L_spawn 1, L_enter 0, L_suspend 0]"
  obtain s where s: "lock_trace one_thread ?es s" "holds one_thread s 0"
    unfolding lock_trace_iff_run by (simp add: one_thread_def lock_eval)
  have "disciplined one_thread ?es" by (simp add: disciplined_def)
  from ctx_lock_exclusion [OF s(1) this s(2), of 1] s show ?thesis by auto
qed

theorem ctx_lock_progress_witness:
  "(\<exists>s. lock_trace one_thread (butlast jam_events) s \<and>
      (\<exists>fs s'. disciplined one_thread fs \<and> lock_run one_thread fs s = Some s' \<and> lk_task s' 0 = T_run)) \<and>
   (\<exists>s. lock_trace one_thread jam_events s \<and>
      \<not> (\<exists>fs s'. disciplined one_thread fs \<and> lock_run one_thread fs s = Some s' \<and> lk_task s' 0 = T_run))"
proof
  note defs = one_thread_def jam_events_def lock_eval
  have d: "disciplined one_thread jam_events" "disciplined one_thread (butlast jam_events)"
    by (simp_all add: defs disciplined_def)
  have C: "0 < lc_threads one_thread (lc_ex one_thread 0)" "guarded (lc_kind one_thread 0)" by (simp_all add: defs)
  obtain s where s: "lock_trace one_thread (butlast jam_events) s" "lk_task s 0 = T_call 0" "\<not> jammed one_thread s"
    unfolding lock_trace_iff_run jammed_def by (simp add: defs jam_def)
  have "lk_task s 0 \<notin> {T_none, T_run, T_done}" using s(2) by simp
  from ctx_lock_progress [OF s(1) d(2) C this] s show "\<exists>s. lock_trace one_thread (butlast jam_events) s \<and>
      (\<exists>fs s'. disciplined one_thread fs \<and> lock_run one_thread fs s = Some s' \<and> lk_task s' 0 = T_run)" by blast
  obtain t where t: "lock_trace one_thread jam_events t" "lk_task t 0 = T_spin 0" "jam one_thread 1 t"
    unfolding lock_trace_iff_run by (simp add: defs jam_def)
  have "lk_task t 0 \<notin> {T_none, T_run, T_done}" "jammed one_thread t" using t unfolding jammed_def by auto
  with ctx_lock_progress [OF t(1) d(1) C] t(1) show "\<exists>s. lock_trace one_thread jam_events s \<and>
      \<not> (\<exists>fs s'. disciplined one_thread fs \<and> lock_run one_thread fs s = Some s' \<and> lk_task s' 0 = T_run)" by blast
qed

end
