(* ===== verification/Cqy_Ctx_Life.thy ===== *)
theory Cqy_Ctx_Life
  imports Cqy_Ctx_Lock
begin

text \<open>
  How long a context lives. A context is owned by shared pointers: the local variable of \<open>create_ctx\<close>, the map of the registry, the scheduled
  lambda and then the frame of \<open>wait_msg_spawn\<close>, the callback of every started task, and the local variables of the functions that look it up
  (\<open>node_mq_push\<close>, \<open>rpc_on_mq\<close>, \<open>rpc_ctx_call\<close>, \<open>stop_ctx\<close>, the end of \<open>start\<close>). The last one to go destroys it. The steps of all of these
  are interleaved freely; the lock of the context, which restricts them further, is the subject of \<open>Cqy_Ctx_Lock\<close>.

  A coroutine of async\_simple starts when its executor runs it, and its frame and the callback of \<open>start\<close> live until it is done.
\<close>

section \<open>State\<close>

text \<open>\<open>create_ctx\<close> in \<open>on_init\<close>, after \<open>add_ctx\<close>, after \<open>schedule\<close>, returned.\<close>

datatype create_pc = C_init | C_added | C_scheduled | C_over

text \<open>\<open>wait_msg_spawn\<close>: not there, in the lambda that will start it, its frame exists, done.\<close>

datatype loop_pc = Loop_none | Loop_sched | Loop_run | Loop_over

text \<open>\<open>lf_count\<close> is the use count of the shared pointers, \<open>lf_dead\<close> counts the calls of the destructor. A look-up that holds its result is
  \<open>lf_visit\<close>.\<close>

record life =
  lf_count :: nat
  lf_dead :: nat
  lf_create :: create_pc
  lf_reg :: bool
  lf_stop :: bool
  lf_loop :: loop_pc
  lf_task :: "nat \<Rightarrow> task_pc"
  lf_visit :: "nat \<Rightarrow> bool"

definition life_init :: life where
  "life_init =
     \<lparr>lf_count = 1, lf_dead = 0, lf_create = C_init, lf_reg = False, lf_stop = False, lf_loop = Loop_none,
      lf_task = (\<lambda>_. T_none), lf_visit = (\<lambda>_. False)\<rparr>"

text \<open>What may go wrong: the destroyed context is used, or the destroyed closure of \<open>wrapper_on_msg\<close>.\<close>

datatype life_err = Dead_ctx | Dead_closure

section \<open>Shared pointers\<close>

text \<open>\<open>~cqy_ctx\<close> calls \<open>on_stop\<close>, which is the empty function of the base class there, and frees \<open>s_\<close>.\<close>

definition ctx_destroy :: "life \<Rightarrow> life" where
  "ctx_destroy s = s\<lparr>lf_dead := Suc (lf_dead s)\<rparr>"

definition ptr_copy :: "life \<Rightarrow> life" where
  "ptr_copy s = s\<lparr>lf_count := Suc (lf_count s)\<rparr>"

definition ptr_drop :: "life \<Rightarrow> life" where
  "ptr_drop s = (let s' = s\<lparr>lf_count := lf_count s - 1\<rparr> in if lf_count s' = 0 then ctx_destroy s' else s')"

text \<open>A step that reads a member of the context.\<close>

definition with_ctx :: "life \<Rightarrow> life \<Rightarrow> life_err + life" where
  "with_ctx s s' = (if lf_dead s > 0 then Inl Dead_ctx else Inr s')"

section \<open>Steps\<close>

text \<open>\<open>create_ctx\<close> after \<open>on_init\<close>: on failure the local variable goes; otherwise \<open>add_ctx\<close> and \<open>schedule\<close> copy it before it goes.\<close>

definition create_init :: "bool \<Rightarrow> life \<Rightarrow> (life_err + life) option" where
  "create_init ok s =
     (if lf_create s \<noteq> C_init then None
      else if ok then Some (with_ctx s (ptr_copy (s\<lparr>lf_create := C_added, lf_reg := True\<rparr>)))
      else Some (Inr (ptr_drop (s\<lparr>lf_create := C_over\<rparr>))))"

definition create_schedule :: "life \<Rightarrow> (life_err + life) option" where
  "create_schedule s =
     (if lf_create s \<noteq> C_added then None
      else Some (Inr (ptr_copy (s\<lparr>lf_create := C_scheduled, lf_loop := Loop_sched\<rparr>))))"

definition create_return :: "life \<Rightarrow> (life_err + life) option" where
  "create_return s =
     (if lf_create s \<noteq> C_scheduled then None else Some (Inr (ptr_drop (s\<lparr>lf_create := C_over\<rparr>))))"

text \<open>The executor runs the lambda: the parameter \<open>self\<close> of \<open>wait_msg_spawn\<close> is a copy, then the lambda goes.\<close>

definition spawn_loop :: "life \<Rightarrow> (life_err + life) option" where
  "spawn_loop s =
     (if lf_loop s \<noteq> Loop_sched then None
      else Some (with_ctx s (ptr_drop (ptr_copy (s\<lparr>lf_loop := Loop_run\<rparr>)))))"

text \<open>A task gets a number that is not in use; the callback of \<open>start\<close> has a copy of the pointer.\<close>

definition start_task :: "nat \<Rightarrow> life \<Rightarrow> life_err + life" where
  "start_task i s = with_ctx s (ptr_copy (s\<lparr>lf_task := (lf_task s)(i := T_wait)\<rparr>))"

text \<open>A turn of the loop with a message, and its end after a shutdown, when the frame goes with the closure \<open>wrapper_on_msg\<close> and \<open>self\<close>.\<close>

definition loop_pop :: "(nat \<Rightarrow> task_kind) \<Rightarrow> nat \<Rightarrow> life \<Rightarrow> (life_err + life) option" where
  "loop_pop kinds i s =
     (if lf_loop s = Loop_run \<and> lf_task s i = T_none \<and> kinds i = On_msg then Some (start_task i s) else None)"

definition loop_end :: "life \<Rightarrow> (life_err + life) option" where
  "loop_end s =
     (if lf_loop s = Loop_run \<and> lf_stop s then Some (with_ctx s (ptr_drop (s\<lparr>lf_loop := Loop_over\<rparr>))) else None)"

text \<open>\<open>async_call\<close>, in \<open>on_init\<close> or in a task that runs.\<close>

definition life_async :: "(nat \<Rightarrow> task_kind) \<Rightarrow> nat option \<Rightarrow> nat \<Rightarrow> life \<Rightarrow> (life_err + life) option" where
  "life_async kinds by i s =
     (if (case by of None \<Rightarrow> lf_create s = C_init | Some j \<Rightarrow> lf_task s j = T_run) \<and> lf_task s i = T_none \<and> kinds i = Async_task
      then Some (start_task i s) else None)"

text \<open>\<open>rpc_ctx_call\<close> looks the context up and awaits the registered function; its frame has the pointer.\<close>

definition life_rpc :: "(nat \<Rightarrow> task_kind) \<Rightarrow> nat \<Rightarrow> life \<Rightarrow> (life_err + life) option" where
  "life_rpc kinds i s =
     (if lf_reg s \<and> lf_task s i = T_none \<and> (\<exists>muli. kinds i = Rpc_func muli) then Some (start_task i s) else None)"

text \<open>What a task reads before it runs: \<open>ctx_lock()\<close> when it begins, \<open>on_msg\<close> when it has the lock. The coroutine of a message is the
  call operator of the closure and finds the context through it.\<close>

definition task_reads :: "(nat \<Rightarrow> task_kind) \<Rightarrow> nat \<Rightarrow> life \<Rightarrow> life \<Rightarrow> life_err + life" where
  "task_reads kinds i s s' = (if kinds i = On_msg \<and> lf_loop s \<noteq> Loop_run then Inl Dead_closure else with_ctx s s')"

definition life_begin :: "(nat \<Rightarrow> task_kind) \<Rightarrow> nat \<Rightarrow> life \<Rightarrow> (life_err + life) option" where
  "life_begin kinds i s = (if lf_task s i = T_wait then Some (task_reads kinds i s s) else None)"

definition life_enter :: "(nat \<Rightarrow> task_kind) \<Rightarrow> nat \<Rightarrow> life \<Rightarrow> (life_err + life) option" where
  "life_enter kinds i s =
     (if lf_task s i = T_wait then Some (task_reads kinds i s (s\<lparr>lf_task := (lf_task s)(i := T_run)\<rparr>)) else None)"

text \<open>A task inside \<open>ctx_call\<close> or \<open>sync_call\<close>, which read \<open>ctx_lock()\<close> before and after (a call inside another reads the same object and owns nothing more, so one level is
  enough here), and the end of a task: its guard unlocks, then the
  callback or the frame that has the pointer goes.\<close>

definition life_move :: "task_pc \<Rightarrow> task_pc \<Rightarrow> nat \<Rightarrow> life \<Rightarrow> (life_err + life) option" where
  "life_move old new i s =
     (if lf_task s i = old then Some (with_ctx s (s\<lparr>lf_task := (lf_task s)(i := new)\<rparr>)) else None)"

definition life_finish :: "nat \<Rightarrow> life \<Rightarrow> (life_err + life) option" where
  "life_finish i s =
     (if lf_task s i = T_run then Some (with_ctx s (ptr_drop (s\<lparr>lf_task := (lf_task s)(i := T_done)\<rparr>))) else None)"

text \<open>\<open>get_ctx\<close> by a function that then pushes a message, removes the context from the registry or shuts it down, and returns.\<close>

definition visit_get :: "nat \<Rightarrow> life \<Rightarrow> (life_err + life) option" where
  "visit_get j s = (if lf_reg s \<and> \<not> lf_visit s j then Some (Inr (ptr_copy (s\<lparr>lf_visit := (lf_visit s)(j := True)\<rparr>))) else None)"

definition visit_push :: "nat \<Rightarrow> life \<Rightarrow> (life_err + life) option" where
  "visit_push j s = (if lf_visit s j then Some (with_ctx s s) else None)"

definition visit_del :: "nat \<Rightarrow> life \<Rightarrow> (life_err + life) option" where
  "visit_del j s =
     (if \<not> lf_visit s j then None
      else if lf_reg s then Some (Inr (ptr_drop (s\<lparr>lf_reg := False\<rparr>)))
      else Some (Inr s))"

definition visit_shutdown :: "nat \<Rightarrow> life \<Rightarrow> (life_err + life) option" where
  "visit_shutdown j s = (if lf_visit s j then Some (with_ctx s (s\<lparr>lf_stop := True\<rparr>)) else None)"

definition visit_leave :: "nat \<Rightarrow> life \<Rightarrow> (life_err + life) option" where
  "visit_leave j s = (if lf_visit s j then Some (Inr (ptr_drop (s\<lparr>lf_visit := (lf_visit s)(j := False)\<rparr>))) else None)"

text \<open>\<open>~cqy_ctx_mgr\<close>, with the application.\<close>

definition registry_gone :: "life \<Rightarrow> (life_err + life) option" where
  "registry_gone s = (if lf_reg s then Some (Inr (ptr_drop (s\<lparr>lf_reg := False\<rparr>))) else None)"

datatype life_event =
    E_init bool | E_schedule | E_return | E_spawn | E_pop nat | E_loop_end | E_async "nat option" nat | E_rpc nat
  | E_begin nat | E_enter nat | E_call nat | E_back nat | E_finish nat
  | E_get nat | E_push nat | E_del nat | E_shutdown nat | E_leave nat | E_registry_gone

fun life_step :: "(nat \<Rightarrow> task_kind) \<Rightarrow> life_event \<Rightarrow> life \<Rightarrow> (life_err + life) option" where
  "life_step kinds (E_init ok) s = create_init ok s"
| "life_step kinds E_schedule s = create_schedule s"
| "life_step kinds E_return s = create_return s"
| "life_step kinds E_spawn s = spawn_loop s"
| "life_step kinds (E_pop i) s = loop_pop kinds i s"
| "life_step kinds E_loop_end s = loop_end s"
| "life_step kinds (E_async by i) s = life_async kinds by i s"
| "life_step kinds (E_rpc i) s = life_rpc kinds i s"
| "life_step kinds (E_begin i) s = life_begin kinds i s"
| "life_step kinds (E_enter i) s = life_enter kinds i s"
| "life_step kinds (E_call i) s = life_move T_run (T_call 0) i s"
| "life_step kinds (E_back i) s = life_move (T_call 0) T_run i s"
| "life_step kinds (E_finish i) s = life_finish i s"
| "life_step kinds (E_get j) s = visit_get j s"
| "life_step kinds (E_push j) s = visit_push j s"
| "life_step kinds (E_del j) s = visit_del j s"
| "life_step kinds (E_shutdown j) s = visit_shutdown j s"
| "life_step kinds (E_leave j) s = visit_leave j s"
| "life_step kinds E_registry_gone s = registry_gone s"

text \<open>A sequence of steps, up to the first error; \<open>None\<close> if it is no run.\<close>

fun life_run :: "(nat \<Rightarrow> task_kind) \<Rightarrow> life_event list \<Rightarrow> life \<Rightarrow> (life_err + life) option" where
  "life_run kinds [] s = Some (Inr s)"
| "life_run kinds (e # es) s =
     (case life_step kinds e s of None \<Rightarrow> None | Some (Inl err) \<Rightarrow> Some (Inl err) | Some (Inr s') \<Rightarrow> life_run kinds es s')"

section \<open>Counting owners\<close>

text \<open>Shared pointers in general: an object with a use count and a destructor, and who owns it. Taking and giving back a share keeps the count right,
  and the destructor has run, once, when nobody owns the object.\<close>

locale ref_counted =
  fixes count :: "'s \<Rightarrow> nat" and dead :: "'s \<Rightarrow> nat" and owners :: "'s \<Rightarrow> 'o set"
    and copy :: "'s \<Rightarrow> 's" and drop_ptr :: "'s \<Rightarrow> 's"
  assumes count_copy: "count (copy s) = Suc (count s)"
    and dead_copy: "dead (copy s) = dead s"
    and owners_copy: "owners (copy s) = owners s"
    and count_drop: "count (drop_ptr s) = count s - 1"
    and dead_drop: "dead (drop_ptr s) = (if count s \<le> 1 then Suc (dead s) else dead s)"
    and owners_drop: "owners (drop_ptr s) = owners s"
begin

definition counted :: "'s \<Rightarrow> bool" where
  "counted s \<longleftrightarrow> finite (owners s) \<and> count s = card (owners s) \<and> dead s = (if owners s = {} then 1 else 0)"

lemma counted_copy:
  assumes "counted s" "owners s \<noteq> {}" "x \<notin> owners s"
    and "owners s' = insert x (owners s)" "count s' = count s" "dead s' = dead s"
  shows "counted (copy s')"
  using assms by (simp add: counted_def count_copy dead_copy owners_copy)

lemma counted_drop:
  assumes "counted s" "x \<in> owners s"
    and "owners s' = owners s - {x}" "count s' = count s" "dead s' = dead s"
  shows "counted (drop_ptr s')"
proof -
  have "card (owners s) \<le> 1 \<longleftrightarrow> owners s - {x} = {}"
    using assms(1,2) card_le_Suc0_iff_eq [of "owners s"] by (auto simp: counted_def)
  with assms show ?thesis
    by (auto simp: counted_def count_drop dead_drop owners_drop)
qed

lemma counted_move:
  assumes "counted s" "owners s' = owners s" "count s' = count s" "dead s' = dead s"
  shows "counted s'"
  using assms by (simp add: counted_def)

lemma counted_alive: "counted s \<Longrightarrow> x \<in> owners s \<Longrightarrow> dead s = 0"
  by (auto simp: counted_def)

end

datatype owner = O_create | O_registry | O_loop | O_task nat | O_visit nat

fun owns :: "life \<Rightarrow> owner \<Rightarrow> bool" where
  "owns s O_create \<longleftrightarrow> lf_create s \<noteq> C_over"
| "owns s O_registry \<longleftrightarrow> lf_reg s"
| "owns s O_loop \<longleftrightarrow> lf_loop s = Loop_sched \<or> lf_loop s = Loop_run"
| "owns s (O_task i) \<longleftrightarrow> lf_task s i \<noteq> T_none \<and> lf_task s i \<noteq> T_done"
| "owns s (O_visit j) \<longleftrightarrow> lf_visit s j"

definition owners :: "life \<Rightarrow> owner set" where
  "owners s = {x. owns s x}"

lemma owns_counts [simp]:
  "owns (ptr_copy s) x = owns s x" "owns (ptr_drop s) x = owns s x"
  by (cases x; simp add: ptr_copy_def ptr_drop_def ctx_destroy_def Let_def)+

interpretation ptr: ref_counted lf_count lf_dead owners ptr_copy ptr_drop
  by unfold_locales (simp_all add: owners_def, simp_all add: ptr_copy_def ptr_drop_def ctx_destroy_def Let_def)

section \<open>Invariant\<close>

text \<open>The count is right, and the loop starts only when the context has been added.\<close>

definition life_inv :: "life \<Rightarrow> bool" where
  "life_inv s \<longleftrightarrow>
     ptr.counted s \<and> (lf_create s = C_init \<or> lf_create s = C_added \<longrightarrow> lf_loop s = Loop_none) \<and> (lf_create s = C_init \<longrightarrow> \<not> lf_reg s)"

lemma life_init_inv: "life_inv life_init"
proof -
  have "owners life_init = {O_create}" by (auto simp: owners_def life_init_def elim: owns.elims)
  then show ?thesis by (simp add: life_inv_def ptr.counted_def) (simp add: life_init_def)
qed

lemma ptr_fields [simp]:
  "lf_create (ptr_copy s) = lf_create s" "lf_loop (ptr_copy s) = lf_loop s" "lf_reg (ptr_copy s) = lf_reg s" "lf_task (ptr_copy s) = lf_task s"
  "lf_create (ptr_drop s) = lf_create s" "lf_loop (ptr_drop s) = lf_loop s" "lf_reg (ptr_drop s) = lf_reg s" "lf_task (ptr_drop s) = lf_task s"
  by (simp_all add: ptr_copy_def ptr_drop_def ctx_destroy_def Let_def)

text \<open>One lemma for each way a step changes the owners: an owner comes, goes, or the owners stay.\<close>

lemma owners_eqI: "(\<And>x. owns s' x \<longleftrightarrow> owns s x \<or> x = y) \<Longrightarrow> owners s' = insert y (owners s)"
  "(\<And>x. owns s' x \<longleftrightarrow> owns s x \<and> x \<noteq> y) \<Longrightarrow> owners s' = owners s - {y}"
  "(\<And>x. owns s' x \<longleftrightarrow> owns s x) \<Longrightarrow> owners s' = owners s"
  by (auto simp: owners_def)

lemma life_alive: "life_inv s \<Longrightarrow> owns s x \<Longrightarrow> lf_dead s = 0"
  using ptr.counted_alive [of s x] by (simp add: life_inv_def owners_def)

lemma life_copy:
  assumes "life_inv s" "owns s z" "\<not> owns s y" "\<And>x. owns s' x \<longleftrightarrow> owns s x \<or> x = y" "lf_count s' = lf_count s" "lf_dead s' = lf_dead s"
    and "lf_create s' = C_init \<or> lf_create s' = C_added \<Longrightarrow> lf_loop s' = Loop_none" "lf_create s' = C_init \<Longrightarrow> \<not> lf_reg s'"
  shows "life_inv (ptr_copy s')"
  using assms ptr.counted_copy [of s y s'] owners_eqI(1) [of s' s y] by (auto simp: life_inv_def owners_def)

lemma life_drop:
  assumes "life_inv s" "owns s y" "\<And>x. owns s' x \<longleftrightarrow> owns s x \<and> x \<noteq> y" "lf_count s' = lf_count s" "lf_dead s' = lf_dead s"
    and "lf_create s' = C_init \<or> lf_create s' = C_added \<Longrightarrow> lf_loop s' = Loop_none" "lf_create s' = C_init \<Longrightarrow> \<not> lf_reg s'"
  shows "life_inv (ptr_drop s')"
  using assms ptr.counted_drop [of s y s'] owners_eqI(2) [of s' s y] by (auto simp: life_inv_def owners_def)

lemma life_keep:
  assumes "life_inv s" "\<And>x. owns s' x \<longleftrightarrow> owns s x" "lf_count s' = lf_count s" "lf_dead s' = lf_dead s"
    and "lf_create s' = C_init \<or> lf_create s' = C_added \<Longrightarrow> lf_loop s' = Loop_none" "lf_create s' = C_init \<Longrightarrow> \<not> lf_reg s'"
  shows "life_inv s'"
  using assms ptr.counted_move [of s s'] owners_eqI(3) [of s' s] by (auto simp: life_inv_def)

lemma with_ctx_alive: "life_inv s \<Longrightarrow> owns s x \<Longrightarrow> with_ctx s s' = Inr s'"
  using life_alive [of s x] by (simp add: with_ctx_def)

section \<open>Every step keeps the invariant\<close>

text \<open>The outcome of a step that is neither a use of a destroyed context nor a wrong count.\<close>

definition life_ok :: "life_err + life \<Rightarrow> bool" where
  "life_ok r = (case r of Inl err \<Rightarrow> err = Dead_closure | Inr s \<Rightarrow> life_inv s)"

lemma life_ok_simps [simp]:
  "life_ok (Inr s) = life_inv s" "life_ok (Inl err) \<longleftrightarrow> err = Dead_closure"
  by (simp_all add: life_ok_def)

lemma create_steps_ok:
  assumes "life_inv s"
  shows "create_init ok s = Some r \<Longrightarrow> life_ok r" "create_schedule s = Some r \<Longrightarrow> life_ok r" "create_return s = Some r \<Longrightarrow> life_ok r"
proof -
  have g: "lf_create s = C_init \<Longrightarrow> \<not> lf_reg s" "lf_create s = C_init \<or> lf_create s = C_added \<Longrightarrow> lf_loop s = Loop_none"
    using assms by (simp_all add: life_inv_def)
  show "life_ok r" if "create_init ok s = Some r"
  proof (cases ok)
    case True
    with that have c: "lf_create s = C_init" and r: "r = with_ctx s (ptr_copy (s\<lparr>lf_create := C_added, lf_reg := True\<rparr>))"
      by (auto simp: create_init_def split: if_splits)
    have "life_inv (ptr_copy (s\<lparr>lf_create := C_added, lf_reg := True\<rparr>))"
      by (rule life_copy [OF assms, of O_create O_registry], simp_all add: c g, case_tac x) (simp_all add: c)
    with assms c show ?thesis by (simp add: r with_ctx_alive [of s O_create])
  next
    case False
    with that have c: "lf_create s = C_init" and r: "r = Inr (ptr_drop (s\<lparr>lf_create := C_over\<rparr>))"
      by (auto simp: create_init_def split: if_splits)
    show ?thesis unfolding r life_ok_simps
      by (rule life_drop [OF assms, of O_create], simp_all add: c, case_tac x) (simp_all add: c)
  qed
  show "life_ok r" if "create_schedule s = Some r"
  proof -
    from that have c: "lf_create s = C_added" and r: "r = Inr (ptr_copy (s\<lparr>lf_create := C_scheduled, lf_loop := Loop_sched\<rparr>))"
      by (auto simp: create_schedule_def split: if_splits)
    show ?thesis unfolding r life_ok_simps
      by (rule life_copy [OF assms, of O_create O_loop], simp_all add: c g, case_tac x) (simp_all add: c g)
  qed
  show "life_ok r" if "create_return s = Some r"
  proof -
    from that have c: "lf_create s = C_scheduled" and r: "r = Inr (ptr_drop (s\<lparr>lf_create := C_over\<rparr>))"
      by (auto simp: create_return_def split: if_splits)
    show ?thesis unfolding r life_ok_simps
      by (rule life_drop [OF assms, of O_create], simp_all add: c, case_tac x) (simp_all add: c)
  qed
qed

lemma start_task_ok:
  assumes "life_inv s" "owns s z" "lf_task s i = T_none"
  shows "life_ok (start_task i s)"
proof -
  have "life_inv (ptr_copy (s\<lparr>lf_task := (lf_task s)(i := T_wait)\<rparr>))"
    by (rule life_copy [OF assms(1,2), of "O_task i"], simp_all add: assms(3), case_tac x)
      (use assms in \<open>simp_all add: life_inv_def\<close>)
  then show ?thesis using assms by (simp add: start_task_def with_ctx_alive [of s z])
qed


lemma life_loop_inv:
  assumes "life_inv s" "lf_loop s = Loop_sched \<or> lf_loop s = Loop_run"
  shows "life_inv (s\<lparr>lf_loop := Loop_run\<rparr>)" "life_inv (ptr_drop (s\<lparr>lf_loop := Loop_over\<rparr>))"
proof -
  have g: "lf_create s \<noteq> C_init" "lf_create s \<noteq> C_added" using assms by (auto simp: life_inv_def)
  show "life_inv (s\<lparr>lf_loop := Loop_run\<rparr>)"
    by (rule life_keep [OF assms(1)], case_tac x) (use assms(2) g in auto)
  show "life_inv (ptr_drop (s\<lparr>lf_loop := Loop_over\<rparr>))"
    by (rule life_drop [OF assms(1), of O_loop], use assms(2) g in simp_all, case_tac x) simp_all
qed

lemma copy_drop: "0 < lf_count s \<Longrightarrow> ptr_drop (ptr_copy s) = s"
  by (simp add: ptr_drop_def ptr_copy_def Let_def)

lemma life_count_pos: "life_inv s \<Longrightarrow> owns s x \<Longrightarrow> 0 < lf_count s"
  by (auto simp: life_inv_def ptr.counted_def owners_def card_gt_0_iff)

lemma loop_ok:
  assumes "life_inv s"
  shows "spawn_loop s = Some r \<Longrightarrow> life_ok r" "loop_pop kinds i s = Some r \<Longrightarrow> life_ok r" "loop_end s = Some r \<Longrightarrow> life_ok r"
proof -
  show "life_ok r" if "spawn_loop s = Some r"
  proof -
    from that have l: "lf_loop s = Loop_sched" by (simp add: spawn_loop_def split: if_splits)
    then have "0 < lf_count (s\<lparr>lf_loop := Loop_run\<rparr>)" using life_count_pos [OF assms, of O_loop] by simp
    with that l show ?thesis
      using life_loop_inv(1) [OF assms] with_ctx_alive [OF assms, of O_loop] by (auto simp: spawn_loop_def copy_drop)
  qed
  show "life_ok r" if "loop_pop kinds i s = Some r"
    using that start_task_ok [OF assms, of O_loop i] by (auto simp: loop_pop_def split: if_splits)
  show "life_ok r" if "loop_end s = Some r"
    using that life_loop_inv(2) [OF assms] with_ctx_alive [OF assms, of O_loop] by (auto simp: loop_end_def split: if_splits)
qed

lemma start_ok:
  assumes "life_inv s"
  shows "life_async kinds by i s = Some r \<Longrightarrow> life_ok r" "life_rpc kinds i s = Some r \<Longrightarrow> life_ok r"
  using start_task_ok [OF assms, of O_create i] start_task_ok [OF assms, of "O_task (the by)" i] start_task_ok [OF assms, of O_registry i]
  by (auto simp: life_async_def life_rpc_def split: if_splits option.splits)

lemma life_task_inv:
  assumes "life_inv s" "owns s (O_task i)"
  shows "pc \<noteq> T_none \<Longrightarrow> pc \<noteq> T_done \<Longrightarrow> life_inv (s\<lparr>lf_task := (lf_task s)(i := pc)\<rparr>)"
    "life_inv (ptr_drop (s\<lparr>lf_task := (lf_task s)(i := T_done)\<rparr>))"
proof -
  show "life_inv (s\<lparr>lf_task := (lf_task s)(i := pc)\<rparr>)" if "pc \<noteq> T_none" "pc \<noteq> T_done"
    by (rule life_keep [OF assms(1)], case_tac x) (use assms that in \<open>auto simp: life_inv_def\<close>)
  show "life_inv (ptr_drop (s\<lparr>lf_task := (lf_task s)(i := T_done)\<rparr>))"
    by (rule life_drop [OF assms], case_tac x) (use assms(1) in \<open>auto simp: life_inv_def\<close>)
qed

lemma task_ok:
  assumes "life_inv s"
  shows "life_begin kinds i s = Some r \<Longrightarrow> life_ok r" "life_enter kinds i s = Some r \<Longrightarrow> life_ok r"
    "life_move old new i s = Some r \<Longrightarrow> {old, new} \<subseteq> insert T_run (range T_call) \<Longrightarrow> life_ok r" "life_finish i s = Some r \<Longrightarrow> life_ok r"
  using assms life_task_inv [OF assms, of i] with_ctx_alive [OF assms, of "O_task i"]
  by (auto simp: life_begin_def life_enter_def life_move_def life_finish_def task_reads_def split: if_splits)

lemma visit_ok:
  assumes "life_inv s"
  shows "visit_get j s = Some r \<Longrightarrow> life_ok r" "visit_push j s = Some r \<Longrightarrow> life_ok r" "visit_del j s = Some r \<Longrightarrow> life_ok r"
    "visit_shutdown j s = Some r \<Longrightarrow> life_ok r" "visit_leave j s = Some r \<Longrightarrow> life_ok r" "registry_gone s = Some r \<Longrightarrow> life_ok r"
proof -
  note g = assms [unfolded life_inv_def]
  have gone: "lf_reg s \<Longrightarrow> life_inv (ptr_drop (s\<lparr>lf_reg := False\<rparr>))"
    by (rule life_drop [OF assms, of O_registry], use g in simp_all, case_tac x) simp_all
  have leave: "lf_visit s j \<Longrightarrow> life_inv (ptr_drop (s\<lparr>lf_visit := (lf_visit s)(j := False)\<rparr>))"
    by (rule life_drop [OF assms, of "O_visit j"], use g in simp_all, case_tac x) simp_all
  have get: "lf_reg s \<Longrightarrow> \<not> lf_visit s j \<Longrightarrow> life_inv (ptr_copy (s\<lparr>lf_visit := (lf_visit s)(j := True)\<rparr>))"
    by (rule life_copy [OF assms, of O_registry "O_visit j"], use g in simp_all, case_tac x) simp_all
  have stop: "life_inv (s\<lparr>lf_stop := True\<rparr>)"
    by (rule life_keep [OF assms], case_tac x) (use g in simp_all)
  note alive = with_ctx_alive [OF assms, of "O_visit j"]
  show "visit_get j s = Some r \<Longrightarrow> life_ok r" "visit_push j s = Some r \<Longrightarrow> life_ok r" "visit_del j s = Some r \<Longrightarrow> life_ok r"
    "visit_shutdown j s = Some r \<Longrightarrow> life_ok r" "visit_leave j s = Some r \<Longrightarrow> life_ok r" "registry_gone s = Some r \<Longrightarrow> life_ok r"
    using assms gone leave get stop alive
    by (auto simp: visit_get_def visit_push_def visit_del_def visit_shutdown_def visit_leave_def registry_gone_def split: if_splits)
qed

lemmas life_ops_ok = create_steps_ok loop_ok start_ok task_ok visit_ok

lemma life_step_ok: "life_inv s \<Longrightarrow> life_step kinds e s = Some r \<Longrightarrow> life_ok r"
  by (cases e) (auto intro: life_ops_ok simp: life_ops_ok(9))

lemma life_run_ok: "life_inv s \<Longrightarrow> life_run kinds es s = Some r \<Longrightarrow> life_ok r"
proof (induction es arbitrary: s)
  case (Cons e es)
  then show ?case using life_step_ok [OF Cons.prems(1), of kinds e] by (fastforce split: option.splits sum.splits)
qed auto

text \<open>Nothing can happen to a context without owners.\<close>

lemma life_no_owner: "owners s = {} \<Longrightarrow> life_step kinds e s = None"
proof -
  assume "owners s = {}"
  then have o: "\<not> owns s x" for x by (simp add: owners_def)
  have "lf_create s = C_over" "\<not> lf_reg s" "lf_loop s \<noteq> Loop_sched" "lf_loop s \<noteq> Loop_run" "lf_task s i \<noteq> T_wait" "lf_task s i \<noteq> T_run" "lf_task s i \<noteq> T_call 0"
    "\<not> lf_visit s i" for i
    using o [of O_create] o [of O_registry] o [of O_loop] o [of "O_task i"] o [of "O_visit i"] by auto
  then show ?thesis
    by (cases e) (auto simp: create_init_def create_schedule_def create_return_def spawn_loop_def loop_pop_def loop_end_def life_async_def
        life_rpc_def life_begin_def life_enter_def life_move_def life_finish_def visit_get_def visit_push_def visit_del_def visit_shutdown_def
        visit_leave_def registry_gone_def split: option.splits if_splits)
qed


section \<open>What is shown\<close>

text \<open>C10. Under every interleaving of creation, receiving loop, tasks, calls from other nodes, look-ups, stop and the end of the application, a
  context is never used after it was destroyed; it has been destroyed, exactly once, when and only when none of them has a pointer to it any more,
  and after that nothing of it is left to run.\<close>

theorem ctx_lifetime:
  assumes "life_run kinds es life_init = Some r"
  shows "case r of
      Inl err \<Rightarrow> err \<noteq> Dead_ctx
    | Inr s \<Rightarrow> lf_dead s = (if owners s = {} then 1 else 0) \<and> (lf_dead s = 1 \<longrightarrow> (\<forall>e. life_step kinds e s = None))"
proof (cases r)
  case (Inl err)
  with life_run_ok [OF life_init_inv assms] show ?thesis by simp
next
  case (Inr s)
  then have "life_inv s" using life_run_ok [OF life_init_inv assms] by simp
  then have d: "lf_dead s = (if owners s = {} then 1 else 0)" by (simp only: life_inv_def ptr.counted_def)
  then have "lf_dead s = 1 \<longrightarrow> (\<forall>e. life_step kinds e s = None)" using life_no_owner by (cases "owners s = {}") simp_all
  with d Inr show ?thesis by (simp only: sum.case)
qed

text \<open>A context that gets one message, is stopped, and works off the message before its loop ends.\<close>

definition life_demo :: "life_event list" where
  "life_demo =
     [E_init True, E_schedule, E_return, E_spawn, E_get 0, E_push 0, E_leave 0, E_pop 0, E_begin 0, E_enter 0,
      E_get 1, E_del 1, E_shutdown 1, E_leave 1, E_loop_end, E_finish 0]"

lemmas life_defs =
  create_init_def create_schedule_def create_return_def spawn_loop_def loop_pop_def loop_end_def life_async_def
  life_rpc_def life_begin_def life_enter_def life_move_def life_finish_def visit_get_def visit_push_def visit_del_def visit_shutdown_def
  visit_leave_def registry_gone_def start_task_def task_reads_def with_ctx_def ptr_copy_def ptr_drop_def ctx_destroy_def life_init_def

theorem ctx_lifetime_witness:
  "\<exists>s. life_run (\<lambda>_. On_msg) life_demo life_init = Some (Inr s) \<and> lf_dead s = 1 \<and> (\<forall>e. life_step (\<lambda>_. On_msg) e s = None)"
proof -
  obtain s where s: "life_run (\<lambda>_. On_msg) life_demo life_init = Some (Inr s)" "lf_dead s = 1"
    by (simp add: life_demo_def life_defs)
  with ctx_lifetime [OF s(1)] show ?thesis by auto
qed

text \<open>The frame of \<open>wait_msg_spawn\<close> has the closure whose call operator the tasks of messages are. \<open>ends_calm\<close>: no such task still waits when
  the loop ends.\<close>

fun ends_calm :: "(nat \<Rightarrow> task_kind) \<Rightarrow> life_event list \<Rightarrow> life \<Rightarrow> bool" where
  "ends_calm kinds [] s = True"
| "ends_calm kinds (e # es) s \<longleftrightarrow>
     (e = E_loop_end \<longrightarrow> (\<forall>i. lf_task s i = T_wait \<longrightarrow> kinds i \<noteq> On_msg)) \<and>
     (case life_step kinds e s of Some (Inr s') \<Rightarrow> ends_calm kinds es s' | _ \<Rightarrow> True)"

definition closure_inv :: "(nat \<Rightarrow> task_kind) \<Rightarrow> life \<Rightarrow> bool" where
  "closure_inv kinds s \<longleftrightarrow> (lf_loop s = Loop_run \<or> (\<forall>i. lf_task s i = T_wait \<longrightarrow> kinds i \<noteq> On_msg))"

lemma closure_step:
  assumes "closure_inv kinds s" "life_inv s" "life_step kinds e s = Some r" "e = E_loop_end \<longrightarrow> (\<forall>i. lf_task s i = T_wait \<longrightarrow> kinds i \<noteq> On_msg)"
  shows "case r of Inl err \<Rightarrow> err = Dead_ctx | Inr s' \<Rightarrow> closure_inv kinds s'"
proof (cases e)
  case (E_begin i)
  with assms show ?thesis
    by (auto simp: closure_inv_def life_begin_def task_reads_def with_ctx_def split: if_splits)
next
  case (E_enter i)
  with assms show ?thesis
    by (auto simp: closure_inv_def life_enter_def task_reads_def with_ctx_def split: if_splits)
qed (use assms in \<open>auto simp: closure_inv_def life_defs life_inv_def Let_def split: if_splits option.splits\<close>)


lemma calm_run_ok:
  assumes "closure_inv kinds s" "life_inv s" "ends_calm kinds es s" "life_run kinds es s = Some r"
  shows "\<exists>s'. r = Inr s'"
  using assms
proof (induction es arbitrary: s)
  case (Cons e es)
  then obtain q where q: "life_step kinds e s = Some q" by (auto split: option.splits)
  have "life_ok q" by (rule life_step_ok [OF Cons.prems(2) q])
  moreover have "case q of Inl err \<Rightarrow> err = Dead_ctx | Inr s' \<Rightarrow> closure_inv kinds s'"
    by (rule closure_step [OF Cons.prems(1,2) q]) (use Cons.prems(3) in simp)
  ultimately obtain s' where "q = Inr s'" "life_inv s'" "closure_inv kinds s'" by (auto simp: life_ok_def split: sum.splits)
  with Cons q show ?case by simp
qed auto

text \<open>If no message task still waits, for its executor or for the lock, whenever the receiving loop ends, then no run uses anything
  that was destroyed.\<close>

theorem calm_end_safe:
  assumes "ends_calm kinds es life_init" "life_run kinds es life_init = Some r"
  shows "\<exists>s. r = Inr s"
  by (rule calm_run_ok [OF _ life_init_inv assms]) (simp add: closure_inv_def life_init_def)

theorem calm_end_safe_witness:
  "ends_calm (\<lambda>_. On_msg) life_demo life_init \<and> (\<exists>s. life_run (\<lambda>_. On_msg) life_demo life_init = Some (Inr s))"
proof -
  have "ends_calm (\<lambda>_. On_msg) life_demo life_init" by (simp add: life_demo_def life_defs)
  moreover obtain r where r: "life_run (\<lambda>_. On_msg) life_demo life_init = Some r"
    by (simp add: life_demo_def life_defs)
  ultimately have "\<exists>s. r = Inr s" using calm_end_safe by blast
  with \<open>ends_calm (\<lambda>_. On_msg) life_demo life_init\<close> r show ?thesis by auto
qed

text \<open>C37. But nothing makes the loop wait for them. In whatever state a shut down loop runs and a message task waits, the loop may end first; the frame
  goes with the closure, and the task then reads the destroyed closure.\<close>

theorem waiting_task_dead_closure:
  assumes "life_run kinds es life_init = Some (Inr s)"
    and "lf_loop s = Loop_run" "lf_stop s" "lf_task s i = T_wait" "kinds i = On_msg"
  shows "life_run kinds (es @ [E_loop_end, E_begin i]) life_init = Some (Inl Dead_closure)"
proof -
  have app: "life_run kinds (es @ fs) t = life_run kinds fs s" if "life_run kinds es t = Some (Inr s)" for t fs
    using that by (induction es arbitrary: t) (auto split: option.splits sum.splits)
  have "life_inv s" using life_run_ok [OF life_init_inv assms(1)] by simp
  then have "lf_dead s = 0" by (rule life_alive [of _ O_loop]) (simp add: assms(2))
  then show ?thesis
    using assms(2-5) by (simp add: app [OF assms(1)] loop_end_def life_begin_def with_ctx_def task_reads_def)
qed

theorem waiting_task_dead_closure_witness:
  "life_run (\<lambda>_. On_msg)
     ([E_init True, E_schedule, E_return, E_spawn, E_get 0, E_push 0, E_leave 0, E_pop 0, E_get 1, E_del 1, E_shutdown 1, E_leave 1] @
      [E_loop_end, E_begin 0]) life_init
   = Some (Inl Dead_closure)"
  by (rule waiting_task_dead_closure) (simp add: life_defs, simp_all)

end
