(* ===== verification/Cpp_Std.thy ===== *)
theory Cpp_Std
  imports Cqy_Prelude "HOL-Library.Multiset"
begin

text \<open>
  The pieces of the C++ standard library the sources rest on, written out so that the
  components above them compute: \<open>string_view::find\<close> and \<open>substr\<close>, the loop of
  \<open>views::split\<close>, decimal output (\<open>std::format\<close>, \<open>std::to_string\<close>) and input
  (\<open>std::from_chars\<close>), and the halving loop behind \<open>ranges::lower_bound\<close> and
  \<open>ranges::binary_search\<close>. Each comes with the specification its clients use.
\<close>

section \<open>Searching and slicing a \<open>string_view\<close>\<close>

text \<open>\<open>s.find(d)\<close>: the first position where \<open>d\<close> occurs; \<open>npos\<close> is \<open>None\<close>.\<close>

fun sv_find :: "string \<Rightarrow> string \<Rightarrow> nat option" where
  "sv_find [] d = (if d = [] then Some 0 else None)"
| "sv_find (c # s) d =
     (if take (length d) (c # s) = d then Some 0 else map_option Suc (sv_find s d))"

text \<open>\<open>s.substr(p)\<close> throws \<open>std::out_of_range\<close> when \<open>p > s.size()\<close>.\<close>

definition sv_substr :: "string \<Rightarrow> nat \<Rightarrow> string result" where
  "sv_substr s p = (if p \<le> length s then Inr (drop p s) else Inl Out_Of_Range)"

definition occurs_at :: "string \<Rightarrow> string \<Rightarrow> nat \<Rightarrow> bool" where
  "occurs_at d s p \<longleftrightarrow> p + length d \<le> length s \<and> take (length d) (drop p s) = d"

lemma occurs_at_Suc [simp]: "occurs_at d (c # s) (Suc p) \<longleftrightarrow> occurs_at d s p"
  by (simp add: occurs_at_def)

lemma occurs_at_0: "occurs_at d s 0 \<longleftrightarrow> take (length d) s = d"
  by (auto simp: occurs_at_def) (metis length_take min.absorb_iff2 min.commute)

lemma sv_find_Some_iff:
  "sv_find s d = Some p \<longleftrightarrow> occurs_at d s p \<and> (\<forall>q < p. \<not> occurs_at d s q)"
proof (induction s arbitrary: p)
  case Nil
  then show ?case by (auto simp: occurs_at_def)
next
  case (Cons c s)
  show ?case
  proof (cases p)
    case 0
    then show ?thesis by (auto simp: occurs_at_0)
  next
    case (Suc k)
    then show ?thesis
      using Cons.IH [of k] by (auto simp: occurs_at_0 All_less_Suc2)
  qed
qed

lemma sv_find_None_iff: "sv_find s d = None \<longleftrightarrow> (\<forall>p. \<not> occurs_at d s p)"
proof (induction s)
  case Nil
  then show ?case by (auto simp: occurs_at_def)
next
  case (Cons c s)
  then show ?case
    by (auto simp: occurs_at_0) (metis (no_types) not0_implies_Suc occurs_at_0 occurs_at_Suc)+
qed

lemma sv_find_split:
  assumes "sv_find s d = Some p"
  shows "s = take p s @ d @ drop (p + length d) s" "p + length d \<le> length s"
proof -
  have "occurs_at d s p" using assms by (simp add: sv_find_Some_iff)
  then have *: "take (length d) (drop p s) = d" "p + length d \<le> length s"
    by (simp_all add: occurs_at_def)
  show "p + length d \<le> length s" by (fact *(2))
  have "s = take p s @ take (length d) (drop p s) @ drop (length d) (drop p s)"
    by (simp only: append_take_drop_id)
  then show "s = take p s @ d @ drop (p + length d) s"
    using *(1) by (simp add: add.commute)
qed

lemma sv_find_take_None:
  assumes "sv_find s d = Some p" "d \<noteq> []"
  shows "sv_find (take p s) d = None"
proof -
  have "\<not> occurs_at d (take p s) q" for q
  proof
    assume *: "occurs_at d (take p s) q"
    with assms(2) have "q < p" by (cases d) (auto simp: occurs_at_def)
    moreover from * have "occurs_at d s q"
      by (auto simp: occurs_at_def drop_take min_def split: if_splits)
    ultimately show False using assms(1) by (auto simp: sv_find_Some_iff)
  qed
  then show ?thesis by (simp add: sv_find_None_iff)
qed

section \<open>\<open>std::views::split\<close>\<close>

text \<open>
  The iterator of \<open>split_view\<close>: \<open>find_next\<close> searches the pattern from the current
  position (an empty pattern matches after one element), \<open>operator++\<close> moves behind the
  match, and a match that ends the range yields one trailing empty piece. The argument
  \<open>s\<close> is the part of the range that is not consumed yet.
\<close>

function split_go :: "string \<Rightarrow> string \<Rightarrow> string list" where
  "split_go d s =
     (case sv_find s d of
        None \<Rightarrow> [s]
      | Some p \<Rightarrow>
          (let b = (if d = [] \<and> p \<noteq> length s then p + 1 else p);
               e = (if d = [] \<and> p \<noteq> length s then p + 1 else p + length d)
           in if b = length s then [take b s]
              else if e = length s then [take b s, []]
              else take b s # split_go d (drop e s)))"
  by pat_completeness auto
termination
proof (relation "measure (\<lambda>(d, s). length s)", simp, goal_cases)
  case (1 d s p b e)
  then show ?case
    by (cases d; cases s) (auto split: if_splits)
qed

declare split_go.simps [simp del]

definition views_split :: "string \<Rightarrow> string \<Rightarrow> string list" where
  "views_split s d = (if s = [] then [] else split_go d s)"

text \<open>The inverse: the pieces joined again with the separator.\<close>

fun join_with :: "string \<Rightarrow> string list \<Rightarrow> string" where
  "join_with d [] = []"
| "join_with d [x] = x"
| "join_with d (x # y # ys) = x @ d @ join_with d (y # ys)"

lemma split_go_Nil_iff [simp]: "split_go d s \<noteq> []"
  by (subst split_go.simps) (auto simp: Let_def split: option.split)

lemma join_with_Cons: "xs \<noteq> [] \<Longrightarrow> join_with d (x # xs) = x @ d @ join_with d xs"
  by (cases xs) auto

lemma split_go_correct:
  assumes "d \<noteq> []"
  shows "join_with d (split_go d s) = s \<and> (\<forall>x \<in> set (split_go d s). sv_find x d = None)"
  using assms
proof (induction d s rule: split_go.induct)
  case (1 d s)
  show ?case
  proof (cases "sv_find s d")
    case None
    then show ?thesis by (subst (1 2) split_go.simps) simp
  next
    case (Some p)
    note s = sv_find_split [OF Some]
    note t = sv_find_take_None [OF Some "1.prems"]
    have p: "p < length s" using s(2) "1.prems" by (cases d) auto
    have e: "sv_find [] d = None" using "1.prems" by simp
    show ?thesis
    proof (cases "p + length d = length s")
      case True
      then have "split_go d s = [take p s, []]"
        using Some p "1.prems" by (subst split_go.simps) simp
      then show ?thesis using s t e True by simp
    next
      case False
      then have eq: "split_go d s = take p s # split_go d (drop (p + length d) s)"
        using Some p "1.prems" by (subst split_go.simps) simp
      have "join_with d (split_go d (drop (p + length d) s)) = drop (p + length d) s \<and>
        (\<forall>x \<in> set (split_go d (drop (p + length d) s)). sv_find x d = None)"
        using "1.IH" [OF Some refl refl] p False "1.prems" by simp
      then show ?thesis using eq s t by (simp add: join_with_Cons)
    qed
  qed
qed

section \<open>Decimal output and input\<close>

fun dec_digits :: "nat \<Rightarrow> string" where
  "dec_digits n = (if n < 10 then [char_of (48 + n)] else dec_digits (n div 10) @ [char_of (48 + n mod 10)])"

declare dec_digits.simps [simp del]

definition int_to_string :: "int \<Rightarrow> string" where
  "int_to_string i = (if i < 0 then CHR ''-'' # dec_digits (nat (- i)) else dec_digits (nat i))"

definition is_digit :: "char \<Rightarrow> bool" where
  "is_digit c \<longleftrightarrow> 48 \<le> (of_char c :: nat) \<and> (of_char c :: nat) \<le> 57"

definition digits_value :: "string \<Rightarrow> nat" where
  "digits_value = foldl (\<lambda>n c. 10 * n + (of_char c - 48)) 0"

text \<open>
  \<open>std::from_chars\<close> in base 10 for an integer type with range \<open>[lo, hi]\<close>: a minus sign
  is read for signed types only, then the longest run of digits; no digit is
  \<open>errc::invalid_argument\<close>, a value outside the type \<open>errc::result_out_of_range\<close>. The
  result carries the unread rest.
\<close>

datatype errc = Invalid_Argument | Result_Out_Of_Range

definition from_chars :: "int \<Rightarrow> int \<Rightarrow> string \<Rightarrow> errc + (int \<times> string)" where
  "from_chars lo hi s =
     (let neg = (lo < 0 \<and> s \<noteq> [] \<and> hd s = CHR ''-'');
          t = (if neg then tl s else s);
          ds = takeWhile is_digit t;
          v = (if neg then - int (digits_value ds) else int (digits_value ds))
      in if ds = [] then Inl Invalid_Argument
         else if v < lo \<or> hi < v then Inl Result_Out_Of_Range
         else Inr (v, dropWhile is_digit t))"

lemma digits_value_append [simp]:
  "digits_value (xs @ [c]) = 10 * digits_value xs + (of_char c - 48)"
  by (simp add: digits_value_def)

lemma of_char_digit [simp]: "n < 10 \<Longrightarrow> of_char (char_of (48 + n) :: char) = 48 + (n :: nat)"
  by (simp add: of_char_of)

lemma dec_digits_props:
  "digits_value (dec_digits n) = n \<and> (\<forall>c \<in> set (dec_digits n). is_digit c) \<and> dec_digits n \<noteq> []"
proof (induction n rule: dec_digits.induct)
  case (1 n)
  show ?case
  proof (cases "n < 10")
    case True
    then show ?thesis
      by (subst (1 2 3) dec_digits.simps) (simp add: digits_value_def is_digit_def)
  next
    case False
    have "n mod 10 < 10" by simp
    with False "1.IH" show ?thesis
      by (subst (1 2 3) dec_digits.simps) (auto simp: is_digit_def)
  qed
qed

lemma takeWhile_digits_append:
  assumes "\<forall>c \<in> set ds. is_digit c" "rest = [] \<or> \<not> is_digit (hd rest)"
  shows "takeWhile is_digit (ds @ rest) = ds" "dropWhile is_digit (ds @ rest) = rest"
  using assms by (induction ds) (cases rest; simp)+

lemma hd_dec_digits: "hd (dec_digits n @ rest) \<noteq> CHR ''-''"
proof -
  have "is_digit (hd (dec_digits n))"
    using dec_digits_props [of n] by (meson hd_in_set)
  moreover have "hd (dec_digits n @ rest) = hd (dec_digits n)"
    using dec_digits_props [of n] by simp
  moreover have "\<not> is_digit (CHR ''-'')"
    by (simp add: is_digit_def)
  ultimately show ?thesis by metis
qed

lemma from_chars_int_to_string:
  assumes "lo \<le> i" "i \<le> hi" "rest = [] \<or> \<not> is_digit (hd rest)"
  shows "from_chars lo hi (int_to_string i @ rest) = Inr (i, rest)"
proof -
  let ?ds = "dec_digits (nat \<bar>i\<bar>)"
  have p: "digits_value ?ds = nat \<bar>i\<bar>" "\<forall>c \<in> set ?ds. is_digit c" "?ds \<noteq> []"
    using dec_digits_props [of "nat \<bar>i\<bar>"] by blast+
  note tw = takeWhile_digits_append [OF p(2) assms(3)]
  show ?thesis
  proof (cases "i < 0")
    case True
    then have "int_to_string i = CHR ''-'' # ?ds" by (simp add: int_to_string_def)
    with True assms p tw show ?thesis by (simp add: from_chars_def)
  next
    case False
    then have "int_to_string i = ?ds" by (simp add: int_to_string_def)
    with False assms p tw hd_dec_digits [of "nat \<bar>i\<bar>" rest] show ?thesis
      by (simp add: from_chars_def)
  qed
qed

section \<open>\<open>ranges::lower_bound\<close> and \<open>ranges::binary_search\<close>\<close>

text \<open>The halving loop over \<open>[first, first + len)\<close>; \<open>ks\<close> are the projected keys.\<close>

function lower_bound_loop :: "'a::linorder list \<Rightarrow> 'a \<Rightarrow> nat \<Rightarrow> nat \<Rightarrow> nat" where
  "lower_bound_loop ks v first len =
     (if len > 0 then
        (let half = len div 2; middle = first + half
         in if ks ! middle < v then lower_bound_loop ks v (middle + 1) (len - half - 1)
            else lower_bound_loop ks v first half)
      else first)"
  by pat_completeness auto
termination
  by (relation "measure (\<lambda>(ks, v, first, len). len)") auto

declare lower_bound_loop.simps [simp del]

definition lower_bound :: "'a::linorder list \<Rightarrow> 'a \<Rightarrow> nat" where
  "lower_bound ks v = lower_bound_loop ks v 0 (length ks)"

definition binary_search :: "'a::linorder list \<Rightarrow> 'a \<Rightarrow> bool" where
  "binary_search ks v \<longleftrightarrow>
     (let i = lower_bound ks v in i \<noteq> length ks \<and> \<not> v < ks ! i)"

lemma lower_bound_loop_spec:
  assumes "sorted ks" "first + len \<le> length ks"
    and "\<forall>i < first. ks ! i < v" "\<forall>i. first + len \<le> i \<and> i < length ks \<longrightarrow> v \<le> ks ! i"
  shows "lower_bound_loop ks v first len \<le> length ks \<and>
    (\<forall>i < lower_bound_loop ks v first len. ks ! i < v) \<and>
    (\<forall>i. lower_bound_loop ks v first len \<le> i \<and> i < length ks \<longrightarrow> v \<le> ks ! i)"
  using assms
proof (induction ks v first len rule: lower_bound_loop.induct)
  case (1 ks v first len)
  show ?case
  proof (cases "len > 0")
    case False
    with "1.prems" show ?thesis by (subst (1 2 3) lower_bound_loop.simps) auto
  next
    case True
    define m where "m = first + len div 2"
    have m: "m < length ks" "m < first + len" using True "1.prems"(2) by (auto simp: m_def)
    show ?thesis
    proof (cases "ks ! m < v")
      case less: True
      have "\<forall>i < m + 1. ks ! i < v"
        using less m "1.prems"(1)
        by (metis Suc_eq_plus1 le_less_trans less_Suc_eq_le sorted_nth_mono)
      moreover have "m + 1 + (len - len div 2 - 1) = first + len"
        using True by (auto simp: m_def)
      moreover have "lower_bound_loop ks v first len = lower_bound_loop ks v (m + 1) (len - len div 2 - 1)"
        using True less by (subst lower_bound_loop.simps) (simp add: m_def Let_def)
      ultimately show ?thesis
        using "1.IH"(1) [OF True refl refl] less "1.prems" by (simp add: m_def)
    next
      case ge: False
      have "\<forall>i. m \<le> i \<and> i < length ks \<longrightarrow> v \<le> ks ! i"
        using ge "1.prems"(1) by (meson not_less order_trans sorted_nth_mono)
      moreover have "lower_bound_loop ks v first len = lower_bound_loop ks v first (len div 2)"
        using True ge by (subst lower_bound_loop.simps) (simp add: m_def Let_def)
      ultimately show ?thesis
        using "1.IH"(2) [OF True refl refl] ge m "1.prems" by (simp add: m_def)
    qed
  qed
qed

lemma lower_bound_spec:
  assumes "sorted ks"
  shows "lower_bound ks v \<le> length ks"
    and "i < lower_bound ks v \<Longrightarrow> ks ! i < v"
    and "lower_bound ks v \<le> i \<Longrightarrow> i < length ks \<Longrightarrow> v \<le> ks ! i"
proof -
  have "lower_bound_loop ks v 0 (length ks) \<le> length ks \<and>
    (\<forall>i < lower_bound_loop ks v 0 (length ks). ks ! i < v) \<and>
    (\<forall>i. lower_bound_loop ks v 0 (length ks) \<le> i \<and> i < length ks \<longrightarrow> v \<le> ks ! i)"
    by (rule lower_bound_loop_spec) (use assms in auto)
  then show "lower_bound ks v \<le> length ks"
    "i < lower_bound ks v \<Longrightarrow> ks ! i < v"
    "lower_bound ks v \<le> i \<Longrightarrow> i < length ks \<Longrightarrow> v \<le> ks ! i"
    by (simp_all add: lower_bound_def)
qed

lemma lower_bound_found:
  assumes "sorted ks" "v \<in> set ks"
  shows "lower_bound ks v < length ks" "ks ! lower_bound ks v = v"
proof -
  obtain j where j: "j < length ks" "ks ! j = v" using assms(2) by (auto simp: in_set_conv_nth)
  have "\<not> j < lower_bound ks v" using lower_bound_spec(2) [OF assms(1)] j by fastforce
  then have le: "lower_bound ks v \<le> j" by simp
  then show l: "lower_bound ks v < length ks" using j by simp
  have "ks ! lower_bound ks v \<le> ks ! j" by (rule sorted_nth_mono [OF assms(1) le j(1)])
  moreover have "v \<le> ks ! lower_bound ks v" using lower_bound_spec(3) [OF assms(1)] l by simp
  ultimately show "ks ! lower_bound ks v = v" using j by simp
qed

lemma binary_search_iff: "sorted ks \<Longrightarrow> binary_search ks v \<longleftrightarrow> v \<in> set ks"
proof
  assume s: "sorted ks" and b: "binary_search ks v"
  then have "lower_bound ks v < length ks" "ks ! lower_bound ks v \<le> v"
    using lower_bound_spec(1) [OF s, of v] by (auto simp: binary_search_def Let_def)
  moreover from this have "v \<le> ks ! lower_bound ks v"
    using lower_bound_spec(3) [OF s] by simp
  ultimately have "ks ! lower_bound ks v = v" "lower_bound ks v < length ks" by simp_all
  then show "v \<in> set ks" by (metis nth_mem)
next
  assume "sorted ks" "v \<in> set ks"
  from lower_bound_found [OF this] show "binary_search ks v"
    by (simp add: binary_search_def Let_def)
qed

section \<open>First match in a vector\<close>

primrec index_of :: "('a \<Rightarrow> bool) \<Rightarrow> 'a list \<Rightarrow> nat option" where
  "index_of P [] = None"
| "index_of P (x # xs) = (if P x then Some 0 else map_option Suc (index_of P xs))"

lemma index_of_Some_iff:
  "index_of P xs = Some k \<longleftrightarrow> k < length xs \<and> P (xs ! k) \<and> (\<forall>j < k. \<not> P (xs ! j))"
proof (induction xs arbitrary: k)
  case (Cons x xs)
  then show ?case by (cases k) (auto simp: All_less_Suc2)
qed simp

lemma index_of_None_iff: "index_of P xs = None \<longleftrightarrow> (\<forall>x \<in> set xs. \<not> P x)"
  by (induction xs) auto

lemma index_of_append:
  "index_of P (xs @ ys) =
     (case index_of P xs of Some k \<Rightarrow> Some k | None \<Rightarrow> map_option ((+) (length xs)) (index_of P ys))"
  by (induction xs; cases "index_of P ys") (auto split: option.split)

lemma index_of_map: "index_of P (map f xs) = index_of (\<lambda>x. P (f x)) xs"
  by (induction xs) auto

section \<open>Hexadecimal output\<close>

definition hex_char :: "nat \<Rightarrow> char" where
  "hex_char n = (if n < 10 then char_of (48 + n) else char_of (87 + n))"

fun hex_digits :: "nat \<Rightarrow> string" where
  "hex_digits n = (if n < 16 then [hex_char n] else hex_digits (n div 16) @ [hex_char (n mod 16)])"

declare hex_digits.simps [simp del]

text \<open>\<open>std::format("{:0x}", w)\<close>\<close>

definition hex_u32 :: "u32 \<Rightarrow> string" where
  "hex_u32 w = hex_digits (unat w)"


section \<open>\<open>std::filesystem::path\<close>\<close>

text \<open>\<open>append\<close> on POSIX: an absolute path replaces, otherwise a separator goes between unless there is one.\<close>

definition path_append :: "string \<Rightarrow> string \<Rightarrow> string" where
  "path_append dir file =
     (if file \<noteq> [] \<and> hd file = CHR ''/'' then file
      else if dir \<noteq> [] \<and> last dir \<noteq> CHR ''/'' then dir @ CHR ''/'' # file
      else dir @ file)"

lemma path_append_file: "dir \<noteq> [] \<Longrightarrow> last dir \<noteq> CHR ''/'' \<Longrightarrow> file \<noteq> [] \<Longrightarrow> hd file \<noteq> CHR ''/'' \<Longrightarrow>
    path_append dir file = dir @ ''/'' @ file"
  by (simp add: path_append_def)

end
