(* ===== verification/Cqy_Algo.thy ===== *)
theory Cqy_Algo
  imports Cpp_Std
begin

text \<open>
  \<open>include/cqy_algo.h\<close> and \<open>src/cqy_algo.cpp\<close>: the string helpers \<open>split\<close>,
  \<open>split_one\<close> and \<open>to_n\<close>. The bootstrap line of the configuration, every
  \<open>node.context\<close> address and the parameters of the example server go through them.
\<close>

section \<open>Model\<close>

definition algo_split :: "string \<Rightarrow> string \<Rightarrow> string list" where
  "algo_split s sep = views_split s sep"

text \<open>
  \<open>split_one\<close> skips one character after the match, whatever the length of the separator (\<open>div\<close> in the source);
  \<open>substr\<close> throws when that is beyond the end (an empty string split at \<open>""\<close>).
\<close>

definition algo_split_one :: "string \<Rightarrow> string \<Rightarrow> (string \<times> string) result" where
  "algo_split_one s sep =
     (case sv_find s sep of
        None \<Rightarrow> Inr (s, [])
      | Some pos \<Rightarrow> bind_result (sv_substr s (pos + 1)) (\<lambda>rest. Inr (take pos s, rest)))"

text \<open>\<open>to_n<T>\<close> for an integer type with range \<open>[lo, hi]\<close>; trailing text is ignored.\<close>

definition algo_to_n :: "int \<Rightarrow> int \<Rightarrow> string \<Rightarrow> int option" where
  "algo_to_n lo hi s = (case from_chars lo hi s of Inl ec \<Rightarrow> None | Inr (n, rest) \<Rightarrow> Some n)"

section \<open>Properties\<close>

lemma sv_find_char:
  "sv_find s [c] = (if c \<in> set s then Some (length (takeWhile (\<lambda>x. x \<noteq> c) s)) else None)"
  by (induction s) auto

lemma takeWhile_ne_notin: "c \<notin> set s \<Longrightarrow> takeWhile (\<lambda>x. x \<noteq> c) s = s"
  by (induction s) auto

lemma dropWhile_ne_notin: "c \<notin> set s \<Longrightarrow> dropWhile (\<lambda>x. x \<noteq> c) s = []"
  by (induction s) auto

lemma length_takeWhile_in: "c \<in> set s \<Longrightarrow> length (takeWhile (\<lambda>x. x \<noteq> c) s) < length s"
  by (induction s) auto

lemma tl_dropWhile_ne:
  "tl (dropWhile (\<lambda>x. x \<noteq> c) s) = drop (Suc (length (takeWhile (\<lambda>x. x \<noteq> c) s))) s"
  by (simp only: dropWhile_eq_drop drop_Suc tl_drop)

lemma split_one_char:
  "algo_split_one s [c] = Inr (takeWhile (\<lambda>x. x \<noteq> c) s, tl (dropWhile (\<lambda>x. x \<noteq> c) s))"
proof (cases "c \<in> set s")
  case True
  let ?n = "length (takeWhile (\<lambda>x. x \<noteq> c) s)"
  have "take ?n s = takeWhile (\<lambda>x. x \<noteq> c) s"
    by (rule takeWhile_eq_take [symmetric])
  moreover have "sv_substr s (?n + 1) = Inr (tl (dropWhile (\<lambda>x. x \<noteq> c) s))"
    using length_takeWhile_in [OF True] by (simp add: sv_substr_def tl_dropWhile_ne Suc_le_eq)
  ultimately show ?thesis
    using True by (simp add: algo_split_one_def sv_find_char)
next
  case False
  then show ?thesis
    by (simp add: algo_split_one_def sv_find_char takeWhile_ne_notin dropWhile_ne_notin)
qed

text \<open>\<open>algo::split_one\<close> with a one-character separator never throws: it returns the
  text before the first occurrence of the separator and the text after it, and the whole
  string with an empty rest when the separator does not occur.\<close>

theorem split_one_first_separator:
  "algo_split_one s [c] =
     (if c \<in> set s
      then Inr (takeWhile (\<lambda>x. x \<noteq> c) s, drop (Suc (length (takeWhile (\<lambda>x. x \<noteq> c) s))) s)
      else Inr (s, []))"
  by (cases "c \<in> set s")
    (simp_all add: split_one_char tl_dropWhile_ne takeWhile_ne_notin)

text \<open>\<open>algo::split\<close> loses nothing and splits everywhere: for a non-empty separator,
  joining the pieces with it gives the input back, and no piece contains the separator.\<close>

theorem split_join:
  assumes "d \<noteq> []"
  shows "join_with d (algo_split s d) = s \<and> (\<forall>x \<in> set (algo_split s d). sv_find x d = None)"
  using split_go_correct [OF assms, of s] by (auto simp: algo_split_def views_split_def)

theorem split_join_witness:
  "algo_split ''hello world ! '' '' '' = [''hello'', ''world'', ''!'', '''']
   \<and> join_with '' '' (algo_split ''hello world ! '' '' '') = ''hello world ! ''
   \<and> sv_find ''hello'' '' '' = None"
proof -
  have "algo_split ''hello world ! '' '' '' = [''hello'', ''world'', ''!'', '''']"
    by code_simp
  then show ?thesis
    using split_join [of "'' ''" "''hello world ! ''"] by simp
qed

text \<open>\<open>algo::to_n\<close> inverts decimal output: the digits of a value of the type, followed
  by anything that is not a digit, are read back as that value.\<close>

theorem to_n_int_to_string:
  assumes "lo \<le> i" "i \<le> hi" "rest = [] \<or> \<not> is_digit (hd rest)"
  shows "algo_to_n lo hi (int_to_string i @ rest) = Some i"
  by (simp add: algo_to_n_def from_chars_int_to_string [OF assms])

theorem to_n_int_to_string_witness:
  "algo_to_n (-2147483648) 2147483647 (int_to_string (-123) @ ''a'') = Some (-123)"
  by (rule to_n_int_to_string) (simp_all add: is_digit_def)

text \<open>A result of \<open>algo::to_n\<close> lies in the range of the requested type.\<close>

theorem to_n_in_range:
  assumes "algo_to_n lo hi s = Some n"
  shows "lo \<le> n \<and> n \<le> hi"
  using assms
  by (auto simp: algo_to_n_def from_chars_def Let_def split: sum.splits if_splits)

theorem to_n_in_range_witness: "(0::int) \<le> 123 \<and> (123::int) \<le> 65535"
  by (rule to_n_in_range [of 0 65535 "''123a''"]) code_simp

text \<open>\<open>split_one\<close> removes one character of the separator only: the rest it returns
  still starts with the remaining characters of a longer separator. (\<open>split\<close> with the
  same separator does remove it.)\<close>

theorem split_one_long_separator:
  assumes "sv_find s (c # d) = Some p"
  shows "algo_split_one s (c # d) = Inr (take p s, d @ drop (p + 1 + length d) s)"
proof -
  note s = sv_find_split [OF assms]
  have "drop (p + 1) s = drop (p + 1) (take p s @ (c # d) @ drop (p + length (c # d)) s)"
    using s(1) by simp
  also have "\<dots> = d @ drop (p + 1 + length d) s"
    using s(2) by simp
  finally show ?thesis
    using assms s(2) by (simp add: algo_split_one_def sv_substr_def)
qed

theorem split_one_long_separator_witness:
  "algo_split_one ''a::b'' ''::'' = Inr (''a'', '':b'') \<and> algo_split ''a::b'' ''::'' = [''a'', ''b'']"
proof
  have "sv_find ''a::b'' ''::'' = Some 1" by code_simp
  from split_one_long_separator [OF this] show "algo_split_one ''a::b'' ''::'' = Inr (''a'', '':b'')"
    by simp
  show "algo_split ''a::b'' ''::'' = [''a'', ''b'']" by code_simp
qed

end
