(* ===== verification/Cqy_Handle.thy ===== *)
theory Cqy_Handle
  imports Cqy_Prelude
begin

text \<open>
  \<open>include/cqy_handle.h\<close>: the 32-bit handle of a context. The union lays
  \<open>uint8_t h[3]; uint8_t nodeid\<close> over \<open>uint32_t id\<close>; on the little-endian targets the
  project builds for, \<open>nodeid\<close> is the most significant byte (the test
  \<open>cqy_handle_t\<close> in \<open>test/test.cpp\<close> checks \<open>0x12345678\<close> has \<open>nodeid\<close> \<open>0x12\<close>).
\<close>

section \<open>Model\<close>

record cqy_handle_t =
  handle_id :: u32

text \<open>\<open>cqy_handle_t(uint32_t id_ = 0)\<close>\<close>

definition cqy_handle :: "u32 \<Rightarrow> cqy_handle_t" where
  "cqy_handle i = \<lparr>handle_id = i\<rparr>"

text \<open>Reading and writing the union member \<open>nodeid\<close>.\<close>

definition handle_nodeid :: "cqy_handle_t \<Rightarrow> u8" where
  "handle_nodeid h = u32_bytes (handle_id h) ! 3"

definition handle_set_nodeid :: "u8 \<Rightarrow> cqy_handle_t \<Rightarrow> cqy_handle_t" where
  "handle_set_nodeid n h =
     (let b = u32_bytes (handle_id h)
      in h\<lparr>handle_id := u32_of_bytes (b ! 0) (b ! 1) (b ! 2) n\<rparr>)"

definition handle_ctxid :: "cqy_handle_t \<Rightarrow> u32" where
  "handle_ctxid h = 0x00ffffff AND handle_id h"

definition handle_set_ctxid :: "u32 \<Rightarrow> cqy_handle_t \<Rightarrow> cqy_handle_t" where
  "handle_set_ctxid c h = h\<lparr>handle_id := (handle_id h AND 0xff000000) OR (c AND 0x00ffffff)\<rparr>"

definition handle_node :: "cqy_handle_t \<Rightarrow> u8" where
  "handle_node h = handle_nodeid h"

text \<open>\<open>cqy_handle_t::from\<close>\<close>

definition handle_from :: "u8 \<Rightarrow> u32 \<Rightarrow> cqy_handle_t" where
  "handle_from nid c = handle_set_ctxid c (handle_set_nodeid nid (cqy_handle 0))"

section \<open>Bit-level facts\<close>

lemma u32_bytes_nth3 [simp]: "u32_bytes w ! 3 = ucast (drop_bit 24 w)"
  by (simp add: u32_bytes_def)

text \<open>The simplifier reads the bits of a word numeral off the integer, so the masks are
  described there.\<close>

lemma bit_mask24: "bit (0x00ffffff :: int) n \<longleftrightarrow> n < 24"
proof -
  have "(0x00ffffff :: int) = mask 24" by (simp add: mask_eq_exp_minus_1)
  then show ?thesis by (simp only: bit_mask_iff) simp
qed

lemma bit_mask8: "bit (0xff :: int) n \<longleftrightarrow> n < 8"
proof -
  have "(0xff :: int) = mask 8" by (simp add: mask_eq_exp_minus_1)
  then show ?thesis by (simp only: bit_mask_iff) simp
qed

lemma bit_mask_hi8: "bit (0xff000000 :: int) n \<longleftrightarrow> 24 \<le> n \<and> n < 32"
proof -
  have "(0xff000000 :: int) = push_bit 24 (mask 8)" by (simp add: mask_eq_exp_minus_1 push_bit_eq_mult)
  then show ?thesis by (simp only: bit_push_bit_iff bit_mask_iff) auto
qed

lemmas handle_bits = bit_simps bit_mask24 bit_mask8 bit_mask_hi8 not_less

lemma handle_set_nodeid_bits:
  "handle_id (handle_set_nodeid n h) = (handle_id h AND 0x00ffffff) OR push_bit 24 (ucast n)"
proof (rule bit_word_eqI)
  fix k assume "k < LENGTH(32)"
  then consider "k < 8" | "8 \<le> k" "k < 16" | "16 \<le> k" "k < 24" | "24 \<le> k" "k < 32"
    by fastforce
  then show "bit (handle_id (handle_set_nodeid n h)) k =
      bit ((handle_id h AND 0x00ffffff) OR push_bit 24 (ucast n)) k"
    by cases (auto simp: handle_set_nodeid_def u32_bytes_def u32_of_bytes_def handle_bits)
qed

lemma handle_nodeid_set_nodeid [simp]: "handle_nodeid (handle_set_nodeid n h) = n"
  by (rule bit_word_eqI) (auto simp: handle_nodeid_def handle_set_nodeid_bits handle_bits)

lemma handle_ctxid_set_nodeid [simp]: "handle_ctxid (handle_set_nodeid n h) = handle_ctxid h"
  by (rule bit_word_eqI) (auto simp: handle_ctxid_def handle_set_nodeid_bits handle_bits)

lemma handle_nodeid_set_ctxid [simp]: "handle_nodeid (handle_set_ctxid c h) = handle_nodeid h"
  by (rule bit_word_eqI) (auto simp: handle_nodeid_def handle_set_ctxid_def handle_bits)

lemma handle_ctxid_set_ctxid [simp]: "handle_ctxid (handle_set_ctxid c h) = c AND 0x00ffffff"
  by (rule bit_word_eqI) (auto simp: handle_ctxid_def handle_set_ctxid_def handle_bits)

lemma handle_id_cqy_handle [simp]: "handle_id (cqy_handle i) = i"
  by (simp add: cqy_handle_def)

lemma cqy_handle_handle_id [simp]: "cqy_handle (handle_id h) = h"
  by (simp add: cqy_handle_def)

lemma handle_node_from [simp]: "handle_node (handle_from n c) = n"
  by (simp add: handle_node_def handle_from_def)

lemma handle_ctxid_from [simp]: "handle_ctxid (handle_from n c) = c AND 0x00ffffff"
  by (simp add: handle_from_def)

lemma handle_id_eqI:
  assumes "handle_nodeid h = handle_nodeid g" "handle_ctxid h = handle_ctxid g"
  shows "handle_id h = handle_id g"
proof (rule bit_word_eqI)
  fix n assume n: "n < LENGTH(32)"
  show "bit (handle_id h) n = bit (handle_id g) n"
  proof (cases "n < 24")
    case True
    have "bit (handle_ctxid h) n = bit (handle_ctxid g) n" using assms(2) by simp
    with True show ?thesis by (simp add: handle_ctxid_def handle_bits)
  next
    case False
    with n have "bit (handle_nodeid h) (n - 24) = bit (handle_nodeid g) (n - 24)" "n - 24 < 8"
      using assms(1) by auto
    with False show ?thesis by (simp add: handle_nodeid_def handle_bits)
  qed
qed

lemma handle_from_parts [simp]: "handle_from (handle_node h) (handle_ctxid h) = h"
proof -
  have "handle_id (handle_from (handle_node h) (handle_ctxid h)) = handle_id h"
  proof (rule handle_id_eqI)
    show "handle_ctxid (handle_from (handle_node h) (handle_ctxid h)) = handle_ctxid h"
      by (simp, rule bit_word_eqI) (auto simp: handle_ctxid_def handle_bits)
    show "handle_nodeid (handle_from (handle_node h) (handle_ctxid h)) = handle_nodeid h"
      using handle_node_from [of "handle_node h" "handle_ctxid h"] by (simp add: handle_node_def)
  qed
  then show ?thesis by simp
qed

text \<open>A context number fits into the handle when it is below \<open>2 ^ 24\<close>.\<close>

definition ctxid_fits :: "u32 \<Rightarrow> bool" where
  "ctxid_fits c \<longleftrightarrow> c < 0x01000000"

lemma ctxid_fits_and: "ctxid_fits c \<longleftrightarrow> c AND 0x00ffffff = c"
proof -
  have m: "(0x00ffffff :: u32) = mask 24"
    by (simp add: mask_eq_exp_minus_1)
  have "ctxid_fits c \<longleftrightarrow> unat c < 2 ^ 24"
    by (simp add: ctxid_fits_def word_less_nat_alt)
  also have "\<dots> \<longleftrightarrow> unat (take_bit 24 c) = unat c"
    by (simp only: unsigned_take_bit_eq take_bit_nat_eq_self_iff)
  also have "\<dots> \<longleftrightarrow> c AND mask 24 = c"
    by (simp only: take_bit_eq_mask word_unat_eq_iff)
  finally show ?thesis
    by (simp only: m)
qed

interpretation handle: packed_pair handle_from handle_node handle_ctxid ctxid_fits
proof
  show "handle_node (handle_from a b) = a" for a b by simp
  show "handle_ctxid (handle_from a b) = b" if "ctxid_fits b" for a b
    using that by (simp add: ctxid_fits_and)
  show "handle_from (handle_node p) (handle_ctxid p) = p" for p by simp
  show "ctxid_fits (handle_ctxid p)" for p
    by (simp add: ctxid_fits_and, rule bit_word_eqI) (auto simp: handle_ctxid_def handle_bits)
qed

section \<open>Properties\<close>

text \<open>A handle is exactly a node number and a 24-bit context number: \<open>from\<close> stores both
  (the context number truncated to 24 bits), \<open>node()\<close> and \<open>ctxid()\<close> read them back,
  every handle is \<open>from\<close> of its parts, and for every node and context number there is one
  handle and no other.\<close>

theorem handle_is_node_and_ctxid:
  "handle_node (handle_from n c) = n
   \<and> handle_ctxid (handle_from n c) = c AND 0x00ffffff
   \<and> handle_from (handle_node h) (handle_ctxid h) = h
   \<and> (\<exists>!g. handle_node g = n \<and> handle_ctxid g = c AND 0x00ffffff)"
proof -
  have "ctxid_fits (c AND 0x00ffffff)"
    by (simp add: ctxid_fits_and and.assoc)
  then show ?thesis
    using handle.parts_unique by simp
qed

text \<open>The setters touch their own field only: writing the context number keeps the node and
  writing the node keeps the context number, so the order \<open>create_ctx\<close> writes them in does
  not matter.\<close>

theorem handle_setters_independent:
  "handle_set_ctxid c (handle_set_nodeid n h) = handle_set_nodeid n (handle_set_ctxid c h)
   \<and> handle_nodeid (handle_set_ctxid c h) = handle_nodeid h
   \<and> handle_ctxid (handle_set_nodeid n h) = handle_ctxid h"
  by (simp add: handle.eq_by_parts [of "handle_set_ctxid c (handle_set_nodeid n h)"] handle_node_def)

end
