(* ===== verification/Cqy_Msg.thy ===== *)
theory Cqy_Msg
  imports Cqy_Handle
begin

text \<open>
  \<open>include/cqy_msg.h\<close> and \<open>src/cqy_msg.cpp\<close>: the wire format. A message is a
  \<open>std::string\<close> (\<open>cqy_str\<close>) whose first 20 bytes are a \<open>cqy_msg_t\<close>; a routed
  message continues with a length byte and the name of the target context, then the
  payload. The accessors of \<open>cqy_msg_t\<close> are pointer arithmetic on that string, so the
  model reads them from the string, and a read outside it is \<^const>\<open>Bad_Access\<close>.
\<close>

section \<open>The header\<close>

record cqy_msg_t =
  msg_from :: u32
  msg_to :: u32
  msg_session :: u32
  msg_len :: u32
  msg_type :: u8
  msg_route :: bool
  msg_response :: bool
  msg_reserved6 :: u8
  msg_reserved2 :: "u8 \<times> u8"

text \<open>\<open>sizeof(cqy_msg_t)\<close>: four 32-bit fields, the type, the bit-field byte, two reserved bytes.\<close>

definition msg_size :: nat where
  "msg_size = 20"

text \<open>\<open>*cmsg = {}\<close>\<close>

definition msg_zero :: cqy_msg_t where
  "msg_zero = \<lparr>msg_from = 0, msg_to = 0, msg_session = 0, msg_len = 0, msg_type = 0,
     msg_route = False, msg_response = False, msg_reserved6 = 0, msg_reserved2 = (0, 0)\<rparr>"

text \<open>The bit-field byte: \<open>route\<close> is bit 0, \<open>response\<close> bit 1, \<open>reserved6\<close> the rest.\<close>

definition flag_byte :: "bool \<Rightarrow> bool \<Rightarrow> u8 \<Rightarrow> u8" where
  "flag_byte route rsp reserved =
     of_bool route OR push_bit 1 (of_bool rsp) OR push_bit 2 (take_bit 6 reserved)"

definition put_msg :: "cqy_msg_t \<Rightarrow> string" where
  "put_msg m =
     put_u32 (msg_from m) @ put_u32 (msg_to m) @ put_u32 (msg_session m) @ put_u32 (msg_len m) @
     map char_of_byte [msg_type m, flag_byte (msg_route m) (msg_response m) (msg_reserved6 m),
       fst (msg_reserved2 m), snd (msg_reserved2 m)]"

definition get_msg :: "string \<Rightarrow> cqy_msg_t" where
  "get_msg s =
     \<lparr>msg_from = get_u32 s 0, msg_to = get_u32 s 4, msg_session = get_u32 s 8, msg_len = get_u32 s 12,
      msg_type = get_u8 s 16,
      msg_route = bit (get_u8 s 17) 0, msg_response = bit (get_u8 s 17) 1,
      msg_reserved6 = drop_bit 2 (get_u8 s 17),
      msg_reserved2 = (get_u8 s 18, get_u8 s 19)\<rparr>"

text \<open>Writing the header over the first bytes of the string.\<close>

definition poke_msg :: "cqy_msg_t \<Rightarrow> string \<Rightarrow> string" where
  "poke_msg m s = put_msg m @ drop msg_size s"

section \<open>Accessors\<close>

text \<open>The characters a \<open>string_view\<close> of \<open>n\<close> bytes at offset \<open>off\<close> denotes.\<close>

definition view_chars :: "string \<Rightarrow> nat \<Rightarrow> nat \<Rightarrow> string result" where
  "view_chars s off n = (if off + n \<le> length s then Inr (take n (drop off s)) else Inl Bad_Access)"

definition read_byte :: "string \<Rightarrow> nat \<Rightarrow> u8 result" where
  "read_byte s i = (if i < length s then Inr (get_u8 s i) else Inl Bad_Access)"

definition msg_name :: "string \<Rightarrow> string result" where
  "msg_name s =
     (if \<not> msg_route (get_msg s) then Inr []
      else bind_result (read_byte s msg_size) (\<lambda>b. view_chars s (msg_size + 1) (unat b)))"

text \<open>\<open>end()\<close>, as an offset into the string.\<close>

definition msg_end :: "string \<Rightarrow> nat" where
  "msg_end s = msg_size + unat (msg_len (get_msg s))"

text \<open>\<open>len - 1 - *b\<close> is computed in \<open>uint32_t\<close>.\<close>

definition msg_buffer :: "string \<Rightarrow> string result" where
  "msg_buffer s =
     (let m = get_msg s
      in if msg_route m
         then bind_result (read_byte s msg_size)
                (\<lambda>b. view_chars s (msg_size + 1 + unat b) (unat (msg_len m - 1 - ucast b)))
         else view_chars s msg_size (unat (msg_len m)))"

section \<open>\<open>cqy_str\<close>\<close>

text \<open>\<open>parse(check)\<close>: a pointer to the header, \<open>nullptr\<close> when a check fails.\<close>

definition msg_parse :: "bool \<Rightarrow> string \<Rightarrow> cqy_msg_t option" where
  "msg_parse check s =
     (let m = get_msg s in
      if check then
        if length s < msg_size then None
        else let sz = length s - msg_size in
          if sz < unat (msg_len m) then None
          else if msg_route m then
            if sz < 1 then None
            else let name_sz = unat (get_u8 s msg_size) in
              if sz < name_sz + 1 then None else Some m
          else Some m
      else Some m)"

text \<open>\<open>make(source, to, session, t, rsp, msgdata)\<close>: resize, copy the payload, fill the header.\<close>

definition msg_make :: "u32 \<Rightarrow> u32 \<Rightarrow> u32 \<Rightarrow> u8 \<Rightarrow> bool \<Rightarrow> string \<Rightarrow> string" where
  "msg_make source to session t rsp msgdata =
     (let s = replicate msg_size (CHR 0x00) @ msgdata
      in poke_msg (msg_zero\<lparr>msg_from := source, msg_to := to, msg_session := session,
           msg_len := word_of_nat (length s - msg_size), msg_response := rsp, msg_type := t\<rparr>) s)"

text \<open>\<open>make(source, nodeto, name, session, t, rsp, msgdata)\<close>: a message routed by name.\<close>

definition msg_make_route :: "u32 \<Rightarrow> u8 \<Rightarrow> string \<Rightarrow> u32 \<Rightarrow> u8 \<Rightarrow> bool \<Rightarrow> string \<Rightarrow> string" where
  "msg_make_route source nodeto name session t rsp msgdata =
     (let s = replicate msg_size (CHR 0x00) @
            [char_of_byte (word_of_nat (length name))] @ name @ msgdata;
          h = handle_set_nodeid nodeto (cqy_handle 0)
      in poke_msg (msg_zero\<lparr>msg_from := source, msg_to := handle_id h, msg_session := session,
           msg_type := t, msg_route := True, msg_response := rsp,
           msg_len := word_of_nat (length s - msg_size)\<rparr>) s)"

section \<open>Layout lemmas\<close>

lemma length_put_msg [simp]: "length (put_msg m) = 20"
  by (simp add: put_msg_def)

lemma bit_flag_byte:
  "bit (flag_byte r p x) 0 = r" "bit (flag_byte r p x) (Suc 0) = p"
  by (auto simp: flag_byte_def bit_simps)

lemma drop_bit_flag_byte: "drop_bit 2 (flag_byte r p x) = take_bit 6 x"
  by (rule bit_word_eqI) (auto simp: flag_byte_def bit_simps)

definition msg_wf :: "cqy_msg_t \<Rightarrow> bool" where
  "msg_wf m \<longleftrightarrow> take_bit 6 (msg_reserved6 m) = msg_reserved6 m"

lemma get_put_msg:
  assumes "msg_wf m"
  shows "get_msg (put_msg m @ rest) = m"
proof -
  let ?s = "put_msg m @ rest"
  have "get_u32 ?s 0 = msg_from m" "get_u32 ?s 4 = msg_to m"
    "get_u32 ?s 8 = msg_session m" "get_u32 ?s 12 = msg_len m"
    by (rule get_put_u32, simp add: put_msg_def, simp)+
  moreover have "get_u8 ?s 16 = msg_type m"
    "get_u8 ?s 17 = flag_byte (msg_route m) (msg_response m) (msg_reserved6 m)"
    "(get_u8 ?s 18, get_u8 ?s 19) = msg_reserved2 m"
    by (simp_all add: get_u8_def put_msg_def nth_append)
  ultimately show ?thesis
    using assms by (simp add: get_msg_def bit_flag_byte drop_bit_flag_byte msg_wf_def)
qed

lemma get_u8_after_header [simp]:
  "get_u8 (put_msg m @ c # rest) msg_size = byte_of_char c"
  by (simp add: get_u8_def msg_size_def nth_append)

lemma msg_make_eq:
  "msg_make source to session t rsp msgdata =
     put_msg (msg_zero\<lparr>msg_from := source, msg_to := to, msg_session := session,
       msg_len := word_of_nat (length msgdata), msg_response := rsp, msg_type := t\<rparr>) @ msgdata"
  by (simp add: msg_make_def poke_msg_def Let_def)

lemma msg_make_route_eq:
  "msg_make_route source nodeto name session t rsp msgdata =
     put_msg (msg_zero\<lparr>msg_from := source,
       msg_to := handle_id (handle_set_nodeid nodeto (cqy_handle 0)), msg_session := session,
       msg_type := t, msg_route := True, msg_response := rsp,
       msg_len := word_of_nat (1 + length name + length msgdata)\<rparr>) @
     char_of_byte (word_of_nat (length name)) # name @ msgdata"
  by (simp add: msg_make_route_def poke_msg_def Let_def)

lemma get_msg_msg_make [simp]:
  "get_msg (msg_make source to session t rsp msgdata) =
     msg_zero\<lparr>msg_from := source, msg_to := to, msg_session := session,
       msg_len := word_of_nat (length msgdata), msg_response := rsp, msg_type := t\<rparr>"
  unfolding msg_make_eq by (rule get_put_msg) (simp add: msg_wf_def msg_zero_def)

lemma get_msg_msg_make_route [simp]:
  "get_msg (msg_make_route source nodeto name session t rsp msgdata) =
     msg_zero\<lparr>msg_from := source,
       msg_to := handle_id (handle_set_nodeid nodeto (cqy_handle 0)), msg_session := session,
       msg_type := t, msg_route := True, msg_response := rsp,
       msg_len := word_of_nat (1 + length name + length msgdata)\<rparr>"
  unfolding msg_make_route_eq by (rule get_put_msg) (simp add: msg_wf_def msg_zero_def)

lemma unat_word_of_nat_u32 [simp]: "n < 2 ^ 32 \<Longrightarrow> unat (word_of_nat n :: u32) = n"
  by (simp add: unat_of_nat)

lemma unat_word_of_nat_u8 [simp]: "n < 256 \<Longrightarrow> unat (word_of_nat n :: u8) = n"
  by (simp add: unat_of_nat)

lemma length_msg_make [simp]:
  "length (msg_make source to session t rsp msgdata) = 20 + length msgdata"
  by (simp add: msg_make_eq)

lemma length_msg_make_route [simp]:
  "length (msg_make_route source nodeto name session t rsp msgdata) = 21 + length name + length msgdata"
  by (simp add: msg_make_route_eq)

lemma name_byte_msg_make_route [simp]:
  "get_u8 (msg_make_route source nodeto name session t rsp msgdata) msg_size = word_of_nat (length name)"
  by (simp add: msg_make_route_eq)

section \<open>Round trips\<close>

lemma view_chars_append:
  "off = length pre \<Longrightarrow> n = length mid \<Longrightarrow> view_chars (pre @ mid @ post) off n = Inr mid"
  by (simp add: view_chars_def)

lemma msg_parse_make:
  "length msgdata < 2 ^ 32 \<Longrightarrow>
   msg_parse True (msg_make source to session t rsp msgdata) =
     Some (get_msg (msg_make source to session t rsp msgdata))"
  by (simp add: msg_parse_def msg_size_def msg_zero_def Let_def)

lemma msg_name_make [simp]: "msg_name (msg_make source to session t rsp msgdata) = Inr []"
  by (simp add: msg_name_def msg_zero_def)

lemma msg_buffer_make:
  assumes "length msgdata < 2 ^ 32"
  shows "msg_buffer (msg_make source to session t rsp msgdata) = Inr msgdata"
  using assms
  by (simp add: msg_buffer_def msg_zero_def msg_size_def view_chars_def Let_def)
     (simp add: msg_make_eq)

lemma msg_parse_make_route:
  assumes "length name < 256" "1 + length name + length msgdata < 2 ^ 32"
  shows "msg_parse True (msg_make_route source nodeto name session t rsp msgdata) =
     Some (get_msg (msg_make_route source nodeto name session t rsp msgdata))"
proof -
  have "unat (word_of_nat (1 + length name + length msgdata) :: u32) = 1 + length name + length msgdata"
    using assms(2) by (rule unat_word_of_nat_u32)
  then show ?thesis
    using assms by (simp add: msg_parse_def msg_zero_def Let_def del: of_nat_add) (simp add: msg_size_def)
qed

lemma read_byte_make_route:
  "read_byte (msg_make_route source nodeto name session t rsp msgdata) msg_size =
     Inr (word_of_nat (length name))"
  by (simp add: read_byte_def) (simp add: msg_size_def)

lemma msg_name_make_route:
  assumes "length name < 256"
  shows "msg_name (msg_make_route source nodeto name session t rsp msgdata) = Inr name"
  using assms
  by (simp add: msg_name_def msg_zero_def read_byte_make_route)
     (simp add: view_chars_def msg_make_route_eq msg_size_def)

lemma route_payload_len:
  assumes "n < 256" "1 + n + k < 2 ^ 32"
  shows "unat ((word_of_nat (1 + n + k) :: u32) - 1 - ucast (word_of_nat n :: u8)) = k"
proof -
  have "ucast (word_of_nat n :: u8) = (word_of_nat n :: u32)"
    using assms by (simp add: word_unat_eq_iff unsigned_ucast_eq unat_of_nat take_bit_nat_eq_self)
  then have "(word_of_nat (1 + n + k) :: u32) - 1 - ucast (word_of_nat n :: u8) = word_of_nat k"
    by simp
  then show ?thesis using assms by simp
qed

lemma msg_buffer_make_route:
  assumes "length name < 256" "1 + length name + length msgdata < 2 ^ 32"
  shows "msg_buffer (msg_make_route source nodeto name session t rsp msgdata) = Inr msgdata"
proof -
  let ?s = "msg_make_route source nodeto name session t rsp msgdata"
  have "msg_buffer ?s =
    view_chars ?s (msg_size + 1 + length name) (length msgdata)"
    using assms route_payload_len [OF assms]
    by (simp add: msg_buffer_def msg_zero_def read_byte_make_route del: of_nat_add)
  also have "\<dots> = Inr msgdata"
    by (simp add: view_chars_def msg_make_route_eq msg_size_def)
  finally show ?thesis .
qed

section \<open>Properties\<close>

text \<open>A message built with \<open>cqy_str::make\<close> for a context id passes the checked parse; its
  header carries exactly the arguments, it is not routed, \<open>name()\<close> is empty and
  \<open>buffer()\<close> is the payload.\<close>

theorem make_roundtrip:
  assumes "length msgdata < 2 ^ 32"
  shows "\<exists>m. msg_parse True (msg_make source to session t rsp msgdata) = Some m \<and>
     msg_from m = source \<and> msg_to m = to \<and> msg_session m = session \<and> msg_type m = t \<and>
     msg_response m = rsp \<and> \<not> msg_route m \<and> unat (msg_len m) = length msgdata \<and>
     msg_name (msg_make source to session t rsp msgdata) = Inr [] \<and>
     msg_buffer (msg_make source to session t rsp msgdata) = Inr msgdata"
  using msg_parse_make [OF assms] msg_buffer_make [OF assms] assms
  by (simp add: msg_zero_def)

theorem make_roundtrip_witness:
  "msg_buffer (msg_make 0x01000001 0x02000002 7 3 True ''hello'') = Inr ''hello''"
  using make_roundtrip [of "''hello''" "0x01000001" "0x02000002" 7 3 True] by auto

text \<open>C14. A message built with \<open>cqy_str::make\<close> for a named context passes the checked parse;
  its target handle holds the node and context number 0, \<open>name()\<close> is the name and
  \<open>buffer()\<close> the payload.\<close>

theorem make_route_roundtrip:
  assumes "length name < 256" "1 + length name + length msgdata < 2 ^ 32"
  shows "\<exists>m. msg_parse True (msg_make_route source nodeto name session t rsp msgdata) = Some m \<and>
     msg_from m = source \<and> handle_node (cqy_handle (msg_to m)) = nodeto \<and>
     handle_ctxid (cqy_handle (msg_to m)) = 0 \<and>
     msg_session m = session \<and> msg_type m = t \<and> msg_response m = rsp \<and> msg_route m \<and>
     msg_name (msg_make_route source nodeto name session t rsp msgdata) = Inr name \<and>
     msg_buffer (msg_make_route source nodeto name session t rsp msgdata) = Inr msgdata"
proof -
  have "handle_ctxid (cqy_handle 0) = 0"
    by (simp add: handle_ctxid_def)
  then show ?thesis
    using msg_parse_make_route [OF assms] msg_buffer_make_route [OF assms] msg_name_make_route [OF assms(1)]
    by (simp add: msg_zero_def handle_node_def)
qed

theorem make_route_roundtrip_witness:
  "msg_name (msg_make_route 0x01000001 2 ''pong'' 1 0 False ''hello'') = Inr ''pong''
   \<and> msg_buffer (msg_make_route 0x01000001 2 ''pong'' 1 0 False ''hello'') = Inr ''hello''"
  using make_route_roundtrip [of "''pong''" "''hello''" "0x01000001" 2 1 0 False] by auto

lemma parse_checked_name:
  assumes "msg_parse True s = Some m"
  shows "\<exists>n. msg_name s = Inr n \<and> length n \<le> 255"
proof (cases "msg_route (get_msg s)")
  case True
  then have "unat (get_u8 s msg_size) + 1 \<le> length s - msg_size" "msg_size < length s"
    using assms by (auto simp: msg_parse_def Let_def split: if_splits)
  then show ?thesis
    using True unat_u8_less [of "get_u8 s msg_size"]
    by (auto simp: msg_name_def read_byte_def view_chars_def)
qed (simp add: msg_name_def)

text \<open>After a successful checked parse the whole extent of the message, up to
  \<open>end()\<close>, lies inside the string, and \<open>name()\<close> reads inside it.\<close>

theorem parse_checked_safe:
  assumes "msg_parse True s = Some m"
  shows "m = get_msg s \<and> msg_end s \<le> length s \<and> (\<exists>n. msg_name s = Inr n \<and> length n \<le> 255)"
proof -
  have len: "msg_size \<le> length s" "unat (msg_len (get_msg s)) \<le> length s - msg_size" "m = get_msg s"
    using assms by (auto simp: msg_parse_def Let_def split: if_splits)
  show ?thesis using len parse_checked_name [OF assms] by (auto simp: msg_end_def)
qed

theorem parse_checked_safe_witness:
  "\<exists>n. msg_name (msg_make_route 1 2 ''pong'' 1 0 False ''hello'') = Inr n \<and> length n \<le> 255"
  using parse_checked_safe [OF msg_parse_make_route [of "''pong''" "''hello''" 1 2 1 0 False]]
  by simp

text \<open>C28. The checked parse does not compare the name with \<open>len\<close>. On a message it accepts (below
  two gigabytes), \<open>buffer()\<close> stays inside the string exactly when the message is not routed
  or \<open>len\<close> covers the length byte and the name; otherwise \<open>len - 1 - *b\<close> wraps around and
  the view extends beyond the string.\<close>

theorem parse_checked_buffer_iff:
  assumes "msg_parse True s = Some m" "length s < 2 ^ 31"
  shows "(\<exists>d. msg_buffer s = Inr d) \<longleftrightarrow>
     \<not> msg_route m \<or> unat (get_u8 s msg_size) + 1 \<le> unat (msg_len m)"
proof (cases "msg_route m")
  case False
  then show ?thesis
    using assms by (auto simp: msg_parse_def msg_buffer_def view_chars_def Let_def split: if_splits)
next
  case True
  let ?b = "get_u8 s msg_size" and ?l = "msg_len m"
  have len: "msg_size < length s" "unat ?l \<le> length s - msg_size" "m = get_msg s"
    using assms True by (auto simp: msg_parse_def Let_def split: if_splits)
  have ub: "unat (ucast ?b :: u32) = unat ?b"
    using unat_u8_less [of ?b] by (simp add: unsigned_ucast_eq take_bit_nat_eq_self)
  have buf: "msg_buffer s = view_chars s (msg_size + 1 + unat ?b) (unat (?l - 1 - ucast ?b))"
    using True len by (simp add: msg_buffer_def read_byte_def)
  have arith: "?l - 1 - ucast ?b = ?l - (1 + ucast ?b)" by simp
  have b1: "unat (1 + ucast ?b :: u32) = 1 + unat ?b"
    using unat_u8_less [of ?b] ub by (simp add: unat_word_ariths)
  show ?thesis
  proof (cases "unat ?b + 1 \<le> unat ?l")
    case le: True
    then have "unat (?l - 1 - ucast ?b) = unat ?l - (1 + unat ?b)"
      unfolding arith using b1 by (simp add: unat_sub word_le_nat_alt)
    then show ?thesis
      using le len True buf by (simp add: view_chars_def)
  next
    case False
    then have "unat ?l < 1 + unat ?b" by simp
    then have "unat (?l - (1 + ucast ?b)) = 2 ^ 32 + unat ?l - (1 + unat ?b)"
      using b1 by (simp add: unat_sub_if_size word_le_nat_alt word_size)
    then have "unat (?l - 1 - ucast ?b) \<ge> 2 ^ 31"
      unfolding arith using unat_u8_less [of ?b] by simp
    then show ?thesis
      using False assms(2) buf True by (simp add: view_chars_def)
  qed
qed

text \<open>An accepted routed message with \<open>len = 0\<close> and a one-byte name.\<close>

definition short_len_msg :: string where
  "short_len_msg = put_msg (msg_zero\<lparr>msg_route := True\<rparr>) @ [CHR 0x01, CHR ''x'']"

lemma get_msg_short_len [simp]: "get_msg short_len_msg = msg_zero\<lparr>msg_route := True\<rparr>"
  unfolding short_len_msg_def by (rule get_put_msg) (simp add: msg_wf_def msg_zero_def)

lemma name_byte_short_len [simp]: "get_u8 short_len_msg msg_size = 1"
  by (simp add: short_len_msg_def byte_of_char_def)

lemma length_short_len [simp]: "length short_len_msg = 22"
  by (simp add: short_len_msg_def)

lemma msg_parse_short_len: "msg_parse True short_len_msg = Some (msg_zero\<lparr>msg_route := True\<rparr>)"
  by (simp add: msg_parse_def Let_def) (simp add: msg_size_def msg_zero_def)

theorem parse_checked_buffer_iff_witness:
  "msg_parse True short_len_msg \<noteq> None \<and> \<not> (\<exists>d. msg_buffer short_len_msg = Inr d)"
  using parse_checked_buffer_iff [OF msg_parse_short_len] msg_parse_short_len
  by (simp add: msg_zero_def)

text \<open>The length byte of a routed message is the name's length modulo 256: \<open>name()\<close> reads
  back only that many characters, so a name of 256 characters or more does not survive (the
  sender's guard, an \<open>assert\<close>, is absent from release builds).\<close>

theorem make_route_name_mod:
  "msg_name (msg_make_route source nodeto name session t rsp msgdata) =
     Inr (take (length name mod 256) name)"
proof -
  have "unat (word_of_nat (length name) :: u8) = length name mod 256"
    by (simp add: unat_of_nat take_bit_eq_mod)
  moreover have "length name mod 256 \<le> length name"
    by simp
  ultimately show ?thesis
    by (simp add: msg_name_def msg_zero_def read_byte_make_route)
       (simp add: view_chars_def msg_make_route_eq msg_size_def)
qed

end
