(* ===== verification/Cqy_Ctx_Mgr.thy ===== *)
theory Cqy_Ctx_Mgr
  imports Cpp_Std Cqy_Handle
begin

text \<open>
  \<open>include/cqy_ctx_mgr.h\<close> and \<open>src/cqy_ctx_mgr.cpp\<close>: the registry of the contexts of one
  application. It allocates context numbers, maps ids to contexts and keeps the vector of
  registered names sorted for binary search. Every operation holds the registry's
  \<open>shared_mutex\<close> for its whole body (\<open>new_id\<close> is one atomic increment), so an
  interleaving of threads is a sequence of the operations below.
\<close>

section \<open>Model\<close>

record cqy_name_id_t =
  nid_name :: string
  nid_id :: u32

text \<open>\<open>ctxs\<close> is an \<open>unordered_map\<close>: an association list with distinct keys, whose order is
  the (unspecified) iteration order.\<close>

record 'c cqy_ctx_mgr_t =
  allocid :: u32
  ctxs :: "(u32 \<times> 'c) list"
  names :: "cqy_name_id_t list"

definition ctx_mgr_init :: "'c cqy_ctx_mgr_t" where
  "ctx_mgr_init = \<lparr>allocid = 0, ctxs = [], names = []\<rparr>"

definition new_id :: "'c cqy_ctx_mgr_t \<Rightarrow> u32 \<times> 'c cqy_ctx_mgr_t" where
  "new_id m = (1 + allocid m, m\<lparr>allocid := allocid m + 1\<rparr>)"

definition get_ctx :: "'c cqy_ctx_mgr_t \<Rightarrow> u32 \<Rightarrow> 'c option" where
  "get_ctx m i = map_of (ctxs m) i"

text \<open>\<open>try_emplace\<close> keeps an existing entry; the flag is what the \<open>assert\<close> looks at.\<close>

definition add_ctx :: "u32 \<Rightarrow> 'c \<Rightarrow> 'c cqy_ctx_mgr_t \<Rightarrow> bool \<times> 'c cqy_ctx_mgr_t" where
  "add_ctx i p m =
     (if i \<in> set (map fst (ctxs m)) then (False, m)
      else (True, m\<lparr>ctxs := ctxs m @ [(i, p)]\<rparr>))"

text \<open>\<open>ranges::find\<close> and \<open>erase\<close>: only the first entry with the id goes.\<close>

fun erase_first_id :: "u32 \<Rightarrow> cqy_name_id_t list \<Rightarrow> cqy_name_id_t list" where
  "erase_first_id i [] = []"
| "erase_first_id i (n # ns) = (if nid_id n = i then ns else n # erase_first_id i ns)"

definition del_ctx :: "u32 \<Rightarrow> 'c cqy_ctx_mgr_t \<Rightarrow> 'c cqy_ctx_mgr_t" where
  "del_ctx i m =
     m\<lparr>ctxs := filter (\<lambda>p. fst p \<noteq> i) (ctxs m), names := erase_first_id i (names m)\<rparr>"

definition collect_ctxids :: "'c cqy_ctx_mgr_t \<Rightarrow> u32 list" where
  "collect_ctxids m = map fst (ctxs m)"

definition register_name :: "string \<Rightarrow> u32 \<Rightarrow> 'c cqy_ctx_mgr_t \<Rightarrow> 'c cqy_ctx_mgr_t result" where
  "register_name nm i m =
     (if binary_search (map nid_name (names m)) nm
      then Inl (Runtime_Error ''name already exists'')
      else Inr (m\<lparr>names := sort_key nid_name (names m @ [\<lparr>nid_name = nm, nid_id = i\<rparr>])\<rparr>))"

definition find_name :: "'c cqy_ctx_mgr_t \<Rightarrow> string \<Rightarrow> u32" where
  "find_name m nm =
     (let it = lower_bound (map nid_name (names m)) nm
      in if it \<noteq> length (names m) \<and> nid_name (names m ! it) = nm
         then nid_id (names m ! it) else 0)"

section \<open>Invariant and abstraction\<close>

definition mgr_inv :: "'c cqy_ctx_mgr_t \<Rightarrow> bool" where
  "mgr_inv m \<longleftrightarrow> distinct (map fst (ctxs m)) \<and> sorted (map nid_name (names m)) \<and>
     distinct (map nid_name (names m))"

text \<open>The name table as a map.\<close>

definition names_of :: "'c cqy_ctx_mgr_t \<Rightarrow> string \<Rightarrow> u32 option" where
  "names_of m = map_of (map (\<lambda>n. (nid_name n, nid_id n)) (names m))"

lemma names_of_Some_iff:
  "distinct (map nid_name ns) \<Longrightarrow>
   map_of (map (\<lambda>n. (nid_name n, nid_id n)) ns) nm = Some i \<longleftrightarrow>
     (\<exists>n \<in> set ns. nid_name n = nm \<and> nid_id n = i)"
  by (subst map_of_eq_Some_iff) (auto simp: comp_def)

lemma dom_names_of: "dom (names_of m) = set (map nid_name (names m))"
  by (simp add: names_of_def dom_map_of_conv_image_fst image_image)

lemma mgr_inv_init [simp]: "mgr_inv ctx_mgr_init"
  by (simp add: mgr_inv_def ctx_mgr_init_def)

lemma mgr_inv_new_id [cqy_inv]: "mgr_inv m \<Longrightarrow> mgr_inv (snd (new_id m))"
  by (simp add: mgr_inv_def new_id_def)

lemma mgr_inv_add_ctx [cqy_inv]: "mgr_inv m \<Longrightarrow> mgr_inv (snd (add_ctx i p m))"
  by (auto simp: mgr_inv_def add_ctx_def)

lemma set_erase_first_id: "set (erase_first_id i ns) \<subseteq> set ns"
  by (induction ns) auto

lemma erase_first_id_names:
  "sorted (map nid_name ns) \<Longrightarrow> sorted (map nid_name (erase_first_id i ns))"
  "distinct (map nid_name ns) \<Longrightarrow> distinct (map nid_name (erase_first_id i ns))"
  using set_erase_first_id by (induction ns) fastforce+

lemma mgr_inv_del_ctx [cqy_inv]: "mgr_inv m \<Longrightarrow> mgr_inv (del_ctx i m)"
  by (simp add: mgr_inv_def del_ctx_def erase_first_id_names distinct_map_filter)

lemma mgr_inv_register_name [cqy_inv]:
  assumes "mgr_inv m" "register_name nm i m = Inr m'"
  shows "mgr_inv m'"
proof -
  let ?ns = "sort_key nid_name (names m @ [\<lparr>nid_name = nm, nid_id = i\<rparr>])"
  have m': "m' = m\<lparr>names := ?ns\<rparr>" and fresh: "nm \<notin> set (map nid_name (names m))"
    using assms by (auto simp: register_name_def binary_search_iff mgr_inv_def split: if_splits)
  have "mset (map nid_name ?ns) = mset (map nid_name (names m) @ [nm])"
    by (simp only: mset_map mset_sort) simp
  then have "distinct (map nid_name ?ns) \<longleftrightarrow> distinct (map nid_name (names m) @ [nm])"
    by (rule mset_eq_imp_distinct_iff)
  then have "distinct (map nid_name ?ns)"
    using assms(1) fresh by (simp add: mgr_inv_def)
  then show ?thesis
    using assms(1) m' by (simp add: mgr_inv_def)
qed

section \<open>What the operations do to the abstraction\<close>

lemma find_name_names_of:
  assumes "mgr_inv m"
  shows "find_name m nm = (case names_of m nm of None \<Rightarrow> 0 | Some i \<Rightarrow> i)"
proof (cases "nm \<in> set (map nid_name (names m))")
  case True
  let ?it = "lower_bound (map nid_name (names m)) nm"
  have s: "sorted (map nid_name (names m))" and d: "distinct (map nid_name (names m))"
    using assms by (simp_all add: mgr_inv_def)
  have it: "?it < length (names m)" "nid_name (names m ! ?it) = nm"
    using lower_bound_found [OF s True] by simp_all
  then have "names_of m nm = Some (nid_id (names m ! ?it))"
    unfolding names_of_def names_of_Some_iff [OF d] by (intro bexI [of _ "names m ! ?it"]) auto
  then show ?thesis
    using it by (simp add: find_name_def Let_def)
next
  case False
  have "\<not> (it < length (names m) \<and> nid_name (names m ! it) = nm)" for it
    using False by auto
  moreover have "lower_bound (map nid_name (names m)) nm \<le> length (names m)"
    using lower_bound_spec(1) [of "map nid_name (names m)" nm] assms by (simp add: mgr_inv_def)
  ultimately have "find_name m nm = 0"
    by (simp add: find_name_def Let_def) (metis le_neq_implies_less)
  moreover have "names_of m nm = None"
    using False dom_names_of [of m] by blast
  ultimately show ?thesis by simp
qed

lemma register_name_cases:
  assumes "mgr_inv m"
  shows "register_name nm i m =
     (if names_of m nm = None
      then Inr (m\<lparr>names := sort_key nid_name (names m @ [\<lparr>nid_name = nm, nid_id = i\<rparr>])\<rparr>)
      else Inl (Runtime_Error ''name already exists''))"
proof -
  have "binary_search (map nid_name (names m)) nm \<longleftrightarrow> nm \<in> dom (names_of m)"
    using assms by (simp add: binary_search_iff mgr_inv_def dom_names_of)
  then show ?thesis by (auto simp: register_name_def)
qed

lemma names_of_register:
  assumes "mgr_inv m" "register_name nm i m = Inr m'"
  shows "names_of m' = (names_of m)(nm \<mapsto> i)"
proof -
  let ?f = "\<lambda>n. (nid_name n, nid_id n)" and ?new = "\<lparr>nid_name = nm, nid_id = i\<rparr>"
  have m': "m' = m\<lparr>names := sort_key nid_name (names m @ [?new])\<rparr>" and "names_of m nm = None"
    using assms by (auto simp: register_name_cases split: if_splits)
  then have fresh: "nm \<notin> set (map nid_name (names m))"
    using dom_names_of by blast
  have "map_of (map ?f (names m')) = map_of (map ?f (?new # names m))"
  proof (rule map_of_inject_set [THEN iffD2])
    show "distinct (map fst (map ?f (names m')))"
      using mgr_inv_register_name [OF assms] by (simp add: mgr_inv_def comp_def)
    show "distinct (map fst (map ?f (?new # names m)))"
      using assms(1) fresh by (simp add: mgr_inv_def comp_def)
    show "set (map ?f (names m')) = set (map ?f (?new # names m))"
      by (simp add: m')
  qed
  then show ?thesis by (simp add: names_of_def)
qed

lemma list_find_Some: "List.find P xs = Some x \<Longrightarrow> x \<in> set xs \<and> P x"
  by (induction xs) (auto split: if_splits)

lemma names_of_del_ctx:
  assumes "mgr_inv m"
  shows "names_of (del_ctx i m) =
    (case List.find (\<lambda>n. nid_id n = i) (names m) of
       None \<Rightarrow> names_of m | Some n \<Rightarrow> (names_of m)(nid_name n := None))"
proof -
  let ?f = "\<lambda>n. (nid_name n, nid_id n)"
  have "map_of (map ?f (erase_first_id i ns)) =
    (case List.find (\<lambda>n. nid_id n = i) ns of
       None \<Rightarrow> map_of (map ?f ns) | Some n \<Rightarrow> (map_of (map ?f ns))(nid_name n := None))"
    if "distinct (map nid_name ns)" for ns
    using that
  proof (induction ns)
    case (Cons n ns)
    then have "nid_name n \<notin> dom (map_of (map ?f ns))"
      by (simp add: dom_map_of_conv_image_fst image_image)
    then have new: "map_of (map ?f ns) (nid_name n) = None" by blast
    show ?case
    proof (cases "nid_id n = i")
      case True
      with new show ?thesis by (simp add: fun_upd_idem)
    next
      case False
      show ?thesis
      proof (cases "List.find (\<lambda>n. nid_id n = i) ns")
        case None
        with False Cons show ?thesis by simp
      next
        case (Some n')
        then have "nid_name n' \<noteq> nid_name n"
          using Cons.prems list_find_Some [OF Some] by (metis distinct.simps(2) image_eqI list.map(2) list.set_map)
        with False Cons Some show ?thesis by (auto simp: fun_eq_iff)
      qed
    qed
  qed simp
  from this [of "names m"] show ?thesis
    using assms unfolding names_of_def by (simp add: del_ctx_def mgr_inv_def)
qed

lemma find_names_of:
  assumes "mgr_inv m" "List.find (\<lambda>n. nid_id n = i) (names m) = Some n"
  shows "names_of m (nid_name n) = Some i"
  using assms names_of_Some_iff [of "names m" "nid_name n" i]
  by (auto simp: names_of_def mgr_inv_def find_Some_iff)

lemma find_None_names_of:
  assumes "mgr_inv m" "List.find (\<lambda>n. nid_id n = i) (names m) = None"
  shows "names_of m nm \<noteq> Some i"
  using assms names_of_Some_iff [of "names m" nm i]
  by (auto simp: names_of_def mgr_inv_def find_None_iff)

lemma names_of_del_ctx_sub:
  "mgr_inv m \<Longrightarrow> names_of (del_ctx i m) n = Some j \<Longrightarrow> names_of m n = Some j"
  by (auto simp: names_of_del_ctx split: option.splits if_splits)

lemma names_of_del_ctx_keeps:
  assumes "mgr_inv m" "names_of m n = Some j" "j \<noteq> i"
  shows "names_of (del_ctx i m) n = Some j"
proof (cases "List.find (\<lambda>n. nid_id n = i) (names m)")
  case None
  with assms show ?thesis by (simp add: names_of_del_ctx)
next
  case (Some x)
  with find_names_of [OF assms(1) Some] assms(2,3) have "n \<noteq> nid_name x" by auto
  with Some assms show ?thesis by (simp add: names_of_del_ctx)
qed

lemma names_of_del_ctx_drops:
  assumes "mgr_inv m" "names_of m n = Some i" "\<forall>k. names_of m k = Some i \<longrightarrow> k = n"
  shows "names_of (del_ctx i m) n = None"
proof (cases "List.find (\<lambda>n. nid_id n = i) (names m)")
  case None
  with find_None_names_of [OF assms(1) None] assms(2) show ?thesis by simp
next
  case (Some x)
  with find_names_of [OF assms(1) Some] assms(3) have "nid_name x = n" by simp
  with Some assms(1) show ?thesis by (simp add: names_of_del_ctx)
qed

text \<open>The entry that goes is the one with the smallest name.\<close>

lemma find_least_name:
  assumes "mgr_inv m" "List.find (\<lambda>n. nid_id n = i) (names m) = Some n" "names_of m nm = Some i"
  shows "nid_name n \<le> nm"
proof -
  have d: "distinct (map nid_name (names m))" and s: "sorted (map nid_name (names m))"
    using assms(1) by (simp_all add: mgr_inv_def)
  obtain k where k: "k < length (names m)" "names m ! k = n" "\<forall>j < k. nid_id (names m ! j) \<noteq> i"
    using assms(2) by (auto simp: find_Some_iff)
  from assms(3) obtain l where l: "l < length (names m)" "nid_name (names m ! l) = nm" "nid_id (names m ! l) = i"
    using names_of_Some_iff [OF d, of nm i] by (auto simp: names_of_def in_set_conv_nth)
  have "k \<le> l" using k(3) l(3) by (rule_tac leI) blast
  then show ?thesis
    using sorted_nth_mono [OF s, of k l] k l by simp
qed

section \<open>The registry interface\<close>

text \<open>
  What the application relies on when it resolves a context by name. \<open>lookup\<close> is the
  abstract table; \<open>find\<close> is the operation the code calls, which answers 0 for "no such
  name".
\<close>

locale name_registry =
  fixes inv :: "'m \<Rightarrow> bool"
    and lookup :: "'m \<Rightarrow> string \<Rightarrow> u32 option"
    and register :: "string \<Rightarrow> u32 \<Rightarrow> 'm \<Rightarrow> 'm result"
    and find :: "'m \<Rightarrow> string \<Rightarrow> u32"
    and unregister :: "u32 \<Rightarrow> 'm \<Rightarrow> 'm"
  assumes register_free: "inv m \<Longrightarrow> lookup m n = None \<Longrightarrow>
      \<exists>m'. register n i m = Inr m' \<and> inv m' \<and> lookup m' = (lookup m)(n \<mapsto> i)"
    and register_taken: "inv m \<Longrightarrow> lookup m n \<noteq> None \<Longrightarrow>
      register n i m = Inl (Runtime_Error ''name already exists'')"
    and find_lookup: "inv m \<Longrightarrow> find m n = (case lookup m n of None \<Rightarrow> 0 | Some i \<Rightarrow> i)"
    and inv_unregister: "inv m \<Longrightarrow> inv (unregister i m)"
    and unregister_keeps: "inv m \<Longrightarrow> lookup m n = Some j \<Longrightarrow> j \<noteq> i \<Longrightarrow> lookup (unregister i m) n = Some j"
    and unregister_sub: "inv m \<Longrightarrow> lookup (unregister i m) n = Some j \<Longrightarrow> lookup m n = Some j"
    and unregister_drops: "inv m \<Longrightarrow> lookup m n = Some i \<Longrightarrow> \<forall>k. lookup m k = Some i \<longrightarrow> k = n \<Longrightarrow>
      lookup (unregister i m) n = None"
begin

lemma register_iff:
  assumes "inv m"
  shows "(\<exists>m'. register n i m = Inr m') \<longleftrightarrow> lookup m n = None"
  using register_free [OF assms, of n i] register_taken [OF assms, of n i] by (cases "lookup m n") auto

lemma register_lookup:
  assumes "inv m" "register n i m = Inr m'"
  shows "inv m'" "lookup m n = None" "lookup m' = (lookup m)(n \<mapsto> i)"
proof -
  show "lookup m n = None" using assms register_iff by blast
  from register_free [OF assms(1) this, of i] assms(2)
  show "inv m'" "lookup m' = (lookup m)(n \<mapsto> i)" by auto
qed

lemma find_registered:
  assumes "inv m" "register n i m = Inr m'"
  shows "find m' k = (if k = n then i else find m k)"
  using register_lookup [OF assms] assms(1) by (simp add: find_lookup)

lemma find_unregistered:
  assumes "inv m" "lookup m n = Some i" "\<forall>k. lookup m k = Some i \<longrightarrow> k = n"
  shows "find (unregister i m) k = (if k = n then 0 else find m k)"
proof (cases "k = n")
  case True
  then show ?thesis
    using unregister_drops [OF assms] inv_unregister [OF assms(1)] by (simp add: find_lookup)
next
  case False
  have "lookup (unregister i m) k = lookup m k"
  proof (cases "lookup m k")
    case None
    then show ?thesis using unregister_sub [OF assms(1), of i k] by (cases "lookup (unregister i m) k") auto
  next
    case (Some j)
    with False assms(3) have "j \<noteq> i" by auto
    with Some show ?thesis using unregister_keeps [OF assms(1)] by simp
  qed
  with False assms(1) inv_unregister [OF assms(1)] show ?thesis by (simp add: find_lookup)
qed

lemma register_again:
  assumes "inv m" "lookup m n = Some i" "\<forall>k. lookup m k = Some i \<longrightarrow> k = n"
  shows "\<exists>m'. register n j (unregister i m) = Inr m'"
  using register_iff [OF inv_unregister [OF assms(1)]] unregister_drops [OF assms] by simp

end

interpretation registry: name_registry mgr_inv names_of register_name find_name del_ctx
proof
  fix m :: "'a cqy_ctx_mgr_t" and n i j
  assume inv: "mgr_inv m"
  show "\<exists>m'. register_name n i m = Inr m' \<and> mgr_inv m' \<and> names_of m' = (names_of m)(n \<mapsto> i)"
    if "names_of m n = None"
  proof -
    have "\<exists>m'. register_name n i m = Inr m'"
      using that inv by (simp add: register_name_cases)
    then show ?thesis
      using mgr_inv_register_name [OF inv] names_of_register [OF inv] by blast
  qed
  show "register_name n i m = Inl (Runtime_Error ''name already exists'')" if "names_of m n \<noteq> None"
    using that inv by (simp add: register_name_cases)
  show "find_name m n = (case names_of m n of None \<Rightarrow> 0 | Some i \<Rightarrow> i)"
    using inv by (rule find_name_names_of)
  show "mgr_inv (del_ctx i m)"
    using inv by (rule mgr_inv_del_ctx)
  show "names_of (del_ctx i m) n = Some j" if "names_of m n = Some j" "j \<noteq> i"
    using inv that by (rule names_of_del_ctx_keeps)
  show "names_of m n = Some j" if "names_of (del_ctx i m) n = Some j"
    using inv that by (rule names_of_del_ctx_sub)
  show "names_of (del_ctx i m) n = None"
    if "names_of m n = Some i" "\<forall>k. names_of m k = Some i \<longrightarrow> k = n"
    using inv that by (rule names_of_del_ctx_drops)
qed

section \<open>Sequences of operations\<close>

text \<open>One atomic operation of some thread; a registration that throws changes nothing.\<close>

datatype 'c mgr_op = Op_new_id | Op_add u32 'c | Op_del u32 | Op_register string u32

fun mgr_step :: "'c cqy_ctx_mgr_t \<Rightarrow> 'c mgr_op \<Rightarrow> 'c cqy_ctx_mgr_t" where
  "mgr_step m Op_new_id = snd (new_id m)"
| "mgr_step m (Op_add i p) = snd (add_ctx i p m)"
| "mgr_step m (Op_del i) = del_ctx i m"
| "mgr_step m (Op_register n i) = (case register_name n i m of Inl e \<Rightarrow> m | Inr m' \<Rightarrow> m')"

lemma mgr_step_inv: "mgr_inv m \<Longrightarrow> mgr_inv (mgr_step m op)"
  by (cases op) (auto intro: cqy_inv split: sum.split)

fun new_ids :: "nat \<Rightarrow> 'c cqy_ctx_mgr_t \<Rightarrow> u32 list \<times> 'c cqy_ctx_mgr_t" where
  "new_ids 0 m = ([], m)"
| "new_ids (Suc n) m =
     (case new_id m of (i, m') \<Rightarrow> case new_ids n m' of (is, m'') \<Rightarrow> (i # is, m''))"

lemma new_ids_eq:
  "fst (new_ids n m) = map (\<lambda>k. allocid m + word_of_nat k + 1) [0..<n]"
proof (induction n arbitrary: m)
  case (Suc n)
  have "[0..<Suc n] = 0 # map Suc [0..<n]"
    by (simp add: map_Suc_upt upt_conv_Cons del: upt_Suc)
  then show ?case
    using Suc [of "m\<lparr>allocid := allocid m + 1\<rparr>"]
    by (simp add: new_id_def case_prod_beta comp_def algebra_simps del: upt_Suc)
qed simp

lemma find_ctx_after_add:
  assumes "get_ctx m i = None"
  shows "get_ctx (snd (add_ctx i p m)) j = (if j = i then Some p else get_ctx m j)"
proof -
  have "i \<notin> set (map fst (ctxs m))"
    using assms by (simp add: get_ctx_def map_of_eq_None_iff)
  then show ?thesis
    using assms by (auto simp: get_ctx_def add_ctx_def map_add_def split: option.split)
qed

lemma get_ctx_del: "get_ctx (del_ctx i m) j = (if j = i then None else get_ctx m j)"
proof -
  have "map_of (filter (\<lambda>p. fst p \<noteq> i) xs) j = (if j = i then None else map_of xs j)" for xs :: "(u32 \<times> 'a) list"
    by (induction xs) auto
  then show ?thesis by (simp add: get_ctx_def del_ctx_def)
qed

section \<open>Properties\<close>

text \<open>Whatever sequence of operations the threads of an application perform, starting from the
  empty registry, context ids stay unique keys and the name vector stays sorted without
  duplicates, which is what the binary searches of \<open>register_name\<close> and \<open>find_name\<close> need.\<close>

theorem mgr_invariant: "mgr_inv (foldl mgr_step ctx_mgr_init ops)"
proof (induction ops rule: rev_induct)
  case Nil
  then show ?case by simp
next
  case (snoc op ops)
  then show ?case by (simp add: mgr_step_inv)
qed

text \<open>A name that was registered is found with its id, and every other name is found as
  before.\<close>

theorem find_name_after_register:
  assumes "mgr_inv m" "register_name n i m = Inr m'"
  shows "find_name m' k = (if k = n then i else find_name m k)"
  using assms by (rule registry.find_registered)

definition example_mgr :: "unit cqy_ctx_mgr_t" where
  "example_mgr = \<lparr>allocid = 2, ctxs = [(1, ()), (2, ())],
     names = [\<lparr>nid_name = ''ping'', nid_id = 1\<rparr>, \<lparr>nid_name = ''pong'', nid_id = 1\<rparr>]\<rparr>"

lemma example_mgr_inv: "mgr_inv example_mgr"
  by (simp add: mgr_inv_def example_mgr_def)

theorem find_name_after_register_witness:
  "\<exists>m'. register_name ''gate'' 2 example_mgr = Inr m' \<and> find_name m' ''gate'' = 2 \<and>
     find_name m' ''pong'' = find_name example_mgr ''pong''"
proof -
  have "\<exists>m'. register_name ''gate'' 2 example_mgr = Inr m'"
    unfolding registry.register_iff [OF example_mgr_inv] by (simp add: names_of_def example_mgr_def)
  then obtain m' where m': "register_name ''gate'' 2 example_mgr = Inr m'" ..
  show ?thesis
    using m' find_name_after_register [OF example_mgr_inv m'] by simp
qed

text \<open>Registering a name throws \<open>name already exists\<close> exactly when the name is taken, and
  succeeds otherwise.\<close>

theorem register_name_throws_iff:
  assumes "mgr_inv m"
  shows "register_name n i m = Inl (Runtime_Error ''name already exists'') \<longleftrightarrow> names_of m n \<noteq> None"
  using registry.register_iff [OF assms, of n i] registry.register_taken [OF assms, of n i]
  by (cases "names_of m n") auto

theorem register_name_throws_iff_witness:
  "register_name ''ping'' 2 example_mgr = Inl (Runtime_Error ''name already exists'')"
  unfolding register_name_throws_iff [OF example_mgr_inv] by (simp add: names_of_def example_mgr_def)

text \<open>\<open>del_ctx\<close> removes the context and no other; when the context had one registered name,
  that name is free again (it is found no more and can be registered anew) and no other name is
  affected.\<close>

theorem del_ctx_forgets:
  assumes "mgr_inv m" "names_of m n = Some i" "\<forall>k. names_of m k = Some i \<longrightarrow> k = n"
  shows "get_ctx (del_ctx i m) j = (if j = i then None else get_ctx m j) \<and>
     find_name (del_ctx i m) k = (if k = n then 0 else find_name m k) \<and>
     (\<exists>m'. register_name n l (del_ctx i m) = Inr m')"
  using get_ctx_del registry.find_unregistered [OF assms] registry.register_again [OF assms] by blast

theorem del_ctx_forgets_witness:
  "find_name (del_ctx 2 (example_mgr\<lparr>names := [\<lparr>nid_name = ''a'', nid_id = 2\<rparr>]\<rparr>)) ''a'' = 0"
proof -
  let ?m = "example_mgr\<lparr>names := [\<lparr>nid_name = ''a'', nid_id = 2\<rparr>]\<rparr>"
  have inv: "mgr_inv ?m"
    by (simp add: mgr_inv_def example_mgr_def)
  have nm: "names_of ?m = [''a'' \<mapsto> 2]"
    by (simp add: names_of_def)
  have "find_name (del_ctx 2 ?m) ''a'' = (if ''a'' = ''a'' then 0 else find_name ?m ''a'')"
    by (rule del_ctx_forgets [OF inv, THEN conjunct2, THEN conjunct1]) (auto simp: nm split: if_splits)
  then show ?thesis by (simp only: if_True refl)
qed

text \<open>\<open>del_ctx\<close> erases one name only: of several names registered for a context the
  smallest goes, and every other one still resolves to the id of the removed context.\<close>

theorem del_ctx_leaves_other_names:
  assumes "mgr_inv m" "names_of m a = Some i" "names_of m b = Some i" "a < b"
  shows "find_name (del_ctx i m) b = i \<and> get_ctx (del_ctx i m) i = None"
proof -
  obtain n where n: "List.find (\<lambda>n. nid_id n = i) (names m) = Some n"
    using find_None_names_of [OF assms(1), of i a] assms(2) by (meson not_None_eq)
  have "nid_name n < b"
    using find_least_name [OF assms(1) n assms(2)] assms(4) by simp
  then have "names_of (del_ctx i m) b = Some i"
    using n assms(3) by (simp add: names_of_del_ctx [OF assms(1)])
  then show ?thesis
    using mgr_inv_del_ctx [OF assms(1)] by (simp add: registry.find_lookup get_ctx_del)
qed

theorem del_ctx_leaves_other_names_witness:
  "find_name (del_ctx 1 example_mgr) ''pong'' = 1 \<and> get_ctx (del_ctx 1 example_mgr) 1 = None"
  using del_ctx_leaves_other_names [OF example_mgr_inv, of "''ping''" 1 "''pong''"]
  by (simp add: names_of_def example_mgr_def)

text \<open>The first \<open>2 ^ 24 - 1\<close> contexts of an application get pairwise different handles, all
  with a context number other than 0; the next one gets context number 0.\<close>

theorem new_ids_distinct_handles:
  assumes "n < 2 ^ 24" "allocid m = 0"
  shows "distinct (map (handle_from nid) (fst (new_ids n m))) \<and>
     0 \<notin> set (map handle_ctxid (map (handle_from nid) (fst (new_ids n m)))) \<and>
     handle_ctxid (handle_from nid (fst (new_id (m\<lparr>allocid := 0x00ffffff\<rparr>)))) = 0"
proof -
  define f where "f = (\<lambda>k. word_of_nat k + 1 :: u32)"
  have ids: "fst (new_ids n m) = map f [0..<n]"
    by (simp add: new_ids_eq f_def assms(2))
  have u: "unat (f k) = k + 1" if "k < n" for k
    using that assms by (simp add: f_def unat_word_ariths unat_of_nat)
  have fits: "ctxid_fits (f k)" if "k < n" for k
    using u [OF that] that assms by (simp add: ctxid_fits_def word_less_nat_alt)
  have inj: "inj_on (\<lambda>k. handle_from nid (f k)) {0..<n}"
    by (rule inj_onI) (metis atLeastLessThan_iff fits handle.pack_eq_iff u add_right_cancel)
  have "handle_ctxid (handle_from nid (f k)) \<noteq> 0" if "k < n" for k
    using handle.lo_pack [OF fits [OF that]] u [OF that] by auto
  moreover have "handle_ctxid (handle_from nid 0x01000000) = 0"
    by simp
  ultimately show ?thesis
    using inj by (auto simp: ids distinct_map comp_def new_id_def inj_on_def)
qed

theorem new_ids_distinct_handles_witness:
  "distinct (map (handle_from 1) (fst (new_ids 3 (ctx_mgr_init :: unit cqy_ctx_mgr_t))))"
  using new_ids_distinct_handles [of 3 "ctx_mgr_init :: unit cqy_ctx_mgr_t" 1]
  by (simp add: ctx_mgr_init_def)


section \<open>The registry refines two maps\<close>

text \<open>What a client of the registry can see: two maps and a counter. Deleting a context takes the first of its names, in the
  order of strings, out of the map.\<close>

record 'c registry_spec =
  rg_alloc :: u32
  rg_ctxs :: "u32 \<rightharpoonup> 'c"
  rg_names :: "string \<rightharpoonup> u32"

definition mgr_abs :: "'c cqy_ctx_mgr_t \<Rightarrow> 'c registry_spec" where
  "mgr_abs m = \<lparr>rg_alloc = allocid m, rg_ctxs = get_ctx m, rg_names = names_of m\<rparr>"

datatype 'c mgr_call = Do "'c mgr_op" | Find_name string | Get_ctx u32

datatype 'c mgr_out = Out_id u32 | Out_added bool | Out_none | Out_registered "unit result" | Out_found u32 | Out_ctx "'c option"

fun mgr_do :: "'c mgr_call \<Rightarrow> 'c cqy_ctx_mgr_t \<Rightarrow> 'c mgr_out \<times> 'c cqy_ctx_mgr_t" where
  "mgr_do (Do Op_new_id) m = (Out_id (fst (new_id m)), snd (new_id m))"
| "mgr_do (Do (Op_add i p)) m = (Out_added (fst (add_ctx i p m)), snd (add_ctx i p m))"
| "mgr_do (Do (Op_del i)) m = (Out_none, del_ctx i m)"
| "mgr_do (Do (Op_register n i)) m =
     (case register_name n i m of Inl e \<Rightarrow> (Out_registered (Inl e), m) | Inr m' \<Rightarrow> (Out_registered (Inr ()), m'))"
| "mgr_do (Find_name n) m = (Out_found (find_name m n), m)"
| "mgr_do (Get_ctx i) m = (Out_ctx (get_ctx m i), m)"

fun spec_do :: "'c mgr_call \<Rightarrow> 'c registry_spec \<Rightarrow> 'c mgr_out \<times> 'c registry_spec" where
  "spec_do (Do Op_new_id) r = (Out_id (rg_alloc r + 1), r\<lparr>rg_alloc := rg_alloc r + 1\<rparr>)"
| "spec_do (Do (Op_add i p)) r =
     (if rg_ctxs r i = None then (Out_added True, r\<lparr>rg_ctxs := (rg_ctxs r)(i \<mapsto> p)\<rparr>) else (Out_added False, r))"
| "spec_do (Do (Op_del i)) r =
     (Out_none,
      r\<lparr>rg_ctxs := (rg_ctxs r)(i := None),
        rg_names := (if \<exists>n. rg_names r n = Some i then (rg_names r)(Min {n. rg_names r n = Some i} := None) else rg_names r)\<rparr>)"
| "spec_do (Do (Op_register n i)) r =
     (if rg_names r n = None then (Out_registered (Inr ()), r\<lparr>rg_names := (rg_names r)(n \<mapsto> i)\<rparr>)
      else (Out_registered (Inl (Runtime_Error ''name already exists'')), r))"
| "spec_do (Find_name n) r = (Out_found (case rg_names r n of None \<Rightarrow> 0 | Some i \<Rightarrow> i), r)"
| "spec_do (Get_ctx i) r = (Out_ctx (rg_ctxs r i), r)"

lemma find_first_is_Min:
  assumes "sorted (map nid_name ns)" "distinct (map nid_name ns)" "List.find (\<lambda>n. nid_id n = i) ns = Some e"
  shows "Min {n. map_of (map (\<lambda>n. (nid_name n, nid_id n)) ns) n = Some i} = nid_name e"
proof (rule Min_eqI)
  let ?S = "{n. map_of (map (\<lambda>n. (nid_name n, nid_id n)) ns) n = Some i}"
  have S: "?S = nid_name ` {n \<in> set ns. nid_id n = i}"
    using names_of_Some_iff [OF assms(2)] by auto
  show "finite ?S" unfolding S by simp
  show "nid_name e \<in> ?S" using list_find_Some [OF assms(3)] unfolding S by auto
  show "nid_name e \<le> y" if "y \<in> ?S" for y
    using that assms(1,3) unfolding S by (induction ns) (auto split: if_splits)
qed

lemma names_of_del_Min:
  assumes "mgr_inv m"
  shows "names_of (del_ctx i m) =
    (if \<exists>n. names_of m n = Some i then (names_of m)(Min {n. names_of m n = Some i} := None) else names_of m)"
proof (cases "List.find (\<lambda>n. nid_id n = i) (names m)")
  case None
  with find_None_names_of [OF assms None] show ?thesis using names_of_del_ctx [OF assms, of i] by auto
next
  case (Some e)
  have "names_of m (nid_name e) = Some i"
    using list_find_Some [OF Some] names_of_Some_iff [of "names m"] assms by (auto simp: names_of_def mgr_inv_def)
  then show ?thesis
    using names_of_del_ctx [OF assms, of i] Some find_first_is_Min [of "names m" i e] assms by (auto simp: mgr_inv_def names_of_def)
qed

text \<open>One call: same answer, and the states stay related.\<close>

lemma mgr_do_refines:
  assumes "mgr_inv m"
  shows "spec_do c (mgr_abs m) = (fst (mgr_do c m), mgr_abs (snd (mgr_do c m))) \<and> mgr_inv (snd (mgr_do c m))"
proof (cases c)
  case (Do op)
  show ?thesis
  proof (cases op)
    case Op_new_id
    with Do assms show ?thesis by (auto simp: mgr_abs_def new_id_def get_ctx_def names_of_def mgr_inv_def fun_eq_iff)
  next
    case (Op_add i p)
    have "get_ctx m i = None \<longleftrightarrow> i \<notin> set (map fst (ctxs m))" by (simp add: get_ctx_def map_of_eq_None_iff)
    then show ?thesis
      using Do Op_add assms find_ctx_after_add [of m i p] mgr_inv_add_ctx [OF assms, of i p]
      by (cases "get_ctx m i") (auto simp: mgr_abs_def add_ctx_def names_of_def fun_eq_iff)
  next
    case (Op_del i)
    with Do assms show ?thesis
      by (auto simp: mgr_abs_def names_of_del_Min get_ctx_del fun_eq_iff mgr_inv_del_ctx) (simp_all add: del_ctx_def)
  next
    case (Op_register n i)
    then show ?thesis
      using Do assms names_of_register [OF assms, of n i] mgr_inv_register_name [OF assms, of n i] register_name_cases [OF assms, of n i]
      by (cases "names_of m n") (auto simp: mgr_abs_def get_ctx_def fun_eq_iff)
  qed
qed (use assms find_name_names_of [OF assms] in \<open>simp_all add: mgr_abs_def\<close>)

fun mgr_run :: "'c mgr_call list \<Rightarrow> 'c cqy_ctx_mgr_t \<Rightarrow> 'c mgr_out list" where
  "mgr_run [] m = []"
| "mgr_run (c # cs) m = (case mgr_do c m of (x, m') \<Rightarrow> x # mgr_run cs m')"

fun spec_run :: "'c mgr_call list \<Rightarrow> 'c registry_spec \<Rightarrow> 'c mgr_out list" where
  "spec_run [] r = []"
| "spec_run (c # cs) r = (case spec_do c r of (x, r') \<Rightarrow> x # spec_run cs r')"

lemma mgr_run_refines: "mgr_inv m \<Longrightarrow> mgr_run cs m = spec_run cs (mgr_abs m)"
proof (induction cs arbitrary: m)
  case (Cons c cs)
  with mgr_do_refines [OF Cons.prems, of c] show ?case by (auto split: prod.split)
qed simp

text \<open>C12. Refinement: whatever sequence of calls a client makes, the sorted vector with binary search and the hash table answer exactly
  as two maps and a counter do.\<close>

theorem registry_refines_maps:
  "mgr_run cs ctx_mgr_init = spec_run cs \<lparr>rg_alloc = 0, rg_ctxs = Map.empty, rg_names = Map.empty\<rparr>"
proof -
  have "mgr_inv ctx_mgr_init" by simp
  from mgr_run_refines [OF this, of cs] show ?thesis
    by (simp add: mgr_abs_def ctx_mgr_init_def get_ctx_def [abs_def] names_of_def)
qed

end
