(* ===== verification/Cqy_Rpc.thy ===== *)
theory Cqy_Rpc
  imports Cpp_Std
begin

text \<open>
  The RPC plumbing of \<open>include/cqy_utils.h\<close>: the result that travels back
  (\<open>rpc_result_t\<close>), the wrapper that decodes parameters, calls the registered member function
  and encodes what it returns (\<open>rpc_call_func\<close>), and the encoding of the arguments on the
  caller's side (\<open>rpc_encode\<close>). Serialization is struct\_pack, which is not part of the
  repository: \<open>ser\<close> and \<open>deser\<close> are arguments of the definitions.
\<close>

section \<open>Model\<close>

text \<open>\<open>char status\<close> is a byte; -1, -2, -3 and -4 are the failures the library reports.\<close>

record rpc_result_t =
  rr_status :: u8
  rr_res :: string

definition rpc_result_zero :: rpc_result_t where
  "rpc_result_zero = \<lparr>rr_status = 0, rr_res = []\<rparr>"

definition has_error :: "rpc_result_t \<Rightarrow> bool" where
  "has_error r \<longleftrightarrow> rr_status r \<noteq> 0"

definition has_value :: "rpc_result_t \<Rightarrow> bool" where
  "has_value r \<longleftrightarrow> rr_status r = 0"

text \<open>\<open>as<R>()\<close>: \<open>deser\<close> is \<open>struct_pack::deserialize_to\<close> for \<open>R\<close> (\<open>Inl\<close> its error message), \<open>tyname\<close>
  is \<open>typeid(R).name()\<close>.\<close>

definition rpc_as :: "string \<Rightarrow> (string \<Rightarrow> string + 'r) \<Rightarrow> rpc_result_t \<Rightarrow> 'r result" where
  "rpc_as tyname deser r =
     (if \<not> has_value r
      then Inl (Runtime_Error (''as type:'' @ tyname @ '' error:'' @ int_to_string (sint (rr_status r))
             @ '' msg:'' @ rr_res r))
      else (case deser (rr_res r) of Inl msg \<Rightarrow> Inl (Runtime_Error msg) | Inr x \<Rightarrow> Inr x))"

text \<open>
  A registered member function by the shape of its signature (\<open>if constexpr\<close> chooses the branch
  on it): with or without a return value, with or without parameters. \<open>'s\<close> is the state the
  function acts on; a function that throws gives \<open>Inl\<close>.
\<close>

datatype ('p, 'r, 's) rpc_func =
    Void_void "'s \<Rightarrow> unit result \<times> 's"
  | Void_param "'p \<Rightarrow> 's \<Rightarrow> unit result \<times> 's"
  | Ret_void "'s \<Rightarrow> 'r result \<times> 's"
  | Ret_param "'p \<Rightarrow> 's \<Rightarrow> 'r result \<times> 's"

definition ret_status0 :: "(string \<times> 's) \<Rightarrow> rpc_result_t result \<times> 's" where
  "ret_status0 os = (Inr \<lparr>rr_status = 0, rr_res = fst os\<rparr>, snd os)"

text \<open>\<open>co_await\<close> on the function: its exception leaves \<open>rpc_call_func\<close>, otherwise \<open>out\<close> is filled.\<close>

definition finish_call :: "('r \<Rightarrow> string) \<Rightarrow> 'r result \<times> 's \<Rightarrow> rpc_result_t result \<times> 's" where
  "finish_call out rs =
     (case rs of (Inl e, s) \<Rightarrow> (Inl e, s) | (Inr x, s) \<Rightarrow> ret_status0 (out x, s))"

fun rpc_call_func ::
  "(string \<Rightarrow> 'p option) \<Rightarrow> ('r \<Rightarrow> string) \<Rightarrow> ('p, 'r, 's) rpc_func \<Rightarrow> string \<Rightarrow> 's \<Rightarrow> rpc_result_t result \<times> 's"
where
  "rpc_call_func deser ser (Void_void f) str s = finish_call (\<lambda>_. []) (f s)"
| "rpc_call_func deser ser (Void_param f) str s =
     (case deser str of
        None \<Rightarrow> (Inr \<lparr>rr_status = -3, rr_res = []\<rparr>, s)
      | Some args \<Rightarrow> finish_call (\<lambda>_. []) (f args s))"
| "rpc_call_func deser ser (Ret_void f) str s = finish_call ser (f s)"
| "rpc_call_func deser ser (Ret_param f) str s =
     (case deser str of
        None \<Rightarrow> (Inr \<lparr>rr_status = -3, rr_res = []\<rparr>, s)
      | Some args \<Rightarrow> finish_call ser (f args s))"

text \<open>\<open>rpc_encode\<close>: no arguments leave the buffer empty; \<open>ser\<close> is \<open>struct_pack::serialize_to\<close> of the
  arguments, each converted to the declared parameter type.\<close>

definition rpc_encode :: "('p \<Rightarrow> string) \<Rightarrow> 'p option \<Rightarrow> string" where
  "rpc_encode ser args = (case args of None \<Rightarrow> [] | Some a \<Rightarrow> ser a)"

section \<open>Properties\<close>

text \<open>A call reaches the function with the caller's arguments and the caller decodes what the
  function returned, provided the serializer reads back what it writes: \<open>rpc_encode\<close>,
  \<open>rpc_call_func\<close> and \<open>as\<close> compose to the plain function call.\<close>

theorem rpc_call_roundtrip:
  assumes "deser (ser args) = Some args" "f args s = (Inr x, s')" "rdeser (rser x) = Inr x"
  shows "\<exists>res. rpc_call_func deser rser (Ret_param f) (rpc_encode ser (Some args)) s = (Inr res, s') \<and>
     has_value res \<and> rpc_as tyname rdeser res = Inr x"
  using assms by (simp add: rpc_encode_def finish_call_def ret_status0_def rpc_as_def has_value_def)

theorem rpc_call_roundtrip_witness:
  "\<exists>res. rpc_call_func (\<lambda>s. Some s) int_to_string (Ret_param (\<lambda>p s. (Inr (int (length p)), s + 1)))
       (rpc_encode (\<lambda>s. s) (Some ''hello'')) (0 :: nat) = (Inr res, 1) \<and>
     has_value res \<and> rpc_as ''m'' (\<lambda>t. case from_chars 0 65535 t of Inl _ \<Rightarrow> Inl ''err'' | Inr (n, _) \<Rightarrow> Inr n) res = Inr 5"
proof (rule rpc_call_roundtrip)
  show "(case from_chars 0 65535 (int_to_string 5) of Inl _ \<Rightarrow> Inl ''err'' | Inr (n, _) \<Rightarrow> Inr n) = Inr (5::int)"
    using from_chars_int_to_string [of 0 5 65535 "[]"] by simp
qed simp_all

text \<open>Parameters that do not decode give status -3 with an empty result; the function is not
  called and the state is unchanged.\<close>

theorem rpc_bad_params:
  assumes "deser str = None"
  shows "rpc_call_func deser ser (Ret_param f) str s = (Inr \<lparr>rr_status = -3, rr_res = []\<rparr>, s) \<and>
     rpc_call_func deser ser (Void_param g) str s = (Inr \<lparr>rr_status = -3, rr_res = []\<rparr>, s) \<and>
     has_error \<lparr>rr_status = -3, rr_res = []\<rparr>"
  using assms by (simp add: has_error_def)

theorem rpc_bad_params_witness:
  "rpc_call_func (\<lambda>_. None) (\<lambda>x. x) (Ret_param (\<lambda>p s. (Inr p, s + 1))) ''junk'' (0 :: nat)
     = (Inr \<lparr>rr_status = -3, rr_res = []\<rparr>, 0)"
  by (rule rpc_bad_params [THEN conjunct1]) simp

end
