(* ===== verification/Cqy_Node.thy ===== *)
theory Cqy_Node
  imports Cqy_Queue Cpp_Std
begin

text \<open>
  \<open>include/cqy_node.h\<close> and \<open>src/cqy_node.cpp\<close>: the peers of an application. Each peer has its
  configuration, a queue of outgoing messages and a client connection; the coroutine
  \<open>node_mq_spawn\<close> takes the queued messages in batches and sends each batch until the peer
  acknowledges it. A \<open>sptr<node_t>\<close> is the index of the node in the vector \<open>nodes\<close>, which only
  grows. The RPC server and client are coro\_rpc: the outcome of a call is an input of the model.
\<close>

section \<open>Model\<close>

record node_info =
  info_name :: string
  info_ip :: string
  info_nodeid :: u32
  info_port :: int

text \<open>\<open>rpc_client\<close> is the address of the connection pool, \<open>None\<close> for a null pointer.\<close>

record node_t =
  nd_info :: node_info
  nd_queue :: "string cqy_cv_queue_t"
  nd_client :: "string option"

record cqy_node_t =
  self_nodeid :: u8
  nd_server :: "(u32 \<times> int) option"
  nodes :: "node_t list"

definition node_init :: cqy_node_t where
  "node_init = \<lparr>self_nodeid = 0, nd_server = None, nodes = []\<rparr>"

definition check_self :: "cqy_node_t \<Rightarrow> u8 \<Rightarrow> bool" where
  "check_self n i \<longleftrightarrow> self_nodeid n = i"

text \<open>The comparison is between the configured \<open>uint32_t\<close> and the promoted \<open>uint8_t\<close>.\<close>

definition get_node :: "cqy_node_t \<Rightarrow> u8 \<Rightarrow> nat option" where
  "get_node n i = index_of (\<lambda>d. info_nodeid (nd_info d) = ucast i) (nodes n)"

definition get_node_name :: "cqy_node_t \<Rightarrow> string \<Rightarrow> nat option" where
  "get_node_name n nm =
     (if nm = [] then get_node n (self_nodeid n)
      else index_of (\<lambda>d. info_name (nd_info d) = nm) (nodes n))"

text \<open>\<open>create_client\<close> also schedules \<open>node_mq_spawn(id)\<close>; the second component is its argument, the
  configured id cut down to \<open>uint8_t\<close>.\<close>

definition create_client :: "node_info \<Rightarrow> cqy_node_t \<Rightarrow> cqy_node_t \<times> u8" where
  "create_client info n =
     (n\<lparr>nodes := nodes n @ [\<lparr>nd_info = info, nd_queue = queue_init,
          nd_client = Some (info_ip info @ '':'' @ int_to_string (info_port info))\<rparr>]\<rparr>,
      ucast (info_nodeid info))"

definition create_rpc_server :: "u32 \<Rightarrow> node_info \<Rightarrow> cqy_node_t \<Rightarrow> cqy_node_t" where
  "create_rpc_server thread info n =
     n\<lparr>nd_server := Some (thread, info_port info), self_nodeid := ucast (info_nodeid info),
       nodes := nodes n @ [\<lparr>nd_info = info, nd_queue = queue_init, nd_client = None\<rparr>]\<rparr>"

text \<open>\<open>rpc_server_start()\<close> uses the server without a check; what the server does is not part of the model. \<open>rpc_server_close()\<close>:
  whether there is a server to stop.\<close>

definition rpc_server_start :: "cqy_node_t \<Rightarrow> unit result" where
  "rpc_server_start n = (case nd_server n of None \<Rightarrow> Inl Bad_Access | Some _ \<Rightarrow> Inr ())"

definition rpc_server_close :: "cqy_node_t \<Rightarrow> bool" where
  "rpc_server_close n \<longleftrightarrow> nd_server n \<noteq> None"

lemma rpc_server_started [simp]:
  "nd_server n = Some s \<Longrightarrow> rpc_server_start n = Inr ()" "rpc_server_start (create_rpc_server thread info n) = Inr ()"
  by (simp_all add: rpc_server_start_def create_rpc_server_def)

text \<open>\<open>shutdown()\<close>: stop every queue and drop every client.\<close>

definition shutdown_one :: "node_t \<Rightarrow> node_t" where
  "shutdown_one d = d\<lparr>nd_queue := snd (q_shutdown (nd_queue d)), nd_client := None\<rparr>"

definition node_shutdown :: "cqy_node_t \<Rightarrow> cqy_node_t" where
  "node_shutdown n = n\<lparr>nodes := map shutdown_one (nodes n)\<rparr>"

subsection \<open>The sender loop\<close>

datatype send_result = Conn_Error | Remote_Error | Sent

text \<open>The suspension points of \<open>node_mq_spawn\<close>: the loop head, inside \<open>pop_all\<close>, inside
  \<open>send_request\<close>; \<open>MQ_null\<close> is the call through a null \<open>rpc_client\<close>.\<close>

datatype mq_pc = MQ_head | MQ_pop | MQ_send | MQ_done | MQ_null

record mq_loop =
  mq_at :: mq_pc
  mq_msgs :: "string list"
  mq_warn :: u64

definition mq_init :: mq_loop where
  "mq_init = \<lparr>mq_at = MQ_head, mq_msgs = [], mq_warn = 1024\<rparr>"

definition warn_update :: "nat \<Rightarrow> u64 \<Rightarrow> u64" where
  "warn_update cur_size w = (if cur_size \<ge> unat w then w * 2 else max (w div 2) 1024)"

text \<open>One step of the loop, given the outcome of a \<open>send_request\<close> should the step complete one; the
  last component is the batch sent in this step. \<open>None\<close>: suspended in \<open>pop_all\<close>, or finished.\<close>

definition mq_step :: "send_result \<Rightarrow> node_t \<Rightarrow> mq_loop \<Rightarrow> (node_t \<times> mq_loop \<times> string list option) option" where
  "mq_step r d l =
     (case mq_at l of
        MQ_head \<Rightarrow>
          (if q_stop (nd_queue d) then Some (d, l\<lparr>mq_at := MQ_done\<rparr>, None)
           else Some (d, l\<lparr>mq_warn := warn_update (q_size (nd_queue d)) (mq_warn l),
                           mq_at := (if mq_msgs l = [] then MQ_pop else MQ_send)\<rparr>, None))
      | MQ_pop \<Rightarrow>
          (case q_pop_all (nd_queue d) of
             None \<Rightarrow> None
           | Some (ms, q') \<Rightarrow>
               Some (d\<lparr>nd_queue := q'\<rparr>,
                     l\<lparr>mq_msgs := ms, mq_at := (if ms = [] then MQ_done else MQ_send)\<rparr>, None))
      | MQ_send \<Rightarrow>
          (if nd_client d = None then Some (d, l\<lparr>mq_at := MQ_null\<rparr>, None)
           else Some (d, l\<lparr>mq_msgs := (if r = Sent then [] else mq_msgs l), mq_at := MQ_head\<rparr>,
                      Some (mq_msgs l)))
      | _ \<Rightarrow> None)"

subsection \<open>A peer at work\<close>

text \<open>
  The loop beside the threads that push messages and the thread that shuts the node down.
  \<open>accepted\<close> lists the messages that entered the queue, \<open>wire\<close> the batches sent with their outcome.
\<close>

record peer =
  p_node :: node_t
  p_loop :: mq_loop
  accepted :: "string list"
  wire :: "(string list \<times> send_result) list"

datatype peer_event = Ev_push string | Ev_shutdown | Ev_loop send_result

definition peer_init :: "node_info \<Rightarrow> peer" where
  "peer_init info =
     \<lparr>p_node = last (nodes (fst (create_client info node_init))), p_loop = mq_init, accepted = [], wire = []\<rparr>"

fun peer_step :: "peer_event \<Rightarrow> peer \<Rightarrow> peer" where
  "peer_step (Ev_push m) p =
     p\<lparr>p_node := (p_node p)\<lparr>nd_queue := q_push m (nd_queue (p_node p))\<rparr>,
       accepted := (if q_stop (nd_queue (p_node p)) then accepted p else accepted p @ [m])\<rparr>"
| "peer_step Ev_shutdown p = p\<lparr>p_node := shutdown_one (p_node p)\<rparr>"
| "peer_step (Ev_loop r) p =
     (case mq_step r (p_node p) (p_loop p) of
        None \<Rightarrow> p
      | Some (d, l, sent) \<Rightarrow>
          p\<lparr>p_node := d, p_loop := l,
            wire := (case sent of None \<Rightarrow> wire p | Some b \<Rightarrow> wire p @ [(b, r)])\<rparr>)"

definition peer_run :: "peer_event list \<Rightarrow> peer \<Rightarrow> peer" where
  "peer_run = fold peer_step"

text \<open>The messages of the batches the peer acknowledged.\<close>

definition acked :: "(string list \<times> send_result) list \<Rightarrow> string list" where
  "acked w = concat (map fst (filter (\<lambda>(b, r). r = Sent) w))"

section \<open>Lookup\<close>

lemma get_node_first:
  "get_node n i = Some k \<Longrightarrow> k < length (nodes n) \<and> info_nodeid (nd_info (nodes n ! k)) = ucast i"
  by (simp add: get_node_def index_of_Some_iff)

lemma get_node_None:
  "get_node n i = None \<longleftrightarrow> (\<forall>d \<in> set (nodes n). info_nodeid (nd_info d) \<noteq> ucast i)"
  by (simp add: get_node_def index_of_None_iff)

lemma ucast_u8_u32 [simp]: "(ucast (ucast (i :: u8) :: u32) :: u8) = i"
  by (rule bit_word_eqI) (simp add: bit_simps)

lemma get_node_nodes_cong:
  "map nd_info (nodes n) = map nd_info (nodes n') \<Longrightarrow> get_node n i = get_node n' i"
  by (simp add: get_node_def flip: index_of_map [of "\<lambda>x. info_nodeid x = ucast i" nd_info])

section \<open>Invariant of the sender loop\<close>

lemmas mq_defs = mq_step_def queue_defs

definition peer_inv :: "peer \<Rightarrow> bool" where
  "peer_inv p \<longleftrightarrow>
     accepted p = acked (wire p) @ mq_msgs (p_loop p) @ q_items (nd_queue (p_node p)) \<and>
     (mq_at (p_loop p) = MQ_pop \<longrightarrow> mq_msgs (p_loop p) = []) \<and>
     (mq_at (p_loop p) = MQ_send \<longrightarrow> mq_msgs (p_loop p) \<noteq> []) \<and>
     (nd_client (p_node p) = None \<longleftrightarrow> q_stop (nd_queue (p_node p))) \<and>
     (mq_at (p_loop p) = MQ_done \<or> mq_at (p_loop p) = MQ_null \<longrightarrow> q_stop (nd_queue (p_node p)))"

lemma acked_simps [simp]:
  "acked [] = []"
  "acked (w @ [(b, r)]) = acked w @ (if r = Sent then b else [])"
  by (simp_all add: acked_def)

lemma peer_inv_init: "peer_inv (peer_init info)"
  by (simp add: peer_inv_def peer_init_def mq_init_def create_client_def node_init_def queue_init_def)

lemma peer_inv_step:
  assumes "peer_inv p"
  shows "peer_inv (peer_step e p)"
proof (cases e)
  case (Ev_push m)
  with assms show ?thesis by (auto simp: peer_inv_def q_push_def)
next
  case Ev_shutdown
  with assms show ?thesis by (auto simp: peer_inv_def shutdown_one_def q_shutdown_def)
next
  case (Ev_loop r)
  with assms show ?thesis
    by (cases "mq_at (p_loop p)")
      (auto simp: peer_inv_def mq_defs split: option.splits if_splits)
qed

interpretation mq_inv: step_invariant peer_step peer_inv "\<lambda>_. True"
  by unfold_locales (rule peer_inv_step)

lemma peer_inv_run: "peer_inv p \<Longrightarrow> peer_inv (peer_run es p)"
  unfolding peer_run_def by (rule mq_inv.inv_fold) simp_all

text \<open>A batch that was not acknowledged is the next batch sent.\<close>

fun retry_ok :: "(string list \<times> send_result) list \<Rightarrow> bool" where
  "retry_ok ((b, r) # (b', r') # w) = ((r \<noteq> Sent \<longrightarrow> b' = b) \<and> retry_ok ((b', r') # w))"
| "retry_ok _ = True"

lemma retry_ok_snoc:
  "retry_ok (w @ [(b, r)]) \<longleftrightarrow> retry_ok w \<and> (w \<noteq> [] \<and> snd (last w) \<noteq> Sent \<longrightarrow> b = fst (last w))"
  by (induction w rule: retry_ok.induct) auto

definition retry_inv :: "peer \<Rightarrow> bool" where
  "retry_inv p \<longleftrightarrow> retry_ok (wire p) \<and> mq_at (p_loop p) \<noteq> MQ_pop \<and>
     (wire p \<noteq> [] \<and> snd (last (wire p)) \<noteq> Sent \<longrightarrow> mq_msgs (p_loop p) = fst (last (wire p)) \<and> mq_msgs (p_loop p) \<noteq> [])
   \<or> retry_ok (wire p) \<and> mq_at (p_loop p) = MQ_pop \<and> (wire p = [] \<or> snd (last (wire p)) = Sent)"

lemma retry_inv_step:
  assumes "peer_inv p" "retry_inv p"
  shows "retry_inv (peer_step e p)"
proof (cases e)
  case (Ev_loop r)
  show ?thesis
  proof (cases "mq_at (p_loop p)")
    case MQ_head
    with Ev_loop assms show ?thesis by (auto simp: retry_inv_def mq_step_def)
  next
    case MQ_pop
    with Ev_loop assms show ?thesis by (auto simp: retry_inv_def mq_step_def split: option.splits)
  next
    case MQ_send
    with Ev_loop assms show ?thesis
      by (auto simp: retry_inv_def peer_inv_def mq_step_def retry_ok_snoc)
  qed (use Ev_loop assms in \<open>auto simp: retry_inv_def mq_step_def\<close>)
qed (use assms in \<open>auto simp: retry_inv_def\<close>)

interpretation mq_retry: step_invariant peer_step "\<lambda>p. peer_inv p \<and> retry_inv p" "\<lambda>_. True"
  by unfold_locales (simp add: peer_inv_step retry_inv_step del: peer_step.simps)

lemma retry_inv_run: "peer_inv p \<Longrightarrow> retry_inv p \<Longrightarrow> retry_inv (peer_run es p)"
  using mq_retry.inv_fold [of p es] by (simp add: peer_run_def)

text \<open>How many steps of the loop with successful calls are left until nothing is pending.\<close>

definition pending :: "peer \<Rightarrow> string list" where
  "pending p = mq_msgs (p_loop p) @ q_items (nd_queue (p_node p))"

definition rank :: "peer \<Rightarrow> nat" where
  "rank p =
     (if pending p = [] then 0
      else let more = (if q_items (nd_queue (p_node p)) = [] then 0 else 3) in
        case mq_at (p_loop p) of
          MQ_send \<Rightarrow> 1 + more
        | MQ_head \<Rightarrow> (if mq_msgs (p_loop p) = [] then 3 else 2 + more)
        | _ \<Rightarrow> 2)"

lemma rank_le_5: "rank p \<le> 5"
  by (simp add: rank_def Let_def split: mq_pc.split)

lemma rank_zero: "rank p = 0 \<Longrightarrow> pending p = []"
  by (auto simp: rank_def Let_def split: if_splits mq_pc.splits)

lemma rank_step:
  assumes "peer_inv p" "\<not> q_stop (nd_queue (p_node p))"
  shows "rank (peer_step (Ev_loop Sent) p) \<le> rank p - 1 \<and>
    \<not> q_stop (nd_queue (p_node (peer_step (Ev_loop Sent) p))) \<and>
    accepted (peer_step (Ev_loop Sent) p) = accepted p"
proof (cases "mq_at (p_loop p)")
  case MQ_head
  with assms show ?thesis by (simp add: rank_def pending_def mq_step_def)
next
  case MQ_pop
  with assms have "mq_msgs (p_loop p) = []" by (simp add: peer_inv_def)
  with MQ_pop assms show ?thesis
    by (cases "q_items (nd_queue (p_node p))") (simp_all add: rank_def pending_def mq_step_def q_pop_all_def q_ready_def)
next
  case MQ_send
  with assms have m: "mq_msgs (p_loop p) \<noteq> []" by (simp add: peer_inv_def)
  from assms obtain c where "nd_client (p_node p) = Some c"
    by (cases "nd_client (p_node p)") (simp_all add: peer_inv_def)
  with MQ_send m assms(2) show ?thesis by (simp add: rank_def pending_def mq_step_def)
qed (use assms in \<open>simp_all add: peer_inv_def\<close>)

lemma rank_zero_run:
  assumes "peer_inv p" "\<not> q_stop (nd_queue (p_node p))" "rank p \<le> n"
  shows "peer_inv (peer_run (replicate n (Ev_loop Sent)) p) \<and>
    rank (peer_run (replicate n (Ev_loop Sent)) p) = 0 \<and>
    accepted (peer_run (replicate n (Ev_loop Sent)) p) = accepted p"
  using assms
proof (induction n arbitrary: p)
  case (Suc n)
  let ?p = "peer_step (Ev_loop Sent) p"
  have inv: "peer_inv ?p" by (rule peer_inv_step [OF Suc.prems(1)])
  from rank_step [OF Suc.prems(1,2)] Suc.prems(3)
  have r: "rank ?p \<le> n" and q: "\<not> q_stop (nd_queue (p_node ?p))" and a: "accepted ?p = accepted p"
    by (auto simp del: peer_step.simps)
  show ?case
    using Suc.IH [OF inv q r] a by (simp add: peer_run_def del: peer_step.simps)
qed (simp add: peer_run_def)

section \<open>Properties\<close>

text \<open>C6. However pushes, shutdown and the sender loop interleave and whatever the calls return, the
  messages accepted for a peer are, in order: those in acknowledged batches, those of the batch
  being sent, those still queued. Nothing accepted is lost, reordered or acknowledged twice.\<close>

theorem node_mq_no_loss:
  "accepted (peer_run es (peer_init info)) =
     acked (wire (peer_run es (peer_init info))) @ mq_msgs (p_loop (peer_run es (peer_init info))) @
     q_items (nd_queue (p_node (peer_run es (peer_init info))))"
  using peer_inv_run [OF peer_inv_init] by (simp add: peer_inv_def)

text \<open>A batch whose call failed, by a connection error or an error of the remote side, is sent
  again unchanged before any other batch.\<close>

theorem node_mq_retries: "retry_ok (wire (peer_run es (peer_init info)))"
  using retry_inv_run [OF peer_inv_init, of info es]
  by (auto simp: retry_inv_def peer_init_def mq_init_def)

text \<open>While the node is not shut down, every accepted message is delivered as soon as the peer
  answers: at most five steps of the loop with successful calls leave nothing pending, from every
  state the peer can be in.\<close>

theorem node_mq_drains:
  assumes "\<not> q_stop (nd_queue (p_node (peer_run es (peer_init info))))"
  shows "acked (wire (peer_run (replicate 5 (Ev_loop Sent)) (peer_run es (peer_init info)))) =
     accepted (peer_run es (peer_init info))"
proof -
  define p where "p = peer_run es (peer_init info)"
  have "peer_inv p" "\<not> q_stop (nd_queue (p_node p))"
    using assms peer_inv_run [OF peer_inv_init] by (simp_all add: p_def)
  from rank_zero_run [OF this rank_le_5] have
    "accepted (peer_run (replicate 5 (Ev_loop Sent)) p) = acked (wire (peer_run (replicate 5 (Ev_loop Sent)) p))"
    "accepted (peer_run (replicate 5 (Ev_loop Sent)) p) = accepted p"
    by (auto simp: peer_inv_def pending_def dest: rank_zero)
  then show ?thesis by (simp add: p_def)
qed

definition n2_info :: node_info where
  "n2_info = \<lparr>info_name = ''n2'', info_ip = ''127.0.0.1'', info_nodeid = 2, info_port = 8889\<rparr>"

lemmas peer_run_simps = peer_run_def peer_init_def n2_info_def mq_init_def create_client_def
  node_init_def shutdown_one_def mq_defs

theorem node_mq_drains_witness:
  "acked (wire (peer_run (replicate 5 (Ev_loop Sent)) (peer_run [Ev_push ''hello''] (peer_init n2_info)))) =
     [''hello'']"
proof -
  have "\<not> q_stop (nd_queue (p_node (peer_run [Ev_push ''hello''] (peer_init n2_info))))"
    by (simp add: peer_run_simps)
  from node_mq_drains [OF this] show ?thesis
    by (simp add: peer_run_simps)
qed

text \<open>A shutdown that arrives together with a message while the loop is suspended in \<open>pop_all\<close>
  makes the loop call through the \<open>rpc_client\<close> pointer that \<open>shutdown\<close> has just reset:
  \<open>pop_all\<close> returns the message of the stopped queue, and the loop does not look at \<open>stop\<close> again
  before it sends.\<close>

theorem node_shutdown_null_client:
  "mq_at (p_loop (peer_run [Ev_loop r, Ev_push m, Ev_shutdown, Ev_loop r, Ev_loop r] (peer_init info))) = MQ_null"
  by (simp add: peer_run_simps)

text \<open>The sender coroutine of a new client works on that client exactly when the configured node
  id fits into a byte and no earlier node has it: \<open>node_mq_spawn\<close> takes the id as \<open>uint8_t\<close> and
  looks the node up again.\<close>

theorem create_client_spawns_own_loop_iff:
  "get_node (fst (create_client info n)) (snd (create_client info n)) = Some (length (nodes n)) \<longleftrightarrow>
     info_nodeid info < 256 \<and> (\<forall>d \<in> set (nodes n). info_nodeid (nd_info d) \<noteq> info_nodeid info)"
proof -
  define u where "u = (ucast (ucast (info_nodeid info) :: u8) :: u32)"
  have fits: "u = info_nodeid info \<longleftrightarrow> info_nodeid info < 256"
  proof -
    have "u = take_bit 8 (info_nodeid info)"
      unfolding u_def by (rule bit_word_eqI) (auto simp: bit_simps)
    moreover have "take_bit 8 (info_nodeid info) = info_nodeid info \<longleftrightarrow> unat (info_nodeid info) < 2 ^ 8"
      by (simp only: word_unat_eq_iff unsigned_take_bit_eq take_bit_nat_eq_self_iff)
    ultimately show ?thesis by (simp add: word_less_nat_alt)
  qed
  have g: "get_node (fst (create_client info n)) (snd (create_client info n)) =
    (case index_of (\<lambda>d. info_nodeid (nd_info d) = u) (nodes n) of
       Some k \<Rightarrow> Some k | None \<Rightarrow> (if info_nodeid info = u then Some (length (nodes n)) else None))"
    by (simp add: get_node_def create_client_def index_of_append u_def split: option.split)
  show ?thesis
  proof (cases "index_of (\<lambda>d. info_nodeid (nd_info d) = u) (nodes n)")
    case None
    then have "\<forall>d \<in> set (nodes n). info_nodeid (nd_info d) \<noteq> u"
      by (simp only: index_of_None_iff simp_thms)
    with fits show ?thesis
      by (cases "info_nodeid info = u") (auto simp: g None)
  next
    case (Some k)
    then have k: "k < length (nodes n)" "info_nodeid (nd_info (nodes n ! k)) = u"
      by (simp_all add: index_of_Some_iff)
    then have "\<not> (info_nodeid info < 256 \<and> (\<forall>d \<in> set (nodes n). info_nodeid (nd_info d) \<noteq> info_nodeid info))"
      using fits nth_mem [OF k(1)] by fastforce
    then show ?thesis
      unfolding g Some using k(1) by simp
  qed
qed

theorem create_client_spawns_own_loop_iff_witness:
  "get_node (fst (create_client (n2_info\<lparr>info_nodeid := 258\<rparr>) (fst (create_client n2_info node_init))))
     (snd (create_client (n2_info\<lparr>info_nodeid := 258\<rparr>) (fst (create_client n2_info node_init)))) \<noteq> Some 1"
  using create_client_spawns_own_loop_iff [of "n2_info\<lparr>info_nodeid := 258\<rparr>" "fst (create_client n2_info node_init)"]
  by (simp add: create_client_def node_init_def)

text \<open>The warning threshold of the sender loop stays at 1024 or above and does not wrap around,
  for queues of fewer than \<open>2 ^ 63\<close> messages.\<close>

theorem warn_size_bound:
  assumes "1024 \<le> w" "cur_size < 2 ^ 63"
  shows "1024 \<le> warn_update cur_size w"
proof (cases "cur_size \<ge> unat w")
  case True
  with assms have "unat (w * 2) = unat w * 2"
    by (simp add: unat_word_ariths)
  with True assms show ?thesis
    by (simp add: warn_update_def word_le_nat_alt)
next
  case False
  then show ?thesis by (simp add: warn_update_def)
qed

theorem warn_size_bound_witness: "1024 \<le> warn_update 5000 1024"
  by (rule warn_size_bound) simp_all

end
