(* ===== verification/Cqy_App.thy ===== *)
theory Cqy_App
  imports Cqy_Algo Cqy_Msg Cqy_Ctx_Mgr Cqy_Rpc Cqy_Node "HOL-Library.AList"
begin

text \<open>
  \<open>include/cqy_app.h\<close> and \<open>src/cqy_app.cpp\<close>: one application, that is its configuration, its
  context registry, its peers and the contexts themselves, with the parts of a context the
  application calls (\<open>attach_init\<close>, \<open>node_push_msg\<close>, \<open>rpc_on_call\<close>, \<open>shutdown\<close>).

  A \<open>sptr<cqy_ctx>\<close> is an index into the store \<open>ap_objs\<close>, which only grows: a context no pointer
  refers to any more stays there unused. A context holds the state \<open>'u\<close> of its derived class; the
  virtual \<open>on_init\<close> and the registered functions \<open>'f\<close> are arguments of the operations that call
  them. Logging is left out.
\<close>

section \<open>State\<close>

record config_t =
  cfg_nodeid :: u8
  cfg_thread :: u32
  cfg_nodes :: "node_info list"
  cfg_bootstrap :: string

text \<open>The initializers of \<open>config_t\<close>; \<open>hw\<close> is \<open>std::thread::hardware_concurrency()\<close>.\<close>

definition config_default :: "u32 \<Rightarrow> config_t" where
  "config_default hw = \<lparr>cfg_nodeid = 1, cfg_thread = hw, cfg_nodes = [], cfg_bootstrap = []\<rparr>"

text \<open>\<open>cx_router\<close>: each entry has the template argument \<open>muli\<close> and the member function.\<close>

record ('u, 'f) cqy_ctx_t =
  cx_id :: u32
  cx_session :: u32
  cx_queue :: "string cqy_cv_queue_t"
  cx_router :: "(string \<times> bool \<times> 'f) list"
  cx_user :: 'u

record ('u, 'f) cqy_app_t =
  ap_bstop :: bool
  ap_config :: config_t
  ap_mgr :: "nat cqy_ctx_mgr_t"
  ap_node :: cqy_node_t
  ap_creator :: "(string \<times> 'u) list"
  ap_objs :: "('u, 'f) cqy_ctx_t list"
  ap_receivers :: "nat list"
  ap_senders :: "u8 list"

text \<open>\<open>ap_receivers\<close> and \<open>ap_senders\<close> list the coroutines scheduled so far: \<open>wait_msg_spawn\<close> of a
  context and \<open>node_mq_spawn\<close> of a node id.\<close>

definition app_init :: "config_t \<Rightarrow> ('u, 'f) cqy_app_t" where
  "app_init cfg =
     \<lparr>ap_bstop = False, ap_config = cfg, ap_mgr = ctx_mgr_init, ap_node = node_init, ap_creator = [],
      ap_objs = [], ap_receivers = [], ap_senders = []\<rparr>"

text \<open>\<open>load_config\<close>: \<open>from_json\<close> is \<open>iguana::from_json_file\<close>, which reads the file into the configuration it is given (members
  the file does not mention keep their values) or throws; \<open>cwd\<close> is the current directory.\<close>

type_synonym json_reader = "config_t \<Rightarrow> string \<Rightarrow> unit result \<times> config_t"

definition load_config :: "json_reader \<Rightarrow> string \<Rightarrow> string \<Rightarrow> ('u, 'f) cqy_app_t \<Rightarrow> unit result \<times> ('u, 'f) cqy_app_t" where
  "load_config from_json cwd file a =
     (case from_json (ap_config a) (path_append cwd file) of (r, cfg) \<Rightarrow> (r, a\<lparr>ap_config := cfg\<rparr>))"

text \<open>\<open>new T{}\<close>, with the initial state of the derived class.\<close>

definition ctx_new :: "'u \<Rightarrow> ('u, 'f) cqy_ctx_t" where
  "ctx_new u = \<lparr>cx_id = 0, cx_session = 0, cx_queue = queue_init, cx_router = [], cx_user = u\<rparr>"

definition upd_obj ::
  "nat \<Rightarrow> (('u, 'f) cqy_ctx_t \<Rightarrow> ('u, 'f) cqy_ctx_t) \<Rightarrow> ('u, 'f) cqy_app_t \<Rightarrow> ('u, 'f) cqy_app_t" where
  "upd_obj p f a = a\<lparr>ap_objs := (ap_objs a)[p := f (ap_objs a ! p)]\<rparr>"

section \<open>What the application calls of a context\<close>

definition attach_init :: "nat \<Rightarrow> u32 \<Rightarrow> ('u, 'f) cqy_app_t \<Rightarrow> ('u, 'f) cqy_app_t" where
  "attach_init p i = upd_obj p (\<lambda>c. c\<lparr>cx_id := i\<rparr>)"

definition node_push_msg :: "nat \<Rightarrow> string \<Rightarrow> ('u, 'f) cqy_app_t \<Rightarrow> ('u, 'f) cqy_app_t" where
  "node_push_msg p msg = upd_obj p (\<lambda>c. c\<lparr>cx_queue := q_push msg (cx_queue c)\<rparr>)"

definition ctx_shutdown :: "nat \<Rightarrow> ('u, 'f) cqy_app_t \<Rightarrow> ('u, 'f) cqy_app_t" where
  "ctx_shutdown p = upd_obj p (\<lambda>c. c\<lparr>cx_queue := snd (q_shutdown (cx_queue c))\<rparr>)"

text \<open>Running the registered function \<open>f\<close> of the context \<open>p\<close> is an argument: \<open>exec muli f p param\<close>.
  The flag of the result is the \<open>bool\<close> that \<open>rpc_on_call\<close> returns, the second part is \<open>result\<close>.\<close>

type_synonym ('u, 'f) rpc_exec =
  "bool \<Rightarrow> 'f \<Rightarrow> nat \<Rightarrow> string \<Rightarrow> ('u, 'f) cqy_app_t \<Rightarrow> rpc_result_t result \<times> ('u, 'f) cqy_app_t"

definition rpc_on_call ::
  "('u, 'f) rpc_exec \<Rightarrow> nat \<Rightarrow> string \<Rightarrow> string \<Rightarrow> rpc_result_t \<Rightarrow> ('u, 'f) cqy_app_t \<Rightarrow>
   (bool \<times> rpc_result_t) result \<times> ('u, 'f) cqy_app_t" where
  "rpc_on_call exec p func_name param_data res a =
     (case map_of (cx_router (ap_objs a ! p)) func_name of
        None \<Rightarrow> (Inr (False, res), a)
      | Some (muli, f) \<Rightarrow>
          (case exec muli f p param_data a of
             (Inl e, a') \<Rightarrow> (Inl e, a')
           | (Inr r, a') \<Rightarrow> (Inr (True, r), a')))"

section \<open>Names and messages\<close>

definition app_self_nodeid :: "('u, 'f) cqy_app_t \<Rightarrow> u8" where
  "app_self_nodeid a = cfg_nodeid (ap_config a)"

definition get_ctxid :: "('u, 'f) cqy_app_t \<Rightarrow> string \<Rightarrow> u32" where
  "get_ctxid a name = find_name (ap_mgr a) name"

definition app_register_name :: "string \<Rightarrow> u32 \<Rightarrow> ('u, 'f) cqy_app_t \<Rightarrow> unit result \<times> ('u, 'f) cqy_app_t" where
  "app_register_name name i a =
     (case register_name name i (ap_mgr a) of
        Inl e \<Rightarrow> (Inl e, a)
      | Inr m \<Rightarrow> (Inr (), a\<lparr>ap_mgr := m\<rparr>))"

text \<open>\<open>"node.ctx"\<close> as a handle with the node number and the name of the context. The node number is
  the configured \<open>uint32_t\<close> cut down to the byte of the handle.\<close>

definition get_handle :: "('u, 'f) cqy_app_t \<Rightarrow> string \<Rightarrow> (cqy_handle_t \<times> string) option result" where
  "get_handle a name =
     bind_result (algo_split_one name ''.'') (\<lambda>p.
       if snd p = [] then Inr None
       else case get_node_name (ap_node a) (fst p) of
              None \<Rightarrow> Inr None
            | Some k \<Rightarrow>
                Inr (Some (handle_set_nodeid (ucast (info_nodeid (nd_info (nodes (ap_node a) ! k))))
                       (cqy_handle 0), snd p)))"

text \<open>\<open>mq_node->coro_queue.push\<close> for the peer at index \<open>k\<close>.\<close>

definition peer_push :: "nat \<Rightarrow> string \<Rightarrow> ('u, 'f) cqy_app_t \<Rightarrow> ('u, 'f) cqy_app_t" where
  "peer_push k msg a =
     (let d = nodes (ap_node a) ! k
      in a\<lparr>ap_node := (ap_node a)\<lparr>nodes := (nodes (ap_node a))[k := d\<lparr>nd_queue := q_push msg (nd_queue d)\<rparr>]\<rparr>\<rparr>)"

definition node_mq_push :: "string \<Rightarrow> ('u, 'f) cqy_app_t \<Rightarrow> ('u, 'f) cqy_app_t" where
  "node_mq_push msg a =
     (case msg_parse True msg of
        None \<Rightarrow> a
      | Some cmsg \<Rightarrow>
          let to = cqy_handle (msg_to cmsg) in
          if handle_nodeid to = cfg_nodeid (ap_config a)
          then (case get_ctx (ap_mgr a) (handle_id to) of
                  Some p \<Rightarrow> node_push_msg p msg a
                | None \<Rightarrow> a)
          else (case get_node (ap_node a) (handle_nodeid to) of
                  Some k \<Rightarrow> peer_push k msg a
                | None \<Rightarrow> a))"

text \<open>A malformed message ends the loop.\<close>

fun rpc_on_mq :: "string list \<Rightarrow> ('u, 'f) cqy_app_t \<Rightarrow> unit result \<times> ('u, 'f) cqy_app_t" where
  "rpc_on_mq [] a = (Inr (), a)"
| "rpc_on_mq (msg # msgs) a =
     (case msg_parse True msg of
        None \<Rightarrow> (Inr (), a)
      | Some cqy_msg \<Rightarrow>
          (case msg_name msg of
             Inl e \<Rightarrow> (Inl e, a)
           | Inr name \<Rightarrow>
               let to = (if name \<noteq> [] then find_name (ap_mgr a) name else msg_to cqy_msg)
               in rpc_on_mq msgs
                    (case get_ctx (ap_mgr a) to of
                       Some p \<Rightarrow> node_push_msg p msg a
                     | None \<Rightarrow> a)))"

section \<open>Calls between contexts, on the side of the application\<close>

text \<open>The outcome of a call through a client: no connection, an error of the remote side, a reply.\<close>

datatype 'a remote = Pool_Error | Call_Error | Reply 'a

text \<open>\<open>send nodectx k\<close> is the outcome of the call of \<open>rpc_find_ctx\<close> at the peer \<open>k\<close>.\<close>

definition rpc_find_ctx :: "(string \<Rightarrow> nat \<Rightarrow> u32 remote) \<Rightarrow> string \<Rightarrow> ('u, 'f) cqy_app_t \<Rightarrow> u32 result" where
  "rpc_find_ctx send nodectx a =
     bind_result (get_handle a nodectx) (\<lambda>h.
       case h of
         None \<Rightarrow> Inr 0
       | Some (h, name) \<Rightarrow>
           if cfg_nodeid (ap_config a) = handle_node h then
             let i = find_name (ap_mgr a) name in if i = 0 then Inr 0 else Inr i
           else
             (case get_node (ap_node a) (handle_node h) of
                None \<Rightarrow> Inr 0
              | Some k \<Rightarrow>
                  if nd_client (nodes (ap_node a) ! k) = None then Inr 0
                  else (case send nodectx k of
                          Pool_Error \<Rightarrow> Inr 0
                        | Call_Error \<Rightarrow> Inr 0
                        | Reply i \<Rightarrow> Inr i)))"

definition miss :: "string \<Rightarrow> rpc_result_t" where
  "miss text = \<lparr>rr_status = -1, rr_res = text\<rparr>"

text \<open>The common end of both calls: run the function or report that it is not registered.\<close>

definition rpc_call_registered ::
  "('u, 'f) rpc_exec \<Rightarrow> nat \<Rightarrow> string \<Rightarrow> string \<Rightarrow> ('u, 'f) cqy_app_t \<Rightarrow> rpc_result_t result \<times> ('u, 'f) cqy_app_t"
where
  "rpc_call_registered exec p func_name param_data a =
     (case rpc_on_call exec p func_name param_data rpc_result_zero a of
        (Inl e, a') \<Rightarrow> (Inl e, a')
      | (Inr (ok, r), a') \<Rightarrow>
          if ok then (Inr r, a') else (Inr (miss (''func_name:'' @ func_name @ '' miss'')), a'))"

definition rpc_ctx_call ::
  "('u, 'f) rpc_exec \<Rightarrow> u32 \<Rightarrow> string \<Rightarrow> string \<Rightarrow> ('u, 'f) cqy_app_t \<Rightarrow> rpc_result_t result \<times> ('u, 'f) cqy_app_t"
where
  "rpc_ctx_call exec to func_name param_data a =
     (if handle_nodeid (cqy_handle to) \<noteq> cfg_nodeid (ap_config a)
      then (Inr (miss (''id:'' @ hex_u32 to @ '' miss'')), a)
      else case get_ctx (ap_mgr a) to of
             None \<Rightarrow> (Inr (miss (''id:'' @ hex_u32 to @ '' miss'')), a)
           | Some p \<Rightarrow> rpc_call_registered exec p func_name param_data a)"

definition rpc_ctx_call_name ::
  "('u, 'f) rpc_exec \<Rightarrow> string \<Rightarrow> string \<Rightarrow> string \<Rightarrow> ('u, 'f) cqy_app_t \<Rightarrow> rpc_result_t result \<times> ('u, 'f) cqy_app_t"
where
  "rpc_ctx_call_name exec nodectx func_name param_data a =
     (case get_handle a nodectx of
        Inl e \<Rightarrow> (Inl e, a)
      | Inr None \<Rightarrow> (Inr (miss (''nodectx:'' @ nodectx @ '' miss'')), a)
      | Inr (Some (h, name)) \<Rightarrow>
          if handle_nodeid h \<noteq> cfg_nodeid (ap_config a)
          then (Inr (miss (''nodectx:'' @ nodectx @ '' not self'')), a)
          else case get_ctx (ap_mgr a) (find_name (ap_mgr a) name) of
                 None \<Rightarrow> (Inr (miss (''nodectx:'' @ nodectx @ '' ctx miss'')), a)
               | Some p \<Rightarrow> rpc_call_registered exec p func_name param_data a)"

section \<open>Life of a context\<close>

text \<open>\<open>reg_ctx<T>(name)\<close>; \<open>tyname\<close> is \<open>type_string<T>()\<close>, \<open>u\<close> the initial state of a \<open>T\<close>.\<close>

definition reg_ctx :: "string \<Rightarrow> 'u \<Rightarrow> string \<Rightarrow> ('u, 'f) cqy_app_t \<Rightarrow> ('u, 'f) cqy_app_t" where
  "reg_ctx tyname u name a =
     a\<lparr>ap_creator := AList.update (if name = [] then tyname else name) u (ap_creator a)\<rparr>"

text \<open>\<open>on_init\<close> of the new context: \<open>init p param\<close>, with the pointer to the context. The assertion of \<open>add_ctx\<close>, that the id is new, is not written out: ids are
  counted up, so it holds for the first \<open>2 ^ 24\<close> contexts, the range of the theorems about \<open>create_ctx\<close>.\<close>

type_synonym ('u, 'f) ctx_on_init =
  "nat \<Rightarrow> string \<Rightarrow> ('u, 'f) cqy_app_t \<Rightarrow> bool result \<times> ('u, 'f) cqy_app_t"

definition create_ctx ::
  "('u, 'f) ctx_on_init \<Rightarrow> string \<Rightarrow> string \<Rightarrow> ('u, 'f) cqy_app_t \<Rightarrow> u32 result \<times> ('u, 'f) cqy_app_t"
where
  "create_ctx init name param a =
     (case map_of (ap_creator a) name of
        None \<Rightarrow> (Inr 0, a)
      | Some u \<Rightarrow>
          let p = length (ap_objs a);
              (cid, m) = new_id (ap_mgr a);
              h = handle_set_nodeid (cfg_nodeid (ap_config a)) (handle_set_ctxid cid (cqy_handle 0));
              a1 = attach_init p (handle_id h) (a\<lparr>ap_objs := ap_objs a @ [ctx_new u], ap_mgr := m\<rparr>)
          in case init p param a1 of
               (Inl e, a2) \<Rightarrow> (Inl e, a2)
             | (Inr False, a2) \<Rightarrow> (Inr 0, a2)
             | (Inr True, a2) \<Rightarrow>
                 (Inr (handle_id h),
                  a2\<lparr>ap_mgr := snd (add_ctx (cx_id (ap_objs a2 ! p)) p (ap_mgr a2)),
                     ap_receivers := ap_receivers a2 @ [p]\<rparr>))"

definition stop_ctx :: "u32 \<Rightarrow> ('u, 'f) cqy_app_t \<Rightarrow> ('u, 'f) cqy_app_t" where
  "stop_ctx i a =
     (case get_ctx (ap_mgr a) i of
        None \<Rightarrow> a
      | Some p \<Rightarrow> ctx_shutdown p (a\<lparr>ap_mgr := del_ctx i (ap_mgr a)\<rparr>))"

definition stop_ctx_name :: "string \<Rightarrow> ('u, 'f) cqy_app_t \<Rightarrow> ('u, 'f) cqy_app_t" where
  "stop_ctx_name name a =
     (let i = find_name (ap_mgr a) name in
      case get_ctx (ap_mgr a) i of
        None \<Rightarrow> a
      | Some p \<Rightarrow> ctx_shutdown p (a\<lparr>ap_mgr := del_ctx i (ap_mgr a)\<rparr>))"

section \<open>Start and stop\<close>

text \<open>The loop over the configured nodes: a client for every other node; \<open>self\<close> is the last entry
  with the id of this node.\<close>

fun start_nodes :: "u8 \<Rightarrow> node_info list \<Rightarrow> node_info option \<Rightarrow> cqy_node_t \<Rightarrow> u8 list \<Rightarrow>
  node_info option \<times> cqy_node_t \<times> u8 list" where
  "start_nodes me [] self n ids = (self, n, ids)"
| "start_nodes me (info # infos) self n ids =
     (if info_nodeid info \<noteq> ucast me
      then let (n', i) = create_client info n in start_nodes me infos self n' (ids @ [i])
      else start_nodes me infos (Some info) n ids)"

text \<open>\<open>start()\<close> up to the point where it waits for the server.\<close>

definition app_start :: "('u, 'f) ctx_on_init \<Rightarrow> ('u, 'f) cqy_app_t \<Rightarrow> unit result \<times> ('u, 'f) cqy_app_t" where
  "app_start init a =
     (let cfg = ap_config a;
          (self, n, ids) = start_nodes (cfg_nodeid cfg) (cfg_nodes cfg) None (ap_node a) [];
          a1 = a\<lparr>ap_node := n, ap_senders := ap_senders a @ ids\<rparr>
      in case self of
           None \<Rightarrow> (Inl (Runtime_Error (''self node:'' @ int_to_string (uint (cfg_nodeid cfg)) @ '' not config'')), a1)
         | Some info \<Rightarrow>
             let a2 = a1\<lparr>ap_node := create_rpc_server (cfg_thread cfg) info (ap_node a1)\<rparr> in
             case rpc_server_start (ap_node a2) of
               Inl e \<Rightarrow> (Inl e, a2)
             | Inr _ \<Rightarrow>
                 if cfg_bootstrap cfg = [] then (Inr (), a2)
                 else case algo_split_one (cfg_bootstrap cfg) '' '' of
                        Inl e \<Rightarrow> (Inl e, a2)
                      | Inr (name, param) \<Rightarrow>
                          (case create_ctx init name param a2 of
                             (Inl e, a3) \<Rightarrow> (Inl e, a3)
                           | (Inr _, a3) \<Rightarrow> (Inr (), a3)))"

text \<open>\<open>start()\<close> after the server has stopped.\<close>

fun shutdown_ctxs :: "u32 list \<Rightarrow> ('u, 'f) cqy_app_t \<Rightarrow> ('u, 'f) cqy_app_t" where
  "shutdown_ctxs [] a = a"
| "shutdown_ctxs (i # ids) a =
     shutdown_ctxs ids (case get_ctx (ap_mgr a) i of Some p \<Rightarrow> ctx_shutdown p a | None \<Rightarrow> a)"

definition app_clear :: "('u, 'f) cqy_app_t \<Rightarrow> ('u, 'f) cqy_app_t" where
  "app_clear a =
     (let a1 = a\<lparr>ap_node := node_shutdown (ap_node a)\<rparr> in shutdown_ctxs (collect_ctxids (ap_mgr a1)) a1)"

text \<open>\<open>stop()\<close>: the flag tells whether the server is closed by this call.\<close>

definition app_stop :: "('u, 'f) cqy_app_t \<Rightarrow> bool \<times> ('u, 'f) cqy_app_t" where
  "app_stop a = (if ap_bstop a then (False, a) else (rpc_server_close (ap_node a), a\<lparr>ap_bstop := True\<rparr>))"

section \<open>Looking through the operations\<close>

lemma upd_obj_simps [simp]:
  "ap_config (upd_obj p f a) = ap_config a" "ap_mgr (upd_obj p f a) = ap_mgr a"
  "ap_node (upd_obj p f a) = ap_node a" "ap_creator (upd_obj p f a) = ap_creator a"
  "ap_receivers (upd_obj p f a) = ap_receivers a" "length (ap_objs (upd_obj p f a)) = length (ap_objs a)"
  by (simp_all add: upd_obj_def)

lemma upd_obj_nth:
  "q < length (ap_objs a) \<Longrightarrow> ap_objs (upd_obj p f a) ! q = (if q = p then f (ap_objs a ! p) else ap_objs a ! q)"
  by (simp add: upd_obj_def)

lemma upd_obj_keeps_id:
  assumes "\<And>c. cx_id (f c) = cx_id c"
  shows "cx_id (ap_objs (upd_obj p f a) ! q) = cx_id (ap_objs a ! q)"
  using assms
  by (cases "p < length (ap_objs a)") (auto simp: upd_obj_def nth_list_update list_update_beyond not_less)

lemma peer_push_simps [simp]:
  "ap_config (peer_push k msg a) = ap_config a" "ap_mgr (peer_push k msg a) = ap_mgr a"
  "ap_objs (peer_push k msg a) = ap_objs a" "map nd_info (nodes (ap_node (peer_push k msg a))) = map nd_info (nodes (ap_node a))"
  "ap_creator (peer_push k msg a) = ap_creator a" "self_nodeid (ap_node (peer_push k msg a)) = self_nodeid (ap_node a)"
proof -
  show "map nd_info (nodes (ap_node (peer_push k msg a))) = map nd_info (nodes (ap_node a))"
    by (cases "k < length (nodes (ap_node a))")
      (simp_all add: peer_push_def Let_def map_update list_update_same_conv list_update_beyond not_less)
qed (simp_all add: peer_push_def Let_def)

lemma get_handle_eq:
  "get_handle a name = Inr
     (let node = takeWhile (\<lambda>c. c \<noteq> CHR ''.'') name; ctx = tl (dropWhile (\<lambda>c. c \<noteq> CHR ''.'') name)
      in if ctx = [] then None
         else map_option (\<lambda>k. (handle_set_nodeid (ucast (info_nodeid (nd_info (nodes (ap_node a) ! k)))) (cqy_handle 0), ctx))
                (get_node_name (ap_node a) node))"
  by (simp add: get_handle_def split_one_char Let_def split: option.split)

text \<open>\<open>"node.ctx"\<close> without a dot in the node name.\<close>

lemma get_handle_dot:
  assumes "CHR ''.'' \<notin> set node" "ctx \<noteq> []" "get_node_name (ap_node a) node = Some k"
  shows "get_handle a (node @ CHR ''.'' # ctx) =
     Inr (Some (handle_set_nodeid (ucast (info_nodeid (nd_info (nodes (ap_node a) ! k)))) (cqy_handle 0), ctx))"
proof -
  have "takeWhile (\<lambda>c. c \<noteq> CHR ''.'') (node @ CHR ''.'' # ctx) = node"
    using assms(1) by (induction node) auto
  moreover have "dropWhile (\<lambda>c. c \<noteq> CHR ''.'') (node @ CHR ''.'' # ctx) = CHR ''.'' # ctx"
    using assms(1) by (induction node) auto
  ultimately show ?thesis
    using assms(2,3) by (simp add: get_handle_eq Let_def)
qed

section \<open>Invariant\<close>

text \<open>
  Every registered context is an object of the store with the id it is registered under, the id
  carries the number of this node, and its context number has been allocated.
\<close>

definition app_inv :: "('u, 'f) cqy_app_t \<Rightarrow> bool" where
  "app_inv a \<longleftrightarrow> mgr_inv (ap_mgr a) \<and>
     (\<forall>i p. get_ctx (ap_mgr a) i = Some p \<longrightarrow>
        p < length (ap_objs a) \<and> cx_id (ap_objs a ! p) = i \<and>
        handle_node (cqy_handle i) = cfg_nodeid (ap_config a) \<and>
        unat (handle_ctxid (cqy_handle i)) \<le> unat (allocid (ap_mgr a)))"

text \<open>What an operation, user code included, may do to the rest of the application.\<close>

definition app_grows :: "('u, 'f) cqy_app_t \<Rightarrow> ('u, 'f) cqy_app_t \<Rightarrow> bool" where
  "app_grows a a' \<longleftrightarrow>
     ap_config a' = ap_config a \<and> length (ap_objs a) \<le> length (ap_objs a') \<and>
     (\<forall>p < length (ap_objs a). cx_id (ap_objs a' ! p) = cx_id (ap_objs a ! p)) \<and>
     unat (allocid (ap_mgr a)) \<le> unat (allocid (ap_mgr a')) \<and>
     (\<forall>i p. get_ctx (ap_mgr a') i = Some p \<longrightarrow>
        get_ctx (ap_mgr a) i = Some p \<or> unat (allocid (ap_mgr a)) < unat (handle_ctxid (cqy_handle i)))"

lemma app_growsD:
  "app_grows a a' \<Longrightarrow> get_ctx (ap_mgr a') i = Some p \<Longrightarrow>
   get_ctx (ap_mgr a) i = Some p \<or> unat (allocid (ap_mgr a)) < unat (handle_ctxid (cqy_handle i))"
  by (simp add: app_grows_def)

lemma app_grows_refl [simp]: "app_grows a a"
  by (simp add: app_grows_def)

lemma app_grows_trans: "app_grows a b \<Longrightarrow> app_grows b c \<Longrightarrow> app_grows a c"
  by (auto simp: app_grows_def) (meson le_less_trans)

text \<open>Operations that leave ids, the registered contexts and the configuration alone.\<close>

lemma app_frame:
  assumes "ap_config a' = ap_config a" "allocid (ap_mgr a') = allocid (ap_mgr a)"
    "ctxs (ap_mgr a') = ctxs (ap_mgr a)" "mgr_inv (ap_mgr a) \<Longrightarrow> mgr_inv (ap_mgr a')"
    "length (ap_objs a') = length (ap_objs a)"
    "\<And>p. p < length (ap_objs a) \<Longrightarrow> cx_id (ap_objs a' ! p) = cx_id (ap_objs a ! p)"
  shows "app_inv a \<Longrightarrow> app_inv a'" "app_grows a a'"
  using assms by (auto simp: app_inv_def app_grows_def get_ctx_def)

lemma app_inv_upd_obj:
  assumes "app_inv a" "\<And>c. cx_id (f c) = cx_id c"
  shows "app_inv (upd_obj p f a)" "app_grows a (upd_obj p f a)"
  using app_frame [of "upd_obj p f a" a] assms by (simp_all add: upd_obj_keeps_id)

lemma app_inv_node_push_msg [cqy_inv]:
  "app_inv a \<Longrightarrow> app_inv (node_push_msg p msg a)" "app_inv a \<Longrightarrow> app_grows a (node_push_msg p msg a)"
  unfolding node_push_msg_def by (simp_all add: app_inv_upd_obj)

lemma app_inv_ctx_shutdown [cqy_inv]:
  "app_inv a \<Longrightarrow> app_inv (ctx_shutdown p a)" "app_inv a \<Longrightarrow> app_grows a (ctx_shutdown p a)"
  unfolding ctx_shutdown_def by (simp_all add: app_inv_upd_obj)

lemma app_inv_peer_push [cqy_inv]:
  "app_inv a \<Longrightarrow> app_inv (peer_push k msg a)" "app_grows a (peer_push k msg a)"
  using app_frame [of "peer_push k msg a" a] by simp_all

lemma app_inv_node_mq_push [cqy_inv]:
  assumes "app_inv a"
  shows "app_inv (node_mq_push msg a)" "app_grows a (node_mq_push msg a)"
  using app_inv_node_push_msg [OF assms] app_inv_peer_push(1) [OF assms] app_inv_peer_push(2) [of a] assms
  by (simp_all add: node_mq_push_def Let_def split: option.split)

lemma app_inv_register_name [cqy_inv]:
  assumes "app_inv a"
  shows "app_inv (snd (app_register_name name i a))" "app_grows a (snd (app_register_name name i a))"
proof -
  let ?a = "snd (app_register_name name i a)"
  have "app_inv ?a \<and> app_grows a ?a"
  proof (cases "register_name name i (ap_mgr a)")
    case (Inl e)
    with assms show ?thesis by (simp add: app_register_name_def)
  next
    case (Inr m)
    then have "ctxs m = ctxs (ap_mgr a)" "allocid m = allocid (ap_mgr a)"
      by (auto simp: register_name_def split: if_splits)
    moreover have "mgr_inv m"
      using Inr assms mgr_inv_register_name by (auto simp: app_inv_def)
    moreover have "?a = a\<lparr>ap_mgr := m\<rparr>"
      using Inr by (simp add: app_register_name_def)
    ultimately show ?thesis
      using app_frame [of ?a a] assms by simp
  qed
  then show "app_inv ?a" "app_grows a ?a" by simp_all
qed

lemma app_inv_rpc_on_mq [cqy_inv]:
  "app_inv a \<Longrightarrow> app_inv (snd (rpc_on_mq msgs a)) \<and> app_grows a (snd (rpc_on_mq msgs a))"
proof (induction msgs a rule: rpc_on_mq.induct)
  case (2 msg msgs a)
  show ?case
  proof (cases "msg_parse True msg")
    case (Some m)
    show ?thesis
    proof (cases "msg_name msg")
      case (Inr name)
      let ?to = "if name \<noteq> [] then find_name (ap_mgr a) name else msg_to m"
      let ?a = "case get_ctx (ap_mgr a) ?to of Some p \<Rightarrow> node_push_msg p msg a | None \<Rightarrow> a"
      have "app_inv ?a" "app_grows a ?a"
        using "2.prems" by (auto intro: cqy_inv split: option.split)
      with "2.IH" [OF Some Inr refl] Some Inr show ?thesis
        by (auto simp: Let_def intro: app_grows_trans)
    qed (use Some 2 in simp)
  qed (use 2 in simp)
qed simp

lemma app_inv_del_ctx:
  assumes "app_inv a"
  shows "app_inv (a\<lparr>ap_mgr := del_ctx i (ap_mgr a)\<rparr>)" "app_grows a (a\<lparr>ap_mgr := del_ctx i (ap_mgr a)\<rparr>)"
  using assms
  by (auto simp: app_inv_def app_grows_def get_ctx_del mgr_inv_del_ctx split: if_splits) (auto simp: del_ctx_def)

lemma app_inv_stop_ctx [cqy_inv]:
  assumes "app_inv a"
  shows "app_inv (stop_ctx i a)" "app_grows a (stop_ctx i a)"
  using app_inv_del_ctx [OF assms, of i] assms
  by (auto simp: stop_ctx_def intro: cqy_inv app_grows_trans split: option.split)

lemma stop_ctx_name_eq: "stop_ctx_name name a = stop_ctx (find_name (ap_mgr a) name) a"
  by (simp add: stop_ctx_name_def stop_ctx_def Let_def)

section \<open>Creating contexts\<close>

text \<open>The handle \<open>create_ctx\<close> puts together.\<close>

definition ctx_handle :: "('u, 'f) cqy_app_t \<Rightarrow> u32" where
  "ctx_handle a = handle_id (handle_set_nodeid (cfg_nodeid (ap_config a))
     (handle_set_ctxid (1 + allocid (ap_mgr a)) (cqy_handle 0)))"

text \<open>The application as \<open>on_init\<close> of the new context finds it.\<close>

definition create_pre :: "'u \<Rightarrow> ('u, 'f) cqy_app_t \<Rightarrow> ('u, 'f) cqy_app_t" where
  "create_pre u a = a\<lparr>ap_mgr := (ap_mgr a)\<lparr>allocid := allocid (ap_mgr a) + 1\<rparr>,
     ap_objs := ap_objs a @ [(ctx_new u)\<lparr>cx_id := ctx_handle a\<rparr>]\<rparr>"

lemma create_ctx_eq:
  "create_ctx init name param a =
     (case map_of (ap_creator a) name of
        None \<Rightarrow> (Inr 0, a)
      | Some u \<Rightarrow>
          (case init (length (ap_objs a)) param (create_pre u a) of
             (Inl e, a2) \<Rightarrow> (Inl e, a2)
           | (Inr False, a2) \<Rightarrow> (Inr 0, a2)
           | (Inr True, a2) \<Rightarrow>
               (Inr (ctx_handle a),
                a2\<lparr>ap_mgr := snd (add_ctx (cx_id (ap_objs a2 ! length (ap_objs a))) (length (ap_objs a)) (ap_mgr a2)),
                   ap_receivers := ap_receivers a2 @ [length (ap_objs a)]\<rparr>)))"
  by (simp add: create_ctx_def create_pre_def ctx_handle_def attach_init_def upd_obj_def new_id_def Let_def
      split: option.split) (auto simp: ctx_handle_def split: prod.split sum.split bool.split)

lemma unat_Suc_allocid:
  "unat (x :: u32) + 1 < 2 ^ 24 \<Longrightarrow> unat (x + 1) = unat x + 1" "unat (x :: u32) + 1 < 2 ^ 24 \<Longrightarrow> unat (1 + x) = unat x + 1"
  by (simp_all add: unat_word_ariths)

lemma ctx_handle_parts:
  assumes "unat (allocid (ap_mgr a)) + 1 < 2 ^ 24"
  shows "handle_node (cqy_handle (ctx_handle a)) = cfg_nodeid (ap_config a)"
    "unat (handle_ctxid (cqy_handle (ctx_handle a))) = unat (allocid (ap_mgr a)) + 1"
    "ctx_handle a \<noteq> 0"
proof -
  have fits: "ctxid_fits (1 + allocid (ap_mgr a))"
    using assms by (simp add: ctxid_fits_def word_less_nat_alt unat_Suc_allocid)
  show "handle_node (cqy_handle (ctx_handle a)) = cfg_nodeid (ap_config a)"
    by (simp add: ctx_handle_def handle_node_def)
  show *: "unat (handle_ctxid (cqy_handle (ctx_handle a))) = unat (allocid (ap_mgr a)) + 1"
    using fits assms by (simp add: ctx_handle_def ctxid_fits_and unat_Suc_allocid)
  show "ctx_handle a \<noteq> 0"
    using * by (auto simp: handle_ctxid_def)
qed

lemma app_inv_create_pre:
  assumes "app_inv a" "unat (allocid (ap_mgr a)) + 1 < 2 ^ 24"
  shows "app_inv (create_pre u a)" "app_grows a (create_pre u a)"
proof -
  have mgr: "mgr_inv ((ap_mgr a)\<lparr>allocid := x\<rparr>) = mgr_inv (ap_mgr a)"
    "get_ctx ((ap_mgr a)\<lparr>allocid := x\<rparr>) i = get_ctx (ap_mgr a) i" for x i
    by (simp_all add: mgr_inv_def get_ctx_def)
  show "app_inv (create_pre u a)"
    using assms unfolding app_inv_def create_pre_def
    by (auto simp: mgr unat_Suc_allocid nth_append less_Suc_eq le_Suc_eq)
  show "app_grows a (create_pre u a)"
    using assms unfolding app_grows_def create_pre_def by (auto simp: mgr unat_Suc_allocid nth_append)
qed

lemma get_ctx_create_pre:
  assumes "app_inv a" "unat (allocid (ap_mgr a)) + 1 < 2 ^ 24"
  shows "get_ctx (ap_mgr a) (ctx_handle a) = None"
proof (rule ccontr)
  assume "get_ctx (ap_mgr a) (ctx_handle a) \<noteq> None"
  then have "unat (handle_ctxid (cqy_handle (ctx_handle a))) \<le> unat (allocid (ap_mgr a))"
    using assms(1) by (auto simp: app_inv_def)
  then show False
    using ctx_handle_parts(2) [OF assms(2)] by simp
qed

text \<open>
  The contract of a context class: \<open>on_init\<close> may register names and functions, send messages and
  create up to \<open>room\<close> further contexts; it keeps the invariant and does not touch ids.
\<close>

locale ctx_class =
  fixes on_init :: "('u, 'f) ctx_on_init" and room :: nat
  assumes on_init_keeps:
    "app_inv a \<Longrightarrow> p < length (ap_objs a) \<Longrightarrow> unat (allocid (ap_mgr a)) + room < 2 ^ 24 \<Longrightarrow>
     app_inv (snd (on_init p param a)) \<and> app_grows a (snd (on_init p param a)) \<and>
     unat (allocid (ap_mgr (snd (on_init p param a)))) \<le> unat (allocid (ap_mgr a)) + room"
begin

lemma after_on_init:
  assumes "app_inv a" "unat (allocid (ap_mgr a)) + 1 + room < 2 ^ 24"
    "on_init (length (ap_objs a)) param (create_pre u a) = (r, a2)"
  shows "app_inv a2" "app_grows (create_pre u a) a2" "app_grows a a2"
    "cx_id (ap_objs a2 ! length (ap_objs a)) = ctx_handle a"
    "length (ap_objs a) < length (ap_objs a2)"
    "get_ctx (ap_mgr a2) (ctx_handle a) = None"
    "unat (allocid (ap_mgr a2)) \<le> unat (allocid (ap_mgr a)) + 1 + room"
proof -
  let ?b = "create_pre u a"
  have room1: "unat (allocid (ap_mgr a)) + 1 < 2 ^ 24"
    using assms(2) by simp
  note pre = app_inv_create_pre [OF assms(1) room1, of u]
  have b: "length (ap_objs ?b) = Suc (length (ap_objs a))" "cx_id (ap_objs ?b ! length (ap_objs a)) = ctx_handle a"
    "unat (allocid (ap_mgr ?b)) = unat (allocid (ap_mgr a)) + 1"
    using room1 by (simp_all add: create_pre_def unat_Suc_allocid)
  have "app_inv a2 \<and> app_grows ?b a2 \<and> unat (allocid (ap_mgr a2)) \<le> unat (allocid (ap_mgr a)) + 1 + room"
    using on_init_keeps [OF pre(1), of "length (ap_objs a)" param] assms(2,3) b by simp
  then show inv: "app_inv a2" and grows: "app_grows ?b a2"
    and "unat (allocid (ap_mgr a2)) \<le> unat (allocid (ap_mgr a)) + 1 + room"
    by simp_all
  show "app_grows a a2"
    using pre(2) grows by (rule app_grows_trans)
  show "cx_id (ap_objs a2 ! length (ap_objs a)) = ctx_handle a" "length (ap_objs a) < length (ap_objs a2)"
    using grows b by (auto simp: app_grows_def)
  have "get_ctx (ap_mgr ?b) (ctx_handle a) = None"
    using get_ctx_create_pre [OF assms(1) room1] by (simp add: create_pre_def get_ctx_def)
  then show "get_ctx (ap_mgr a2) (ctx_handle a) = None"
    using app_growsD [OF grows, of "ctx_handle a"] ctx_handle_parts(2) [OF room1] b(3)
    by (cases "get_ctx (ap_mgr a2) (ctx_handle a)") auto
qed

lemma create_ok:
  assumes "app_inv a" "unat (allocid (ap_mgr a)) + 1 + room < 2 ^ 24"
    "create_ctx on_init name param a = (Inr i, a')" "i \<noteq> 0"
  shows "i = ctx_handle a \<and> get_ctx (ap_mgr a) i = None \<and> get_ctx (ap_mgr a') i = Some (length (ap_objs a)) \<and>
     cx_id (ap_objs a' ! length (ap_objs a)) = i \<and> length (ap_objs a) \<in> set (ap_receivers a')"
proof -
  obtain u a2 where
    a2: "on_init (length (ap_objs a)) param (create_pre u a) = (Inr True, a2)" and i: "i = ctx_handle a" and
    a': "a' = a2\<lparr>ap_mgr := snd (add_ctx (cx_id (ap_objs a2 ! length (ap_objs a))) (length (ap_objs a)) (ap_mgr a2)),
       ap_receivers := ap_receivers a2 @ [length (ap_objs a)]\<rparr>"
    using assms(3,4) by (auto simp: create_ctx_eq split: option.splits prod.splits sum.splits bool.splits)
  note * = after_on_init [OF assms(1,2) a2]
  show ?thesis
    using * get_ctx_create_pre [OF assms(1)] assms(2)
    by (simp add: a' i find_ctx_after_add)
qed

lemma create_keeps:
  assumes "app_inv a" "unat (allocid (ap_mgr a)) + 1 + room < 2 ^ 24"
  shows "app_inv (snd (create_ctx on_init name param a)) \<and> app_grows a (snd (create_ctx on_init name param a)) \<and>
     unat (allocid (ap_mgr (snd (create_ctx on_init name param a)))) \<le> unat (allocid (ap_mgr a)) + 1 + room"
proof (cases "map_of (ap_creator a) name")
  case None
  with assms(1) show ?thesis by (simp add: create_ctx_eq)
next
  case (Some u)
  obtain r a2 where a2: "on_init (length (ap_objs a)) param (create_pre u a) = (r, a2)"
    by fastforce
  note * = after_on_init [OF assms a2]
  show ?thesis
  proof (cases "r = Inr True")
    case True
    let ?m = "snd (add_ctx (ctx_handle a) (length (ap_objs a)) (ap_mgr a2))"
    have room1: "unat (allocid (ap_mgr a)) + 1 < 2 ^ 24"
      using assms(2) by simp
    have m: "get_ctx ?m j = (if j = ctx_handle a then Some (length (ap_objs a)) else get_ctx (ap_mgr a2) j)"
      "allocid ?m = allocid (ap_mgr a2)" for j
      using *(6) by (simp_all add: find_ctx_after_add) (simp add: add_ctx_def)
    have alloc: "unat (allocid (ap_mgr a)) + 1 \<le> unat (allocid (ap_mgr a2))"
      using *(2) room1 by (simp add: app_grows_def create_pre_def unat_Suc_allocid)
    have a': "snd (create_ctx on_init name param a) =
      a2\<lparr>ap_mgr := ?m, ap_receivers := ap_receivers a2 @ [length (ap_objs a)]\<rparr>"
      using True Some a2 *(4) by (simp add: create_ctx_eq)
    have cfg: "ap_config a2 = ap_config a"
      using *(3) by (simp add: app_grows_def)
    show ?thesis
      unfolding a' using *(1,3,4,5,7) alloc ctx_handle_parts [OF room1] mgr_inv_add_ctx [of "ap_mgr a2"]
      by (auto simp: app_inv_def app_grows_def m cfg)
  next
    case False
    then have "snd (create_ctx on_init name param a) = a2"
      using Some a2 by (auto simp: create_ctx_eq split: sum.splits bool.splits)
    then show ?thesis using *(1,3,7) by simp
  qed
qed

end

text \<open>\<open>virtual bool on_init(std::string_view param) { return true; }\<close>\<close>

definition on_init_default :: "('u, 'f) ctx_on_init" where
  "on_init_default p param a = (Inr True, a)"

interpretation plain: ctx_class on_init_default 0
  by unfold_locales (simp_all add: on_init_default_def)

section \<open>Operations in sequence\<close>

datatype 'u app_op = Reg string 'u string | Start | Create string string | Stop u32 | Stop_name string
  | Push string | On_mq "string list" | Register string u32 | Stop_app | Clear

fun app_step :: "('u, 'f) ctx_on_init \<Rightarrow> ('u, 'f) cqy_app_t \<Rightarrow> 'u app_op \<Rightarrow> ('u, 'f) cqy_app_t" where
  "app_step init a (Reg tyname u name) = reg_ctx tyname u name a"
| "app_step init a Start = snd (app_start init a)"
| "app_step init a (Create name param) = snd (create_ctx init name param a)"
| "app_step init a (Stop i) = stop_ctx i a"
| "app_step init a (Stop_name name) = stop_ctx_name name a"
| "app_step init a (Push msg) = node_mq_push msg a"
| "app_step init a (On_mq msgs) = snd (rpc_on_mq msgs a)"
| "app_step init a (Register name i) = snd (app_register_name name i a)"
| "app_step init a Stop_app = snd (app_stop a)"
| "app_step init a Clear = app_clear a"

lemma allocid_of_ops [simp]:
  "allocid (ap_mgr (node_mq_push msg a)) = allocid (ap_mgr a)"
  "allocid (ap_mgr (stop_ctx i a)) = allocid (ap_mgr a)"
  "allocid (ap_mgr (snd (app_register_name name i a))) = allocid (ap_mgr a)"
  "ap_mgr (snd (rpc_on_mq msgs a)) = ap_mgr a"
proof -
  show "ap_mgr (snd (rpc_on_mq msgs a)) = ap_mgr a"
    by (induction msgs a rule: rpc_on_mq.induct)
      (auto simp: Let_def node_push_msg_def split: option.splits sum.splits)
qed (auto simp: node_mq_push_def node_push_msg_def stop_ctx_def ctx_shutdown_def del_ctx_def
    app_register_name_def register_name_def Let_def split: option.split)

lemma app_inv_node_change:
  "app_inv (a\<lparr>ap_node := n\<rparr>) = app_inv a" "app_inv (a\<lparr>ap_senders := s\<rparr>) = app_inv a"
  by (simp_all add: app_inv_def)

lemma app_start_keeps:
  assumes "ctx_class init room" "app_inv a" "unat (allocid (ap_mgr a)) + 1 + room < 2 ^ 24"
  shows "app_inv (snd (app_start init a)) \<and>
     unat (allocid (ap_mgr (snd (app_start init a)))) \<le> unat (allocid (ap_mgr a)) + 1 + room"
proof -
  obtain self n ids where nodes: "start_nodes (cfg_nodeid (ap_config a)) (cfg_nodes (ap_config a)) None (ap_node a) [] = (self, n, ids)"
    by (metis prod_cases3)
  let ?b = "\<lambda>info. a\<lparr>ap_senders := ap_senders a @ ids, ap_node := create_rpc_server (cfg_thread (ap_config a)) info n\<rparr>"
  have b: "app_inv (snd (create_ctx init name param (?b info))) \<and>
    unat (allocid (ap_mgr (snd (create_ctx init name param (?b info))))) \<le> unat (allocid (ap_mgr a)) + 1 + room" for name param info
    using ctx_class.create_keeps [OF assms(1), of "?b info" name param] assms(2,3) by (simp add: app_inv_node_change)
  show ?thesis
  proof (cases self)
    case None
    with nodes assms(2) show ?thesis by (simp add: app_start_def app_inv_node_change)
  next
    case (Some info)
    obtain name param where "algo_split_one (cfg_bootstrap (ap_config a)) '' '' = Inr (name, param)"
      by (simp add: split_one_char)
    moreover obtain r a3 where "create_ctx init name param (?b info) = (r, a3)"
      by fastforce
    ultimately show ?thesis
      using Some nodes assms(2) b [of name param info]
      by (cases r) (simp_all add: app_start_def app_inv_node_change Let_def)
  qed
qed

lemma app_inv_shutdown_ctxs:
  "app_inv a \<Longrightarrow> app_inv (shutdown_ctxs ids a)" "ap_mgr (shutdown_ctxs ids a) = ap_mgr a"
proof -
  show "app_inv a \<Longrightarrow> app_inv (shutdown_ctxs ids a)"
    by (induction ids arbitrary: a) (auto intro: cqy_inv split: option.split)
  show "ap_mgr (shutdown_ctxs ids a) = ap_mgr a"
    by (induction ids arbitrary: a) (auto simp: ctx_shutdown_def split: option.split)
qed

lemma app_step_keeps:
  assumes "ctx_class init room" "app_inv a" "unat (allocid (ap_mgr a)) + 1 + room < 2 ^ 24"
  shows "app_inv (app_step init a op) \<and> unat (allocid (ap_mgr (app_step init a op))) \<le> unat (allocid (ap_mgr a)) + 1 + room"
proof (cases op)
  case (Reg tyname u name)
  with assms(2) show ?thesis by (simp add: reg_ctx_def app_inv_def)
next
  case Stop_app
  with assms(2) show ?thesis by (simp add: app_stop_def app_inv_def)
next
  case Clear
  with assms(2) show ?thesis by (simp add: app_clear_def Let_def app_inv_shutdown_ctxs app_inv_node_change)
qed (use ctx_class.create_keeps [OF assms] app_start_keeps [OF assms] assms(2)
      in \<open>simp_all add: cqy_inv stop_ctx_name_eq\<close>)

section \<open>Delivery of a batch\<close>

text \<open>The context a message of a batch is for.\<close>

definition mq_target :: "('u, 'f) cqy_app_t \<Rightarrow> string \<Rightarrow> nat option" where
  "mq_target a msg =
     (case msg_name msg of
        Inl _ \<Rightarrow> None
      | Inr name \<Rightarrow> get_ctx (ap_mgr a) (if name \<noteq> [] then find_name (ap_mgr a) name else msg_to (get_msg msg)))"

definition well_formed :: "string \<Rightarrow> bool" where
  "well_formed msg \<longleftrightarrow> msg_parse True msg \<noteq> None"

lemma msg_parse_Some: "msg_parse check s = Some m \<Longrightarrow> m = get_msg s"
  by (auto simp: msg_parse_def Let_def split: if_splits)

lemma node_push_msg_simps [simp]:
  "ap_mgr (node_push_msg p msg a) = ap_mgr a" "length (ap_objs (node_push_msg p msg a)) = length (ap_objs a)"
  "ap_config (node_push_msg p msg a) = ap_config a" "ap_node (node_push_msg p msg a) = ap_node a"
  by (simp_all add: node_push_msg_def)

lemma mq_target_cong: "ap_mgr a = ap_mgr b \<Longrightarrow> mq_target a = mq_target b"
  by (auto simp: mq_target_def fun_eq_iff split: sum.split)

lemma rpc_on_mq_Cons:
  "rpc_on_mq (msg # msgs) a =
     (if well_formed msg
      then rpc_on_mq msgs (case mq_target a msg of Some p \<Rightarrow> node_push_msg p msg a | None \<Rightarrow> a)
      else (Inr (), a))"
proof (cases "msg_parse True msg")
  case None
  then show ?thesis by (simp add: well_formed_def)
next
  case (Some m)
  then obtain n where "msg_name msg = Inr n"
    using parse_checked_name by blast
  with Some show ?thesis
    by (simp add: well_formed_def mq_target_def msg_parse_Some [OF Some])
qed

lemma rpc_on_mq_queue:
  assumes "p < length (ap_objs a)"
  shows "cx_queue (ap_objs (snd (rpc_on_mq msgs a)) ! p) =
     fold q_push (filter (\<lambda>m. mq_target a m = Some p) (takeWhile well_formed msgs)) (cx_queue (ap_objs a ! p))"
  using assms
proof (induction msgs arbitrary: a)
  case (Cons msg msgs)
  let ?a = "case mq_target a msg of Some q \<Rightarrow> node_push_msg q msg a | None \<Rightarrow> a"
  have "mq_target ?a = mq_target a" "p < length (ap_objs ?a)"
    using Cons.prems by (auto intro: mq_target_cong split: option.split)
  moreover have "cx_queue (ap_objs ?a ! p) =
      (if mq_target a msg = Some p then q_push msg (cx_queue (ap_objs a ! p)) else cx_queue (ap_objs a ! p))"
    using Cons.prems by (auto simp: node_push_msg_def upd_obj_nth split: option.split)
  ultimately show ?case
    using Cons.IH [of ?a] by (simp add: rpc_on_mq_Cons del: rpc_on_mq.simps)
qed simp

lemma rpc_on_mq_returns: "fst (rpc_on_mq msgs a) = Inr ()"
  by (induction msgs arbitrary: a) (simp_all add: rpc_on_mq_Cons del: rpc_on_mq.simps(2))

section \<open>Start and stop\<close>

lemma start_nodes_eq:
  "start_nodes me infos self n ids =
     (let others = filter (\<lambda>i. info_nodeid i \<noteq> ucast me) infos; own = filter (\<lambda>i. info_nodeid i = ucast me) infos
      in (if own = [] then self else Some (last own),
          n\<lparr>nodes := nodes n @ map (\<lambda>i. last (nodes (fst (create_client i n)))) others\<rparr>,
          ids @ map (\<lambda>i. ucast (info_nodeid i)) others))"
proof (induction infos arbitrary: self n ids)
  case (Cons i infos)
  have "last (nodes (fst (create_client j (n\<lparr>nodes := ns\<rparr>)))) = last (nodes (fst (create_client j n)))" for j ns
    by (simp add: create_client_def)
  then show ?case
    by (simp add: Cons.IH create_client_def Let_def)
qed simp

lemma nd_info_client [simp]: "nd_info (last (nodes (fst (create_client i n)))) = i"
  by (simp add: create_client_def)

lemma shutdown_ctxs_queue:
  assumes "p < length (ap_objs a)"
  shows "q_stop (cx_queue (ap_objs (shutdown_ctxs ids a) ! p)) \<longleftrightarrow>
     q_stop (cx_queue (ap_objs a ! p)) \<or> (\<exists>i \<in> set ids. get_ctx (ap_mgr a) i = Some p)"
  using assms
proof (induction ids arbitrary: a)
  case (Cons i ids)
  let ?a = "case get_ctx (ap_mgr a) i of Some q \<Rightarrow> ctx_shutdown q a | None \<Rightarrow> a"
  have "p < length (ap_objs ?a)" "ap_mgr ?a = ap_mgr a"
    using Cons.prems by (auto simp: ctx_shutdown_def split: option.split)
  moreover have "q_stop (cx_queue (ap_objs ?a ! p)) \<longleftrightarrow>
      q_stop (cx_queue (ap_objs a ! p)) \<or> get_ctx (ap_mgr a) i = Some p"
    using Cons.prems by (auto simp: ctx_shutdown_def upd_obj_nth q_shutdown_def split: option.split)
  ultimately show ?case
    using Cons.IH [of ?a] by auto
qed simp

section \<open>Properties\<close>

text \<open>C8. Whatever sequence of operations an application performs, starting and stopping included,
  every registered context is alive, is stored under its own id, its id carries the number of this
  node, and the name table is sorted without duplicates; for every class of contexts whose
  \<open>on_init\<close> keeps its contract and fewer than \<open>2 ^ 24\<close> contexts.\<close>

theorem app_invariant:
  assumes "ctx_class init room" "length ops * (room + 1) < 2 ^ 24"
  shows "app_inv (foldl (app_step init) (app_init cfg) ops)"
proof -
  let ?a = "\<lambda>ops. foldl (app_step init) (app_init cfg) ops"
  from assms(2) have "app_inv (?a ops) \<and> unat (allocid (ap_mgr (?a ops))) \<le> length ops * (room + 1)"
  proof (induction ops rule: rev_induct)
    case Nil
    then show ?case by (simp add: app_init_def app_inv_def get_ctx_def) (simp add: ctx_mgr_init_def)
  next
    case (snoc op ops)
    then have IH: "app_inv (?a ops)" "unat (allocid (ap_mgr (?a ops))) \<le> length ops * (room + 1)"
      by simp_all
    moreover have "unat (allocid (ap_mgr (?a ops))) + 1 + room < 2 ^ 24"
      using IH(2) snoc.prems by simp
    ultimately show ?case
      using app_step_keeps [OF assms(1) IH(1), of op] by auto
  qed
  then show ?thesis by simp
qed

theorem app_invariant_witness:
  "app_inv (foldl (app_step on_init_default) (app_init \<lparr>cfg_nodeid = 1, cfg_thread = 1, cfg_nodes = [], cfg_bootstrap = []\<rparr>)
     [Reg ''T'' () ''echo'', Create ''echo'' '''', Stop 0x01000001])"
  by (rule app_invariant [OF plain.ctx_class_axioms]) simp

text \<open>C26. \<open>create_ctx\<close> returns 0 or the handle of a context that was not registered before and is
  now: the new object has this id, it is found under it, its receiver coroutine is scheduled, and
  the handle carries the number of the node and the next context number.\<close>

theorem create_ctx_registers:
  assumes "ctx_class init room" "app_inv a" "unat (allocid (ap_mgr a)) + 1 + room < 2 ^ 24"
    "create_ctx init name param a = (Inr i, a')" "i \<noteq> 0"
  shows "get_ctx (ap_mgr a) i = None \<and>
     get_ctx (ap_mgr a') i = Some (length (ap_objs a)) \<and> cx_id (ap_objs a' ! length (ap_objs a)) = i \<and>
     length (ap_objs a) \<in> set (ap_receivers a') \<and>
     handle_node (cqy_handle i) = cfg_nodeid (ap_config a) \<and>
     unat (handle_ctxid (cqy_handle i)) = unat (allocid (ap_mgr a)) + 1"
  using ctx_class.create_ok [OF assms] ctx_handle_parts [of a] assms(3) by auto

definition echo_app :: "(unit, unit) cqy_app_t" where
  "echo_app = reg_ctx ''T'' () ''echo'' (app_init \<lparr>cfg_nodeid = 1, cfg_thread = 1, cfg_nodes = [], cfg_bootstrap = []\<rparr>)"

lemma echo_app_inv: "app_inv echo_app"
  by (simp add: echo_app_def reg_ctx_def app_init_def app_inv_def get_ctx_def) (simp add: ctx_mgr_init_def)

theorem create_ctx_registers_witness:
  "get_ctx (ap_mgr (snd (create_ctx on_init_default ''echo'' '''' echo_app))) 0x01000001 = Some 0"
proof -
  have "fst (create_ctx on_init_default ''echo'' '''' echo_app) = Inr 0x01000001"
    by code_simp
  then have c: "create_ctx on_init_default ''echo'' '''' echo_app =
      (Inr 0x01000001, snd (create_ctx on_init_default ''echo'' '''' echo_app))"
    by (simp add: prod_eq_iff)
  have s: "unat (allocid (ap_mgr echo_app)) + 1 + 0 < 2 ^ 24" "length (ap_objs echo_app) = 0"
    by (simp_all add: echo_app_def reg_ctx_def app_init_def ctx_mgr_init_def)
  show ?thesis
    using create_ctx_registers [OF plain.ctx_class_axioms echo_app_inv s(1) c] s(2) by simp
qed

text \<open>C27. A batch received from another node: the mailbox of every open context gets, in order, the
  messages of the batch that are addressed to it by name or by id, up to the first malformed
  message; a stopped context gets nothing. The remote side always sees success.\<close>

theorem rpc_on_mq_delivers:
  assumes "p < length (ap_objs a)"
  shows "fst (rpc_on_mq msgs a) = Inr () \<and>
     q_items (cx_queue (ap_objs (snd (rpc_on_mq msgs a)) ! p)) = q_items (cx_queue (ap_objs a ! p)) @
       (if q_stop (cx_queue (ap_objs a ! p)) then []
        else filter (\<lambda>m. mq_target a m = Some p) (takeWhile well_formed msgs))"
  using rpc_on_mq_queue [OF assms, of msgs] rpc_on_mq_returns [of msgs a]
    chan.fold_put_open [of "cx_queue (ap_objs a ! p)"] chan.fold_put_closed [of "cx_queue (ap_objs a ! p)"]
  by simp

text \<open>A well-formed message for the context \<open>0x01000001\<close> and the application that has it.\<close>

definition echo_running :: "(unit, unit) cqy_app_t" where
  "echo_running = snd (create_ctx on_init_default ''echo'' '''' echo_app)"

lemma echo_running_objs: "length (ap_objs echo_running) = 1" "cx_queue (ap_objs echo_running ! 0) = queue_init"
  by code_simp+

theorem rpc_on_mq_delivers_witness:
  "q_items (cx_queue (ap_objs (snd (rpc_on_mq
       [msg_make 0x02000001 0x01000001 7 0 False ''a'', ''junk'', msg_make 0x02000001 0x01000001 8 0 False ''b'']
       echo_running)) ! 0)) = [msg_make 0x02000001 0x01000001 7 0 False ''a'']"
proof -
  let ?m = "msg_make 0x02000001 0x01000001 7 0 False ''a''" and ?n = "msg_make 0x02000001 0x01000001 8 0 False ''b''"
  have "mq_target echo_running ?m = Some 0" "well_formed ?m" "\<not> well_formed ''junk''"
    by code_simp+
  then show ?thesis
    using rpc_on_mq_delivers [of 0 echo_running "[?m, ''junk'', ?n]"]
    by (simp add: echo_running_objs queue_init_def)
qed

text \<open>If the node knows itself by the name in front of the dot, the call by name is the call by
  id of the context registered under the name; the messages for missing contexts differ.\<close>

theorem rpc_ctx_call_name_is_call:
  assumes "app_inv a" "get_handle a nodectx = Inr (Some (h, name))" "handle_nodeid h = cfg_nodeid (ap_config a)"
    "get_ctx (ap_mgr a) (find_name (ap_mgr a) name) \<noteq> None"
  shows "rpc_ctx_call_name exec nodectx func_name param_data a =
     rpc_ctx_call exec (find_name (ap_mgr a) name) func_name param_data a"
proof -
  obtain p where p: "get_ctx (ap_mgr a) (find_name (ap_mgr a) name) = Some p"
    using assms(4) by blast
  then have "handle_nodeid (cqy_handle (find_name (ap_mgr a) name)) = cfg_nodeid (ap_config a)"
    using assms(1) by (simp add: app_inv_def handle_node_def)
  with p assms(2,3) show ?thesis
    by (simp add: rpc_ctx_call_name_def rpc_ctx_call_def)
qed

text \<open>Calls that cannot be run are answered with status -1 and leave the application unchanged:
  a handle of another node, an unknown context, a function that is not registered. In every other
  case the answer is that of the registered function.\<close>

theorem rpc_ctx_call_result:
  "rpc_ctx_call exec to func_name param_data a =
     (case (if handle_node (cqy_handle to) = cfg_nodeid (ap_config a) then get_ctx (ap_mgr a) to else None) of
        None \<Rightarrow> (Inr \<lparr>rr_status = -1, rr_res = ''id:'' @ hex_u32 to @ '' miss''\<rparr>, a)
      | Some p \<Rightarrow>
          (case map_of (cx_router (ap_objs a ! p)) func_name of
             None \<Rightarrow> (Inr \<lparr>rr_status = -1, rr_res = ''func_name:'' @ func_name @ '' miss''\<rparr>, a)
           | Some (muli, f) \<Rightarrow> exec muli f p param_data a))"
  by (simp add: rpc_ctx_call_def rpc_call_registered_def rpc_on_call_def handle_node_def miss_def
      split: option.split prod.split sum.split)

text \<open>A stopped context is out of the registry, its mailbox is closed, and a message sent to its
  id afterwards is dropped.\<close>

theorem stop_ctx_silences:
  assumes "app_inv a" "get_ctx (ap_mgr a) i = Some p"
  shows "get_ctx (ap_mgr (stop_ctx i a)) i = None \<and> q_stop (cx_queue (ap_objs (stop_ctx i a) ! p)) \<and>
     (msg_to (get_msg msg) = i \<longrightarrow> node_mq_push msg (stop_ctx i a) = stop_ctx i a)"
proof -
  have p: "p < length (ap_objs a)" "handle_nodeid (cqy_handle i) = cfg_nodeid (ap_config a)"
    using assms by (simp_all add: app_inv_def handle_node_def)
  have s: "get_ctx (ap_mgr (stop_ctx i a)) i = None" "ap_config (stop_ctx i a) = ap_config a"
    using assms(2) by (simp_all add: stop_ctx_def ctx_shutdown_def get_ctx_del)
  have "node_mq_push msg (stop_ctx i a) = stop_ctx i a" if "msg_to (get_msg msg) = i"
    using that s p(2) by (auto simp: node_mq_push_def Let_def dest: msg_parse_Some split: option.splits)
  moreover have "q_stop (cx_queue (ap_objs (stop_ctx i a) ! p))"
    using assms(2) p(1) by (simp add: stop_ctx_def ctx_shutdown_def upd_obj_nth q_shutdown_def)
  ultimately show ?thesis using s(1) by blast
qed

lemma echo_running_inv: "app_inv echo_running"
proof -
  have "unat (allocid (ap_mgr echo_app)) + 1 + 0 < 2 ^ 24"
    by (simp add: echo_app_def reg_ctx_def app_init_def ctx_mgr_init_def)
  from plain.create_keeps [OF echo_app_inv this] show ?thesis
    by (simp add: echo_running_def)
qed

lemma echo_running_ctx: "get_ctx (ap_mgr echo_running) 0x01000001 = Some 0"
  by code_simp

theorem stop_ctx_silences_witness:
  "get_ctx (ap_mgr (stop_ctx 0x01000001 echo_running)) 0x01000001 = None \<and>
   node_mq_push (msg_make 0 0x01000001 1 0 False ''late'') (stop_ctx 0x01000001 echo_running)
     = stop_ctx 0x01000001 echo_running"
  using stop_ctx_silences [OF echo_running_inv echo_running_ctx, of "msg_make 0 0x01000001 1 0 False ''late''"]
  by simp

definition named_app :: "(unit, unit) cqy_app_t" where
  "named_app = (snd (app_register_name ''echo'' 0x01000001 echo_running))\<lparr>ap_node := node_init\<lparr>self_nodeid := 1,
     nodes := [\<lparr>nd_info = \<lparr>info_name = ''n1'', info_ip = [], info_nodeid = 1, info_port = 1\<rparr>,
       nd_queue = queue_init, nd_client = None\<rparr>]\<rparr>\<rparr>"

theorem rpc_ctx_call_name_is_call_witness:
  "rpc_ctx_call_name (\<lambda>_ _ _ _ b. (Inr rpc_result_zero, b)) ''.echo'' ''f'' '''' named_app =
   rpc_ctx_call (\<lambda>_ _ _ _ b. (Inr rpc_result_zero, b)) 0x01000001 ''f'' '''' named_app"
proof -
  have "app_inv named_app"
    unfolding named_app_def app_inv_node_change by (rule app_inv_register_name(1) [OF echo_running_inv])
  moreover have "get_handle named_app ''.echo'' = Inr (Some (cqy_handle 0x01000000, ''echo''))"
    "handle_nodeid (cqy_handle 0x01000000) = cfg_nodeid (ap_config named_app)"
    "find_name (ap_mgr named_app) ''echo'' = 0x01000001" "get_ctx (ap_mgr named_app) 0x01000001 = Some 0"
    by code_simp+
  ultimately show ?thesis
    using rpc_ctx_call_name_is_call [of named_app "''.echo''" "cqy_handle 0x01000000" "''echo''"]
    by simp
qed

text \<open>\<open>start()\<close> without a bootstrap context throws exactly when the configuration has no entry for
  this node.\<close>

theorem app_start_throws_iff:
  assumes "cfg_bootstrap (ap_config a) = []"
  shows "(\<exists>e. fst (app_start init a) = Inl e) \<longleftrightarrow>
     (\<forall>info \<in> set (cfg_nodes (ap_config a)). info_nodeid info \<noteq> ucast (cfg_nodeid (ap_config a)))"
  using assms by (simp add: app_start_def start_nodes_eq Let_def filter_empty_conv)

theorem app_start_throws_iff_witness:
  "\<exists>e. fst (app_start on_init_default (app_init \<lparr>cfg_nodeid = 1, cfg_thread = 1, cfg_nodes = [n2_info], cfg_bootstrap = []\<rparr>
     :: (unit, unit) cqy_app_t)) = Inl e"
  using app_start_throws_iff [of "app_init \<lparr>cfg_nodeid = 1, cfg_thread = 1, cfg_nodes = [n2_info], cfg_bootstrap = []\<rparr>"
    "on_init_default :: (unit, unit) ctx_on_init"]
  by (simp add: app_init_def n2_info_def)

lemma app_start_nodes:
  assumes "cfg_bootstrap (ap_config a) = []" "ap_node a = node_init"
    "distinct (map info_nodeid (cfg_nodes (ap_config a)))"
    "self \<in> set (cfg_nodes (ap_config a))" "info_nodeid self = ucast (cfg_nodeid (ap_config a))"
  shows "nodes (ap_node (snd (app_start init a))) =
     map (\<lambda>i. last (nodes (fst (create_client i node_init))))
       (filter (\<lambda>i. info_nodeid i \<noteq> ucast (cfg_nodeid (ap_config a))) (cfg_nodes (ap_config a))) @
     [\<lparr>nd_info = self, nd_queue = queue_init, nd_client = None\<rparr>]"
    "self_nodeid (ap_node (snd (app_start init a))) = cfg_nodeid (ap_config a)"
proof -
  let ?own = "filter (\<lambda>i. info_nodeid i = ucast (cfg_nodeid (ap_config a))) (cfg_nodes (ap_config a))"
  have own: "?own \<noteq> []"
    using assms(4,5) by (auto simp: filter_empty_conv)
  have "last ?own \<in> set ?own"
    using own by (rule last_in_set)
  then have "last ?own = self"
    using assms(3-5) by (auto simp: distinct_map inj_on_def)
  with own show "nodes (ap_node (snd (app_start init a))) =
     map (\<lambda>i. last (nodes (fst (create_client i node_init))))
       (filter (\<lambda>i. info_nodeid i \<noteq> ucast (cfg_nodeid (ap_config a))) (cfg_nodes (ap_config a))) @
     [\<lparr>nd_info = self, nd_queue = queue_init, nd_client = None\<rparr>]"
    "self_nodeid (ap_node (snd (app_start init a))) = cfg_nodeid (ap_config a)"
    using assms(1,2,5)
    by (simp_all add: app_start_def start_nodes_eq Let_def create_rpc_server_def) (simp add: node_init_def)
qed

text \<open>\<open>start()\<close> with a bootstrap line creates the context in an application that knows its own node.\<close>

lemma app_start_boot:
  assumes "ap_node a = node_init" "own \<in> set (cfg_nodes (ap_config a))" "info_nodeid own = ucast (cfg_nodeid (ap_config a))"
    "cfg_bootstrap (ap_config a) \<noteq> []" "algo_split_one (cfg_bootstrap (ap_config a)) '' '' = Inr (name, param)"
  obtains a2 k where "app_start init a = (case create_ctx init name param a2 of (Inl e, a3) \<Rightarrow> (Inl e, a3) | (Inr _, a3) \<Rightarrow> (Inr (), a3))"
    "ap_mgr a2 = ap_mgr a" "ap_config a2 = ap_config a" "ap_creator a2 = ap_creator a" "ap_objs a2 = ap_objs a"
    "get_node_name (ap_node a2) [] = Some k" "ucast (info_nodeid (nd_info (nodes (ap_node a2) ! k))) = cfg_nodeid (ap_config a)"
proof -
  let ?me = "ucast (cfg_nodeid (ap_config a)) :: u32" and ?cfg = "ap_config a"
  let ?own = "filter (\<lambda>i. info_nodeid i = ?me) (cfg_nodes ?cfg)" and ?others = "filter (\<lambda>i. info_nodeid i \<noteq> ?me) (cfg_nodes ?cfg)"
  have own: "?own \<noteq> []" using assms(2,3) by (auto simp: filter_empty_conv)
  then have self: "info_nodeid (last ?own) = ?me" using last_in_set [OF own] by simp
  define n where "n = create_rpc_server (cfg_thread ?cfg) (last ?own)
    (node_init\<lparr>nodes := map (\<lambda>i. last (nodes (fst (create_client i node_init)))) ?others\<rparr>)"
  define a2 where "a2 = a\<lparr>ap_senders := ap_senders a @ map (\<lambda>i. ucast (info_nodeid i)) ?others, ap_node := n\<rparr>"
  have none: "index_of (\<lambda>d. info_nodeid (nd_info d) = ?me) (map (\<lambda>i. last (nodes (fst (create_client i node_init)))) ?others) = None"
    by (auto simp: index_of_None_iff create_client_def)
  have "get_node_name n [] = Some (length ?others)" "nd_info (nodes n ! length ?others) = last ?own"
    using self by (simp_all add: n_def get_node_name_def get_node_def create_rpc_server_def index_of_append none nth_append)
  moreover have "app_start init a = (case create_ctx init name param a2 of (Inl e, a3) \<Rightarrow> (Inl e, a3) | (Inr _, a3) \<Rightarrow> (Inr (), a3))"
    using assms(1,4,5) own by (simp add: app_start_def start_nodes_eq Let_def a2_def n_def node_init_def)
  ultimately show ?thesis
    using self by (intro that [of a2 "length ?others"]) (simp_all add: a2_def)
qed

lemma index_of_distinct:
  assumes "distinct (map f xs)" "x \<in> set xs"
  shows "\<exists>k. index_of (\<lambda>y. f y = f x) xs = Some k \<and> k < length xs \<and> xs ! k = x"
proof (cases "index_of (\<lambda>y. f y = f x) xs")
  case None
  with assms(2) show ?thesis by (auto simp: index_of_None_iff)
next
  case (Some k)
  then have "k < length xs" "f (xs ! k) = f x" by (simp_all add: index_of_Some_iff)
  then show ?thesis
    using Some assms by (auto simp: distinct_map inj_on_def)
qed

lemma ucast_u32_u8: "x < 256 \<Longrightarrow> (ucast (ucast (x :: u32) :: u8) :: u32) = x"
proof -
  assume "x < 256"
  then have "take_bit 8 x = x"
    by (simp add: word_unat_eq_iff unsigned_take_bit_eq take_bit_nat_eq_self_iff word_less_nat_alt)
  moreover have "(ucast (ucast x :: u8) :: u32) = take_bit 8 x"
    by (rule bit_word_eqI) (auto simp: bit_simps)
  ultimately show ?thesis by simp
qed

text \<open>After \<open>start()\<close> every configured node is found under its number; a name with an empty node
  part refers to this node; every other node has a client. This holds for a configuration with
  distinct numbers that lists this node, and for each node whose number is below 256.\<close>

theorem app_start_finds_nodes:
  assumes "cfg_bootstrap (ap_config a) = []" "ap_node a = node_init"
    "distinct (map info_nodeid (cfg_nodes (ap_config a)))"
    "self \<in> set (cfg_nodes (ap_config a))" "info_nodeid self = ucast (cfg_nodeid (ap_config a))"
    "info \<in> set (cfg_nodes (ap_config a))" "info_nodeid info < 256"
  shows "\<exists>k. get_node (ap_node (snd (app_start init a))) (ucast (info_nodeid info)) = Some k \<and>
     nd_info (nodes (ap_node (snd (app_start init a))) ! k) = info \<and>
     (info = self \<longleftrightarrow> get_node_name (ap_node (snd (app_start init a))) [] = Some k) \<and>
     (info = self \<longleftrightarrow> nd_client (nodes (ap_node (snd (app_start init a))) ! k) = None)"
proof -
  let ?n = "ap_node (snd (app_start init a))"
  let ?me = "ucast (cfg_nodeid (ap_config a)) :: u32"
  let ?infos = "filter (\<lambda>i. info_nodeid i \<noteq> ?me) (cfg_nodes (ap_config a)) @ [self]"
  note n = app_start_nodes [OF assms(1-5), of init]
  have infos: "map nd_info (nodes ?n) = ?infos"
    unfolding n(1) by (simp add: comp_def)
  have d: "distinct (map info_nodeid ?infos)"
    using assms(3,5) by (auto simp: distinct_map_filter)
  have get: "get_node ?n i = index_of (\<lambda>x. info_nodeid x = ucast i) ?infos" for i
    by (simp only: get_node_def infos [symmetric] index_of_map)
  have "info \<in> set ?infos"
    using assms(3-6) by (auto simp: distinct_map inj_on_def)
  from index_of_distinct [OF d this] obtain k where
    k: "index_of (\<lambda>x. info_nodeid x = info_nodeid info) ?infos = Some k" "k < length ?infos" "?infos ! k = info"
    by blast
  have g: "get_node ?n (ucast (info_nodeid info)) = Some k"
    using k(1) assms(7) by (simp only: get ucast_u32_u8)
  have "length (nodes ?n) = length ?infos"
    using infos by (metis length_map)
  then have kn: "k < length (nodes ?n)" "nd_info (nodes ?n ! k) = info"
    using k(2,3) infos by (simp, metis nth_map)
  have self: "get_node_name ?n [] = index_of (\<lambda>x. info_nodeid x = info_nodeid self) ?infos"
    by (simp only: get_node_name_def get n(2) assms(5) simp_thms if_True)
  have "info = self" if "get_node_name ?n [] = Some k"
  proof -
    have "info_nodeid info = info_nodeid self"
      using that k(3) unfolding self index_of_Some_iff by auto
    then show ?thesis
      using assms(3,4,6) by (auto simp: distinct_map inj_on_def)
  qed
  moreover have "nodes ?n ! k \<in> set (nodes ?n)"
    using kn(1) by (rule nth_mem)
  then have "info = self \<longleftrightarrow> nd_client (nodes ?n ! k) = None"
    using kn(2) assms(5) unfolding n(1) by (auto simp: create_client_def)
  ultimately show ?thesis
    using g kn(2) k(1) self by auto
qed

definition n1_info :: node_info where
  "n1_info = \<lparr>info_name = ''n1'', info_ip = ''127.0.0.1'', info_nodeid = 1, info_port = 8888\<rparr>"

definition two_nodes :: "u8 \<Rightarrow> config_t" where
  "two_nodes i = \<lparr>cfg_nodeid = i, cfg_thread = 1, cfg_nodes = [n1_info, n2_info], cfg_bootstrap = []\<rparr>"

theorem app_start_finds_nodes_witness:
  "\<exists>k. get_node (ap_node (snd (app_start on_init_default (app_init (two_nodes 1) :: (unit, unit) cqy_app_t)))) 2 = Some k \<and>
     nd_info (nodes (ap_node (snd (app_start on_init_default (app_init (two_nodes 1) :: (unit, unit) cqy_app_t)))) ! k) = n2_info"
  using app_start_finds_nodes [of "app_init (two_nodes 1) :: (unit, unit) cqy_app_t" n1_info n2_info on_init_default]
  by (auto simp: app_init_def two_nodes_def n1_info_def n2_info_def)

text \<open>When the server has stopped, the queues of all registered contexts and of all nodes are
  closed and no node has a client any more.\<close>

theorem app_clear_closes:
  assumes "app_inv a" "get_ctx (ap_mgr a) i = Some p" "d \<in> set (nodes (ap_node (app_clear a)))"
  shows "q_stop (cx_queue (ap_objs (app_clear a) ! p)) \<and> q_stop (nd_queue d) \<and> nd_client d = None"
proof -
  let ?a = "a\<lparr>ap_node := node_shutdown (ap_node a)\<rparr>"
  have node: "ap_node (shutdown_ctxs ids b) = ap_node b" for ids and b :: "('a, 'b) cqy_app_t"
    by (induction ids arbitrary: b) (auto simp: ctx_shutdown_def split: option.split)
  have "i \<in> set (collect_ctxids (ap_mgr a))" "p < length (ap_objs ?a)"
    using assms(1,2) by (force simp: collect_ctxids_def get_ctx_def dest: map_of_SomeD) (use assms in \<open>simp add: app_inv_def\<close>)
  then have "q_stop (cx_queue (ap_objs (app_clear a) ! p))"
    using assms(2) shutdown_ctxs_queue [of p ?a "collect_ctxids (ap_mgr a)"]
    by (auto simp: app_clear_def Let_def)
  moreover have "d \<in> shutdown_one ` set (nodes (ap_node a))"
    using assms(3) by (simp add: app_clear_def Let_def node node_shutdown_def)
  ultimately show ?thesis
    by (auto simp: shutdown_one_def q_shutdown_def)
qed

theorem app_clear_closes_witness:
  "q_stop (cx_queue (ap_objs (app_clear named_app) ! 0)) \<and>
   q_stop (nd_queue (nodes (ap_node (app_clear named_app)) ! 0))"
proof -
  have inv: "app_inv named_app"
    unfolding named_app_def app_inv_node_change by (rule app_inv_register_name(1) [OF echo_running_inv])
  have "get_ctx (ap_mgr named_app) 0x01000001 = Some 0" "length (nodes (ap_node (app_clear named_app))) = 1"
    by code_simp+
  then show ?thesis
    using app_clear_closes [OF inv, of "0x01000001" 0 "nodes (ap_node (app_clear named_app)) ! 0"] by simp
qed

text \<open>An \<open>on_init\<close> that registers a name and then reports failure.\<close>

definition on_init_fails_named :: "string \<Rightarrow> ('u, 'f) ctx_on_init" where
  "on_init_fails_named nm p param a =
     (case app_register_name nm (cx_id (ap_objs a ! p)) a of
        (Inl e, a') \<Rightarrow> (Inl e, a')
      | (Inr _, a') \<Rightarrow> (Inr False, a'))"

lemma snd_on_init_fails_named:
  "snd (on_init_fails_named nm p param a) = snd (app_register_name nm (cx_id (ap_objs a ! p)) a)"
  by (simp add: on_init_fails_named_def split: prod.split sum.split)

interpretation fails_named: ctx_class "on_init_fails_named nm" 0
  by unfold_locales (simp_all add: snd_on_init_fails_named app_inv_register_name)

text \<open>C38. A context whose \<open>on_init\<close> registers a name and then fails leaves the name behind: the name
  refers to no context and the next attempt to create the context throws.\<close>

theorem failed_init_keeps_name:
  assumes "app_inv a" "map_of (ap_creator a) cls = Some u" "names_of (ap_mgr a) nm = None"
    "unat (allocid (ap_mgr a)) + 1 < 2 ^ 24"
    "create_ctx (on_init_fails_named nm) cls param a = (r, a')"
  shows "r = Inr 0 \<and> find_name (ap_mgr a') nm \<noteq> 0 \<and> get_ctx (ap_mgr a') (find_name (ap_mgr a') nm) = None \<and>
     fst (create_ctx (on_init_fails_named nm) cls param a') = Inl (Runtime_Error ''name already exists'')"
proof -
  let ?b = "create_pre u a" and ?p = "length (ap_objs a)"
  have b: "mgr_inv (ap_mgr ?b)" "names_of (ap_mgr ?b) nm = None" "cx_id (ap_objs ?b ! ?p) = ctx_handle a"
    "get_ctx (ap_mgr ?b) = get_ctx (ap_mgr a)"
    using assms(1,3) by (auto simp: create_pre_def mgr_inv_def names_of_def app_inv_def get_ctx_def fun_eq_iff)
  obtain m where m: "register_name nm (ctx_handle a) (ap_mgr ?b) = Inr m"
    using b(1,2) by (auto simp: register_name_cases)
  have a': "r = Inr 0" "a' = ?b\<lparr>ap_mgr := m\<rparr>"
    using assms(2,5) m b(3) by (auto simp: create_ctx_eq on_init_fails_named_def app_register_name_def)
  have n: "mgr_inv m" "names_of m nm = Some (ctx_handle a)" "get_ctx m = get_ctx (ap_mgr a)"
    using mgr_inv_register_name [OF b(1) m] names_of_register [OF b(1) m] m b(4)
    by (auto simp: register_name_def get_ctx_def fun_eq_iff split: if_splits)
  then have "find_name m nm = ctx_handle a"
    by (simp add: find_name_names_of)
  moreover have "get_ctx (ap_mgr a) (ctx_handle a) = None" "ctx_handle a \<noteq> 0"
    using get_ctx_create_pre [OF assms(1,4)] ctx_handle_parts(3) [OF assms(4)] by simp_all
  moreover have "register_name nm i (m\<lparr>allocid := x\<rparr>) = Inl (Runtime_Error ''name already exists'')" for i x
    using n(1,2) register_name_cases [of "m\<lparr>allocid := x\<rparr>" nm i] by (simp add: mgr_inv_def names_of_def)
  ultimately show ?thesis
    using n(3) assms(2) a'
    by (simp add: create_ctx_eq on_init_fails_named_def app_register_name_def create_pre_def)
qed

theorem failed_init_keeps_name_witness:
  "fst (create_ctx (on_init_fails_named ''x'') ''echo'' '''' (snd (create_ctx (on_init_fails_named ''x'') ''echo'' '''' echo_app)))
     = Inl (Runtime_Error ''name already exists'')"
  using failed_init_keeps_name [OF echo_app_inv, of "''echo''" "()" "''x''" "''''" "fst (create_ctx (on_init_fails_named ''x'') ''echo'' '''' echo_app)"
      "snd (create_ctx (on_init_fails_named ''x'') ''echo'' '''' echo_app)"]
  by (simp add: echo_app_def reg_ctx_def app_init_def ctx_mgr_init_def names_of_def)

end
