(* ===== verification/Cqy_Ctx.thy ===== *)
theory Cqy_Ctx
  imports Cqy_App
begin

text \<open>
  \<open>include/cqy_ctx.h\<close> and \<open>src/cqy_ctx.cpp\<close>: what a context does. Sending messages by id and by
  name, answering, registering names and functions, calling functions of other contexts, and the
  coroutine that takes messages out of the mailbox. The context is the object at index \<open>p\<close> of the
  store of its application. The lock of a context is the subject of the theory \<open>Cqy_Ctx_Lock\<close>.
\<close>

section \<open>Sending\<close>

definition getid :: "nat \<Rightarrow> ('u, 'f) cqy_app_t \<Rightarrow> u32" where
  "getid p a = cx_id (ap_objs a ! p)"

text \<open>\<open>++s_->session\<close>\<close>

definition next_session :: "nat \<Rightarrow> ('u, 'f) cqy_app_t \<Rightarrow> u32 \<times> ('u, 'f) cqy_app_t" where
  "next_session p a =
     (let s = cx_session (ap_objs a ! p) + 1 in (s, upd_obj p (\<lambda>c. c\<lparr>cx_session := s\<rparr>) a))"

definition dispatch_id :: "nat \<Rightarrow> u32 \<Rightarrow> u8 \<Rightarrow> string \<Rightarrow> ('u, 'f) cqy_app_t \<Rightarrow> u32 \<times> ('u, 'f) cqy_app_t" where
  "dispatch_id p to t data a =
     (let (sessionid, a1) = next_session p a
      in (sessionid, node_mq_push (msg_make (getid p a1) to sessionid t False data) a1))"

text \<open>By name. For another node, \<open>assert(ctxname.size() < 255)\<close> guards the length byte of the message; it is taken as enabled.\<close>

definition dispatch_name ::
  "nat \<Rightarrow> string \<Rightarrow> u8 \<Rightarrow> string \<Rightarrow> ('u, 'f) cqy_app_t \<Rightarrow> u32 result \<times> ('u, 'f) cqy_app_t" where
  "dispatch_name p nodectx t data a =
     (case get_handle a nodectx of
        Inl e \<Rightarrow> (Inl e, a)
      | Inr None \<Rightarrow> (Inr (-1), a)
      | Inr (Some (h, ctxname)) \<Rightarrow>
          let nodeid = handle_nodeid h in
          if nodeid = app_self_nodeid a \<or> handle_node h = 0
          then let (s, a1) = dispatch_id p (get_ctxid a ctxname) t data a in (Inr s, a1)
          else if \<not> length ctxname < 255 then (Inl Assert_Failed, a)
          else let (sessionid, a1) = next_session p a
               in (Inr sessionid,
                   node_mq_push (msg_make_route (getid p a1) nodeid ctxname sessionid t False data) a1))"

definition response :: "nat \<Rightarrow> cqy_msg_t \<Rightarrow> string \<Rightarrow> ('u, 'f) cqy_app_t \<Rightarrow> ('u, 'f) cqy_app_t" where
  "response p msg data a =
     node_mq_push (msg_make (getid p a) (msg_from msg) (msg_session msg) (msg_type msg) True data) a"

text \<open>\<open>ser\<close> is \<open>struct_pack::serialize_to\<close> of the arguments.\<close>

definition dispatch_pack_id ::
  "('p \<Rightarrow> string) \<Rightarrow> nat \<Rightarrow> u32 \<Rightarrow> u8 \<Rightarrow> 'p \<Rightarrow> ('u, 'f) cqy_app_t \<Rightarrow> u32 \<times> ('u, 'f) cqy_app_t" where
  "dispatch_pack_id ser p i t args = dispatch_id p i t (ser args)"

definition dispatch_pack_name ::
  "('p \<Rightarrow> string) \<Rightarrow> nat \<Rightarrow> string \<Rightarrow> u8 \<Rightarrow> 'p \<Rightarrow> ('u, 'f) cqy_app_t \<Rightarrow> u32 result \<times> ('u, 'f) cqy_app_t" where
  "dispatch_pack_name ser p nodectx t args = dispatch_name p nodectx t (ser args)"

text \<open>\<open>unpack\<close>: \<open>deser\<close> is \<open>struct_pack::deserialize_to\<close>, with its error message on the left.\<close>

definition unpack :: "(string \<Rightarrow> string + 'p) \<Rightarrow> string \<Rightarrow> 'p result" where
  "unpack deser msg =
     (case deser msg of Inl e \<Rightarrow> Inl (Runtime_Error (''struct deser err:'' @ e)) | Inr args \<Rightarrow> Inr args)"

section \<open>Names and functions\<close>

definition ctx_register_name :: "nat \<Rightarrow> string \<Rightarrow> ('u, 'f) cqy_app_t \<Rightarrow> unit result \<times> ('u, 'f) cqy_app_t" where
  "ctx_register_name p name a = app_register_name name (getid p a) a"

text \<open>\<open>fname\<close> is \<open>coro_rpc::get_func_name<F>()\<close>.\<close>

definition register_rpc_func ::
  "nat \<Rightarrow> string \<Rightarrow> bool \<Rightarrow> 'f \<Rightarrow> string \<Rightarrow> ('u, 'f) cqy_app_t \<Rightarrow> ('u, 'f) cqy_app_t" where
  "register_rpc_func p fname muli f name =
     upd_obj p (\<lambda>c. c\<lparr>cx_router := AList.update (if name = [] then fname else name) (muli, f) (cx_router c)\<rparr>)"

section \<open>Calling\<close>

text \<open>
  \<open>send k\<close> is the outcome of the call through the client of the peer at index \<open>k\<close>. A null
  \<open>rpc_client\<close> is dereferenced without a check.
\<close>

definition ctx_call_nolock ::
  "('u, 'f) rpc_exec \<Rightarrow> (nat \<Rightarrow> u32 \<Rightarrow> string \<Rightarrow> string \<Rightarrow> rpc_result_t remote) \<Rightarrow> ('p \<Rightarrow> string) \<Rightarrow>
   u32 \<Rightarrow> string \<Rightarrow> 'p option \<Rightarrow> ('u, 'f) cqy_app_t \<Rightarrow> rpc_result_t result \<times> ('u, 'f) cqy_app_t" where
  "ctx_call_nolock exec send ser to func_name args a =
     (let h = cqy_handle to in
      if handle_nodeid h = cfg_nodeid (ap_config a)
      then rpc_ctx_call exec to func_name (rpc_encode ser args) a
      else case get_node (ap_node a) (handle_node h) of
             None \<Rightarrow>
               (Inr \<lparr>rr_status = -2,
                     rr_res = ''nodeid:'' @ int_to_string (uint (handle_nodeid h)) @ '' config miss''\<rparr>, a)
           | Some k \<Rightarrow>
               if nd_client (nodes (ap_node a) ! k) = None then (Inl Bad_Access, a)
               else (case send k to func_name (rpc_encode ser args) of
                       Pool_Error \<Rightarrow> (Inr \<lparr>rr_status = -4, rr_res = []\<rparr>, a)
                     | Call_Error \<Rightarrow> (Inr \<lparr>rr_status = -4, rr_res = []\<rparr>, a)
                     | Reply r \<Rightarrow> (Inr r, a)))"

definition ctx_call_name_nolock ::
  "('u, 'f) rpc_exec \<Rightarrow> (nat \<Rightarrow> string \<Rightarrow> string \<Rightarrow> string \<Rightarrow> rpc_result_t remote) \<Rightarrow> ('p \<Rightarrow> string) \<Rightarrow>
   string \<Rightarrow> string \<Rightarrow> 'p option \<Rightarrow> ('u, 'f) cqy_app_t \<Rightarrow> rpc_result_t result \<times> ('u, 'f) cqy_app_t" where
  "ctx_call_name_nolock exec send ser nodectx func_name args a =
     (case get_handle a nodectx of
        Inl e \<Rightarrow> (Inl e, a)
      | Inr None \<Rightarrow> (Inr \<lparr>rr_status = -1, rr_res = ''nodectx:'' @ nodectx @ '' miss''\<rparr>, a)
      | Inr (Some (h, ctx_name)) \<Rightarrow>
          let nodeid = handle_node h in
          if nodeid = cfg_nodeid (ap_config a)
          then rpc_ctx_call_name exec nodectx func_name (rpc_encode ser args) a
          else case get_node (ap_node a) nodeid of
                 None \<Rightarrow>
                   (Inr \<lparr>rr_status = -2,
                         rr_res = ''nodeid:'' @ int_to_string (uint nodeid) @ '' config miss''\<rparr>, a)
               | Some k \<Rightarrow>
                   if nd_client (nodes (ap_node a) ! k) = None then (Inl Bad_Access, a)
                   else (case send k nodectx func_name (rpc_encode ser args) of
                           Pool_Error \<Rightarrow> (Inr \<lparr>rr_status = -4, rr_res = []\<rparr>, a)
                         | Call_Error \<Rightarrow> (Inr \<lparr>rr_status = -4, rr_res = []\<rparr>, a)
                         | Reply r \<Rightarrow> (Inr r, a)))"

section \<open>Receiving\<close>

text \<open>
  The loop of \<open>wait_msg_spawn\<close>: at its head, or suspended in \<open>pop\<close>. A step yields the message for
  which a coroutine with \<open>on_msg\<close> is started. \<open>None\<close>: suspended or finished. The exception \<open>pop\<close>
  throws on a stopped queue is caught and the loop goes on. Here \<open>pop\<close> and the start of \<open>on_msg\<close> are one step, which the mutex of the queue justifies
  against pushes but nothing justifies against \<open>shutdown\<close>; the loop beside a shutdown is the subject of \<open>Cqy_Ctx_Loop\<close>.
\<close>

datatype wm_pc = WM_head | WM_pop | WM_done

definition wait_step ::
  "string cqy_cv_queue_t \<Rightarrow> wm_pc \<Rightarrow> (string cqy_cv_queue_t \<times> wm_pc \<times> string option) option" where
  "wait_step q pc =
     (case pc of
        WM_head \<Rightarrow> Some (q, if q_stop q then WM_done else WM_pop, None)
      | WM_pop \<Rightarrow>
          (case q_pop q of
             None \<Rightarrow> None
           | Some (Inl e, q') \<Rightarrow> Some (q', WM_head, None)
           | Some (Inr msg, q') \<Rightarrow>
               Some (q', WM_head, if msg_parse True msg \<noteq> None then Some msg else None))
      | WM_done \<Rightarrow> None)"

section \<open>What sending does\<close>

lemma next_session_simps [simp]:
  "ap_mgr (snd (next_session p a)) = ap_mgr a" "ap_config (snd (next_session p a)) = ap_config a"
  "ap_node (snd (next_session p a)) = ap_node a" "fst (next_session p a) = cx_session (ap_objs a ! p) + 1"
  "length (ap_objs (snd (next_session p a))) = length (ap_objs a)"
  by (simp_all add: next_session_def Let_def)

lemma next_session_obj [simp]:
  "cx_id (ap_objs (snd (next_session p a)) ! q) = cx_id (ap_objs a ! q)"
  "getid q (snd (next_session p a)) = getid q a"
  by (simp_all add: next_session_def Let_def upd_obj_keeps_id getid_def)

lemma next_session_queue [simp]:
  "q < length (ap_objs a) \<Longrightarrow> cx_queue (ap_objs (snd (next_session p a)) ! q) = cx_queue (ap_objs a ! q)"
  by (simp add: next_session_def Let_def upd_obj_nth)

text \<open>A well-formed message for this node, and one for another node.\<close>

lemma node_mq_push_local:
  assumes "msg_parse True msg = Some m" "handle_node (cqy_handle (msg_to m)) = cfg_nodeid (ap_config a)"
    "get_ctx (ap_mgr a) (msg_to m) = Some q"
  shows "node_mq_push msg a = node_push_msg q msg a"
  using assms by (simp add: node_mq_push_def handle_node_def)

lemma node_mq_push_remote:
  assumes "msg_parse True msg = Some m" "handle_node (cqy_handle (msg_to m)) \<noteq> cfg_nodeid (ap_config a)"
    "get_node (ap_node a) (handle_node (cqy_handle (msg_to m))) = Some k"
  shows "node_mq_push msg a = peer_push k msg a"
  using assms by (simp add: node_mq_push_def handle_node_def)

lemma peer_push_queue:
  assumes "k < length (nodes (ap_node a))" "\<not> q_stop (nd_queue (nodes (ap_node a) ! k))"
  shows "q_items (nd_queue (nodes (ap_node (peer_push k msg a)) ! k)) = q_items (nd_queue (nodes (ap_node a) ! k)) @ [msg]"
  using assms by (simp add: peer_push_def Let_def q_push_def)

lemma node_push_msg_queue:
  assumes "q < length (ap_objs a)" "\<not> q_stop (cx_queue (ap_objs a ! q))"
  shows "q_items (cx_queue (ap_objs (node_push_msg q msg a) ! q)) = q_items (cx_queue (ap_objs a ! q)) @ [msg]"
  using assms by (simp add: node_push_msg_def upd_obj_nth q_push_def)

text \<open>Delivery of a single message on the receiving node.\<close>

lemma rpc_on_mq_one:
  assumes "well_formed msg" "mq_target b msg = Some q" "q < length (ap_objs b)" "\<not> q_stop (cx_queue (ap_objs b ! q))"
  shows "q_items (cx_queue (ap_objs (snd (rpc_on_mq [msg] b)) ! q)) = q_items (cx_queue (ap_objs b ! q)) @ [msg]"
  using rpc_on_mq_queue [OF assms(3), of "[msg]"] chan.put_open [OF assms(4)] assms(1,2) by simp

lemma rpc_on_mq_single:
  "well_formed msg \<Longrightarrow> mq_target b msg = Some q \<Longrightarrow> snd (rpc_on_mq [msg] b) = node_push_msg q msg b"
  by (auto simp: well_formed_def mq_target_def dest!: msg_parse_Some split: sum.splits)

lemma well_formed_make: "length data < 2 ^ 32 \<Longrightarrow> well_formed (msg_make source to session t rsp data)"
  by (simp add: well_formed_def msg_parse_make)

lemma well_formed_make_route:
  "length name < 256 \<Longrightarrow> 1 + length name + length data < 2 ^ 32 \<Longrightarrow>
   well_formed (msg_make_route source nodeto name session t rsp data)"
  using msg_parse_make_route [of name data] by (simp add: well_formed_def)

lemma mq_target_make [simp]: "mq_target b (msg_make source to session t rsp data) = get_ctx (ap_mgr b) to"
  by (simp add: mq_target_def)

lemma mq_target_make_route:
  "length name < 256 \<Longrightarrow> name \<noteq> [] \<Longrightarrow>
   mq_target b (msg_make_route source nodeto name session t rsp data) = get_ctx (ap_mgr b) (find_name (ap_mgr b) name)"
  by (simp add: mq_target_def msg_name_make_route)

lemma dispatch_name_remote:
  assumes "get_handle a nodectx = Inr (Some (h, name))" "handle_node h \<noteq> cfg_nodeid (ap_config a)" "handle_node h \<noteq> 0"
    "get_node (ap_node a) (handle_node h) = Some k" "length name < 255" "1 + length name + length data < 2 ^ 32"
  shows "dispatch_name p nodectx t data a =
     (Inr (cx_session (ap_objs a ! p) + 1),
      peer_push k (msg_make_route (getid p a) (handle_node h) name (cx_session (ap_objs a ! p) + 1) t False data)
        (snd (next_session p a)))"
proof -
  let ?s = "cx_session (ap_objs a ! p) + 1"
  let ?m = "msg_make_route (getid p a) (handle_node h) name ?s t False data"
  have "handle_node (cqy_handle (msg_to (get_msg ?m))) = handle_node h"
    by (simp add: msg_zero_def handle_node_def)
  moreover have "length name < 256" using assms(5) by simp
  ultimately have "node_mq_push ?m (snd (next_session p a)) = peer_push k ?m (snd (next_session p a))"
    by (intro node_mq_push_remote [OF msg_parse_make_route [OF _ assms(6)]])
      (simp_all only: next_session_simps assms(2,4) not_False_eq_True)
  then show ?thesis
    using assms(1-3,5)
    by (simp add: dispatch_name_def app_self_nodeid_def handle_node_def Let_def split_beta)
qed

lemma response_remote:
  assumes "msg_from req = i" "handle_node (cqy_handle i) \<noteq> cfg_nodeid (ap_config b)"
    "get_node (ap_node b) (handle_node (cqy_handle i)) = Some k" "length data < 2 ^ 32"
  shows "response q req data b = peer_push k (msg_make (getid q b) i (msg_session req) (msg_type req) True data) b"
proof -
  let ?m = "msg_make (getid q b) i (msg_session req) (msg_type req) True data"
  have "handle_node (cqy_handle (msg_to (get_msg ?m))) = handle_node (cqy_handle i)"
    by simp
  then have "node_mq_push ?m b = peer_push k ?m b"
    by (intro node_mq_push_remote [OF msg_parse_make [OF assms(4)]]) (simp_all only: assms(2,3) not_False_eq_True)
  then show ?thesis
    using assms(1) by (simp add: response_def)
qed

section \<open>Messages from end to end\<close>

text \<open>C1. \<open>dispatch("node.ctx", t, data)\<close> to another node, with a name of fewer than 255 characters as the assertion demands: the sender gets a fresh session number, one
  message is queued for that node behind those already there, and when the node receives it the
  mailbox of the context registered there under the name gets exactly this message, with the
  sender's id, the session, the type and the data.\<close>

theorem dispatch_reaches_remote:
  assumes "get_handle a nodectx = Inr (Some (h, name))" "handle_node h \<noteq> cfg_nodeid (ap_config a)" "handle_node h \<noteq> 0"
    "get_node (ap_node a) (handle_node h) = Some k" "\<not> q_stop (nd_queue (nodes (ap_node a) ! k))"
    "name \<noteq> []" "length name < 255" "1 + length name + length data < 2 ^ 32"
    "get_ctx (ap_mgr b) (find_name (ap_mgr b) name) = Some q" "q < length (ap_objs b)" "\<not> q_stop (cx_queue (ap_objs b ! q))"
  shows "\<exists>m a'. dispatch_name p nodectx t data a = (Inr (cx_session (ap_objs a ! p) + 1), a') \<and>
     q_items (nd_queue (nodes (ap_node a') ! k)) = q_items (nd_queue (nodes (ap_node a) ! k)) @ [m] \<and>
     q_items (cx_queue (ap_objs (snd (rpc_on_mq [m] b)) ! q)) = q_items (cx_queue (ap_objs b ! q)) @ [m] \<and>
     msg_from (get_msg m) = cx_id (ap_objs a ! p) \<and> msg_session (get_msg m) = cx_session (ap_objs a ! p) + 1 \<and>
     msg_type (get_msg m) = t \<and> \<not> msg_response (get_msg m) \<and> msg_buffer m = Inr data"
proof -
  let ?s = "cx_session (ap_objs a ! p) + 1"
  let ?m = "msg_make_route (getid p a) (handle_node h) name ?s t False data"
  let ?a = "peer_push k ?m (snd (next_session p a))"
  have "k < length (nodes (ap_node a))"
    using get_node_first [OF assms(4)] by simp
  then have "q_items (nd_queue (nodes (ap_node ?a) ! k)) = q_items (nd_queue (nodes (ap_node a) ! k)) @ [?m]"
    using peer_push_queue [of k "snd (next_session p a)"] assms(5) by simp
  moreover have "q_items (cx_queue (ap_objs (snd (rpc_on_mq [?m] b)) ! q)) = q_items (cx_queue (ap_objs b ! q)) @ [?m]"
    using assms(6-11) by (intro rpc_on_mq_one) (simp_all add: well_formed_make_route mq_target_make_route)
  moreover have "msg_buffer ?m = Inr data"
    by (rule msg_buffer_make_route [OF less_trans [OF assms(7)] assms(8)]) simp
  ultimately show ?thesis
    using dispatch_name_remote [OF assms(1-4,7,8), of p t]
    by (intro exI [of _ ?m] exI [of _ ?a]) (simp add: msg_zero_def getid_def)
qed

text \<open>C2. \<open>response\<close> to a message of a context of another node: the answer is queued for that node, and
  when the node receives it the mailbox of the sender gets it, marked as a response, with the
  session number \<open>dispatch\<close> returned to the sender.\<close>

theorem response_reaches_sender:
  assumes "msg_from req = i" "handle_node (cqy_handle i) \<noteq> cfg_nodeid (ap_config b)"
    "get_node (ap_node b) (handle_node (cqy_handle i)) = Some k" "\<not> q_stop (nd_queue (nodes (ap_node b) ! k))"
    "length data < 2 ^ 32"
    "get_ctx (ap_mgr a) i = Some p" "p < length (ap_objs a)" "\<not> q_stop (cx_queue (ap_objs a ! p))"
  shows "\<exists>m. q_items (nd_queue (nodes (ap_node (response q req data b)) ! k)) = q_items (nd_queue (nodes (ap_node b) ! k)) @ [m] \<and>
     q_items (cx_queue (ap_objs (snd (rpc_on_mq [m] a)) ! p)) = q_items (cx_queue (ap_objs a ! p)) @ [m] \<and>
     msg_response (get_msg m) \<and> msg_session (get_msg m) = msg_session req \<and> msg_type (get_msg m) = msg_type req \<and>
     msg_from (get_msg m) = cx_id (ap_objs b ! q) \<and> msg_buffer m = Inr data"
proof -
  let ?m = "msg_make (getid q b) i (msg_session req) (msg_type req) True data"
  have "response q req data b = peer_push k ?m b"
    using response_remote [OF assms(1-3,5)] .
  moreover have "k < length (nodes (ap_node b))"
    using get_node_first [OF assms(3)] by simp
  moreover have "q_items (cx_queue (ap_objs (snd (rpc_on_mq [?m] a)) ! p)) = q_items (cx_queue (ap_objs a ! p)) @ [?m]"
    using assms(5-8) by (intro rpc_on_mq_one) (simp_all add: well_formed_make)
  ultimately show ?thesis
    using peer_push_queue [OF _ assms(4)] msg_buffer_make [OF assms(5)]
    by (intro exI [of _ ?m]) (simp add: getid_def)
qed

text \<open>A message dispatched by name inside the node goes straight into the mailbox of the context,
  behind the messages already there.\<close>

theorem dispatch_local:
  assumes "app_inv a" "get_handle a nodectx = Inr (Some (h, name))" "handle_node h = cfg_nodeid (ap_config a)"
    "get_ctx (ap_mgr a) (find_name (ap_mgr a) name) = Some q" "\<not> q_stop (cx_queue (ap_objs a ! q))" "length data < 2 ^ 32"
  shows "\<exists>m a'. dispatch_name p nodectx t data a = (Inr (cx_session (ap_objs a ! p) + 1), a') \<and>
     q_items (cx_queue (ap_objs a' ! q)) = q_items (cx_queue (ap_objs a ! q)) @ [m] \<and>
     msg_from (get_msg m) = cx_id (ap_objs a ! p) \<and> msg_session (get_msg m) = cx_session (ap_objs a ! p) + 1 \<and>
     msg_type (get_msg m) = t \<and> \<not> msg_response (get_msg m) \<and> msg_buffer m = Inr data"
proof -
  let ?i = "find_name (ap_mgr a) name" and ?s = "cx_session (ap_objs a ! p) + 1"
  let ?m = "msg_make (getid p a) ?i ?s t False data" and ?a = "snd (next_session p a)"
  have q: "q < length (ap_objs a)" "handle_node (cqy_handle ?i) = cfg_nodeid (ap_config a)"
    using assms(1,4) by (simp_all add: app_inv_def)
  then have "node_mq_push ?m ?a = node_push_msg q ?m ?a"
    using node_mq_push_local [OF msg_parse_make [OF assms(6)], of "getid p a" ?i ?s t False ?a q] assms(4) by simp
  then have "dispatch_name p nodectx t data a = (Inr ?s, node_push_msg q ?m ?a)"
    using assms(2,3)
    by (simp add: dispatch_name_def dispatch_id_def app_self_nodeid_def get_ctxid_def handle_node_def split_beta Let_def)
  moreover have "q_items (cx_queue (ap_objs (node_push_msg q ?m ?a) ! q)) = q_items (cx_queue (ap_objs a ! q)) @ [?m]"
    using node_push_msg_queue [of q ?a] q(1) assms(5) by simp
  ultimately show ?thesis
    using msg_buffer_make [OF assms(6)] by (intro exI [of _ ?m] exI) (simp add: getid_def)
qed

text \<open>Two running nodes with one named context each.\<close>

definition node_app :: "u8 \<Rightarrow> u32 \<Rightarrow> string \<Rightarrow> node_info \<Rightarrow> node_info \<Rightarrow> (unit, unit) cqy_app_t" where
  "node_app i h nm self other =
     (app_init (two_nodes i))
       \<lparr>ap_mgr := \<lparr>allocid = 1, ctxs = [(h, 0)], names = [\<lparr>nid_name = nm, nid_id = h\<rparr>]\<rparr>,
        ap_node := \<lparr>self_nodeid = i, nd_server = Some (1, info_port self),
          nodes = [\<lparr>nd_info = other, nd_queue = queue_init, nd_client = Some ''client''\<rparr>,
                   \<lparr>nd_info = self, nd_queue = queue_init, nd_client = None\<rparr>]\<rparr>,
        ap_objs := [(ctx_new ())\<lparr>cx_id := h\<rparr>]\<rparr>"

definition app1 :: "(unit, unit) cqy_app_t" where "app1 = node_app 1 0x01000001 ''ping'' n1_info n2_info"

definition app2 :: "(unit, unit) cqy_app_t" where "app2 = node_app 2 0x02000001 ''pong'' n2_info n1_info"

lemma app1_facts:
  "get_handle app1 ''n2.pong'' = Inr (Some (cqy_handle 0x02000000, ''pong''))"
  "get_handle app1 ''.ping'' = Inr (Some (cqy_handle 0x01000000, ''ping''))"
  "handle_node (cqy_handle 0x02000000) = 2" "handle_node (cqy_handle 0x01000001) = 1" "handle_node (cqy_handle 0x01000000) = 1"
  "cfg_nodeid (ap_config app1) = 1" "get_node (ap_node app1) 2 = Some 0"
  "get_ctx (ap_mgr app1) 0x01000001 = Some 0" "find_name (ap_mgr app1) ''ping'' = 0x01000001"
  "length (ap_objs app1) = 1" "nd_queue (nodes (ap_node app1) ! 0) = queue_init"
  "ap_objs app1 ! 0 = (ctx_new ())\<lparr>cx_id := 0x01000001\<rparr>"
  by code_simp+

lemma app2_facts:
  "cfg_nodeid (ap_config app2) = 2" "get_node (ap_node app2) 1 = Some 0"
  "get_ctx (ap_mgr app2) (find_name (ap_mgr app2) ''pong'') = Some 0" "length (ap_objs app2) = 1"
  "nd_queue (nodes (ap_node app2) ! 0) = queue_init" "ap_objs app2 ! 0 = (ctx_new ())\<lparr>cx_id := 0x02000001\<rparr>"
  by code_simp+

lemma app1_inv: "app_inv app1"
  by (auto simp: app_inv_def app1_def node_app_def app_init_def two_nodes_def get_ctx_def mgr_inv_def
      handle_ctxid_def app1_facts split: if_splits)

lemmas app12_facts = app1_facts app2_facts queue_init_def ctx_new_def

theorem dispatch_reaches_remote_witness:
  "\<exists>m a'. dispatch_name 0 ''n2.pong'' 0 ''hello'' app1 = (Inr 1, a') \<and>
     q_items (nd_queue (nodes (ap_node a') ! 0)) = [m] \<and>
     q_items (cx_queue (ap_objs (snd (rpc_on_mq [m] app2)) ! 0)) = [m] \<and> msg_buffer m = Inr ''hello''"
  using dispatch_reaches_remote [OF app1_facts(1), of 0 "''hello''" app2 0 0 0]
  by (simp add: app12_facts del: rpc_on_mq.simps) blast

definition pong_request :: cqy_msg_t where
  "pong_request = msg_zero\<lparr>msg_from := 0x01000001, msg_session := 1\<rparr>"

theorem response_reaches_sender_witness:
  "\<exists>m. q_items (nd_queue (nodes (ap_node (response 0 pong_request ''world'' app2)) ! 0)) = [m] \<and>
     q_items (cx_queue (ap_objs (snd (rpc_on_mq [m] app1)) ! 0)) = [m] \<and>
     msg_response (get_msg m) \<and> msg_session (get_msg m) = 1 \<and> msg_buffer m = Inr ''world''"
  using response_reaches_sender [of pong_request "0x01000001" app2 0 "''world''" app1 0 0]
  by (simp add: app12_facts pong_request_def msg_zero_def del: rpc_on_mq.simps) blast

theorem dispatch_local_witness:
  "\<exists>m a'. dispatch_name 0 ''.ping'' 0 ''hello'' app1 = (Inr 1, a') \<and>
     q_items (cx_queue (ap_objs a' ! 0)) = [m] \<and> msg_buffer m = Inr ''hello''"
  using dispatch_local [OF app1_inv app1_facts(2), of 0 "''hello''" 0 0]
  by (simp add: app12_facts del: rpc_on_mq.simps) blast

section \<open>Calls from end to end\<close>

text \<open>What the registered lambda runs once it has the lock it needs: \<open>rpc_call_func\<close> on the member
  function \<open>body f p\<close> of the context.\<close>

definition router_exec ::
  "('f \<Rightarrow> nat \<Rightarrow> ('p, 'r, ('u, 'f) cqy_app_t) rpc_func) \<Rightarrow> (string \<Rightarrow> 'p option) \<Rightarrow> ('r \<Rightarrow> string) \<Rightarrow> ('u, 'f) rpc_exec"
where
  "router_exec body deser ser muli f p data a = rpc_call_func deser ser (body f p) data a"

lemma router_after_register:
  "p < length (ap_objs a) \<Longrightarrow>
   map_of (cx_router (ap_objs (register_rpc_func p fname muli f name a) ! p)) =
     (map_of (cx_router (ap_objs a ! p)))((if name = [] then fname else name) \<mapsto> (muli, f))"
  by (simp add: register_rpc_func_def upd_obj_nth update_conv')

text \<open>C15. \<open>ctx_call\<close> to a context of another node runs the function registered there under the name
  with the caller's arguments, and the caller decodes the value it returned; the node of the
  caller is unchanged.\<close>

theorem ctx_call_end_to_end:
  assumes "handle_node (cqy_handle to) \<noteq> cfg_nodeid (ap_config a)"
    "get_node (ap_node a) (handle_node (cqy_handle to)) = Some k" "nd_client (nodes (ap_node a) ! k) \<noteq> None"
    "\<And>d. send k to name d = (case fst (rpc_ctx_call (router_exec body deser rser) to name d b) of
       Inr r \<Rightarrow> Reply r | Inl _ \<Rightarrow> Call_Error)"
    "handle_node (cqy_handle to) = cfg_nodeid (ap_config b0)" "get_ctx (ap_mgr b0) to = Some q" "q < length (ap_objs b0)"
    "b = register_rpc_func q fname muli f name b0" "name \<noteq> []" "body f q = Ret_param g"
    "deser (ser args) = Some args" "g args b = (Inr x, b')" "rdeser (rser x) = Inr x" "r = \<lparr>rr_status = 0, rr_res = rser x\<rparr>"
  shows "ctx_call_nolock exec send ser to name (Some args) a = (Inr r, a) \<and> rpc_as tyname rdeser r = Inr x \<and>
     snd (rpc_ctx_call (router_exec body deser rser) to name (rpc_encode ser (Some args)) b) = b'"
proof -
  have "rpc_ctx_call (router_exec body deser rser) to name (rpc_encode ser (Some args)) b = (Inr r, b')"
  proof -
    have b: "ap_config b = ap_config b0" "ap_mgr b = ap_mgr b0" "map_of (cx_router (ap_objs b ! q)) name = Some (muli, f)"
      using assms(8,9) router_after_register [OF assms(7), of fname muli f name] by (simp_all add: register_rpc_func_def)
    show ?thesis
      using assms(5,6,10-14) b
      by (simp add: rpc_ctx_call_def rpc_call_registered_def rpc_on_call_def router_exec_def rpc_encode_def
          finish_call_def ret_status0_def handle_node_def)
  qed
  moreover from this have "send k to name (rpc_encode ser (Some args)) = Reply r"
    using assms(4) by simp
  ultimately show ?thesis
    using assms(1-3,13,14)
    by (simp add: ctx_call_nolock_def handle_node_def rpc_as_def has_value_def)
qed

text \<open>A call that does not reach a function reports a status and never changes the caller's node:
  -2 for a node that is not configured, -4 when the connection or the remote side fails.\<close>

theorem ctx_call_failures:
  assumes "handle_node (cqy_handle to) \<noteq> cfg_nodeid (ap_config a)"
  shows "ctx_call_nolock exec send ser to name args a =
     (case get_node (ap_node a) (handle_node (cqy_handle to)) of
        None \<Rightarrow> (Inr \<lparr>rr_status = -2, rr_res = ''nodeid:'' @ int_to_string (uint (handle_node (cqy_handle to))) @ '' config miss''\<rparr>, a)
      | Some k \<Rightarrow>
          if nd_client (nodes (ap_node a) ! k) = None then (Inl Bad_Access, a)
          else (Inr (case send k to name (rpc_encode ser args) of Reply r \<Rightarrow> r | _ \<Rightarrow> \<lparr>rr_status = -4, rr_res = []\<rparr>), a))"
  using assms
  by (simp add: ctx_call_nolock_def handle_node_def Let_def split: option.split remote.split)

text \<open>A name whose node part is not configured, or without a context part, is refused: \<open>dispatch\<close>
  returns \<open>0xffffffff\<close> without consuming a session number, and a call returns status -1.\<close>

theorem unknown_node_refused:
  assumes "get_handle a nodectx = Inr None"
  shows "dispatch_name p nodectx t data a = (Inr 0xffffffff, a) \<and>
     ctx_call_name_nolock exec send ser nodectx name args a =
       (Inr \<lparr>rr_status = -1, rr_res = ''nodectx:'' @ nodectx @ '' miss''\<rparr>, a)"
  using assms by (simp add: dispatch_name_def ctx_call_name_nolock_def)

theorem ctx_call_failures_witness:
  "ctx_call_nolock (\<lambda>_ _ _ _ b. (Inr rpc_result_zero, b)) (\<lambda>_ _ _ _. Pool_Error) (\<lambda>s. s) 0x02000001 ''f'' None app1
     = (Inr \<lparr>rr_status = -4, rr_res = []\<rparr>, app1)"
proof -
  have "handle_node (cqy_handle 0x02000001) = 2" "nd_client (nodes (ap_node app1) ! 0) = Some ''client''"
    by code_simp+
  then show ?thesis
    using ctx_call_failures [of "0x02000001" app1 "\<lambda>_ _ _ _ b. (Inr rpc_result_zero, b)" "\<lambda>_ _ _ _. Pool_Error"]
    by (simp add: app1_facts)
qed

theorem unknown_node_refused_witness:
  "dispatch_name 0 ''n9.pong'' 0 ''hello'' app1 = (Inr 0xffffffff, app1)"
proof -
  have "get_handle app1 ''n9.pong'' = Inr None" by code_simp
  from unknown_node_refused [OF this] show ?thesis by blast
qed

text \<open>A function \<open>echo\<close> at the context \<open>pong\<close>, and the connection to its node.\<close>

definition echo_body :: "unit \<Rightarrow> nat \<Rightarrow> (string, string, (unit, unit) cqy_app_t) rpc_func" where
  "echo_body f p = Ret_param (\<lambda>s b. (Inr (s @ ''!''), b))"

definition app2_echo :: "(unit, unit) cqy_app_t" where
  "app2_echo = register_rpc_func 0 ''node_pong::echo'' False () ''echo'' app2"

definition to_app2 :: "nat \<Rightarrow> u32 \<Rightarrow> string \<Rightarrow> string \<Rightarrow> rpc_result_t remote" where
  "to_app2 k to name d =
     (case fst (rpc_ctx_call (router_exec echo_body Some (\<lambda>s. s)) to name d app2_echo) of
        Inr r \<Rightarrow> Reply r | Inl _ \<Rightarrow> Call_Error)"

theorem ctx_call_end_to_end_witness:
  "ctx_call_nolock (router_exec echo_body Some (\<lambda>s. s)) to_app2 (\<lambda>s. s) 0x02000001 ''echo'' (Some ''hello'') app1
     = (Inr \<lparr>rr_status = 0, rr_res = ''hello!''\<rparr>, app1)"
proof -
  have "handle_node (cqy_handle 0x02000001) = 2" "nd_client (nodes (ap_node app1) ! 0) = Some ''client''"
    "get_ctx (ap_mgr app2) 0x02000001 = Some 0"
    by code_simp+
  then show ?thesis
    by (intro ctx_call_end_to_end [where b = app2_echo and deser = Some and rser = "\<lambda>s. s" and send = to_app2 and
          b' = app2_echo and rdeser = Inr and x = "''hello!''" and body = echo_body and k = 0 and tyname = "''s''" and
          fname = "''node_pong::echo''", OF _ _ _ to_app2_def _ _ _ app2_echo_def _ echo_body_def, THEN conjunct1])
      (simp_all add: app1_facts app2_facts)
qed

section \<open>The receiving coroutine\<close>

text \<open>The loop beside the threads that push messages.
  \<open>rv_taken\<close> lists the messages popped so far, \<open>rv_started\<close> those handed to \<open>on_msg\<close>.\<close>

record receiver =
  rv_queue :: "string cqy_cv_queue_t"
  rv_at :: wm_pc
  rv_pushed :: "string list"
  rv_taken :: "string list"
  rv_started :: "string list"

datatype rv_event = Rv_push string | Rv_loop

definition rv_init :: receiver where
  "rv_init = \<lparr>rv_queue = queue_init, rv_at = WM_head, rv_pushed = [], rv_taken = [], rv_started = []\<rparr>"

fun rv_step :: "rv_event \<Rightarrow> receiver \<Rightarrow> receiver" where
  "rv_step (Rv_push m) r =
     r\<lparr>rv_queue := q_push m (rv_queue r),
       rv_pushed := (if q_stop (rv_queue r) then rv_pushed r else rv_pushed r @ [m])\<rparr>"
| "rv_step Rv_loop r =
     (case wait_step (rv_queue r) (rv_at r) of
        None \<Rightarrow> r
      | Some (q, pc, started) \<Rightarrow>
          r\<lparr>rv_queue := q, rv_at := pc,
            rv_taken := rv_taken r @ take (length (q_items (rv_queue r)) - length (q_items q)) (q_items (rv_queue r)),
            rv_started := rv_started r @ (case started of None \<Rightarrow> [] | Some m \<Rightarrow> [m])\<rparr>)"

definition rv_run :: "rv_event list \<Rightarrow> receiver \<Rightarrow> receiver" where
  "rv_run = fold rv_step"

definition rv_inv :: "receiver \<Rightarrow> bool" where
  "rv_inv r \<longleftrightarrow> rv_pushed r = rv_taken r @ q_items (rv_queue r) \<and>
     rv_started r = filter well_formed (rv_taken r) \<and> \<not> q_stop (rv_queue r) \<and> rv_at r \<noteq> WM_done"

lemma rv_inv_step:
  assumes "rv_inv r"
  shows "rv_inv (rv_step e r)"
proof (cases e)
  case Rv_loop
  show ?thesis
  proof (cases "rv_at r")
    case WM_pop
    with Rv_loop assms show ?thesis
      by (cases "q_items (rv_queue r)") (auto simp: rv_inv_def wait_step_def q_pop_def q_ready_def well_formed_def)
  qed (use Rv_loop assms in \<open>auto simp: rv_inv_def wait_step_def\<close>)
qed (use assms in \<open>auto simp: rv_inv_def q_push_def\<close>)

interpretation rv: step_invariant rv_step rv_inv "\<lambda>_. True"
  by unfold_locales (rule rv_inv_step)

lemma rv_inv_run: "rv_inv r \<Longrightarrow> rv_inv (rv_run es r)"
  unfolding rv_run_def by (rule rv.inv_fold) simp_all

lemma rv_inv_init: "rv_inv rv_init"
  by (simp add: rv_inv_def rv_init_def queue_init_def)

text \<open>However pushes and the coroutine interleave, \<open>on_msg\<close> is started exactly for the
  well-formed messages among those taken, in the order they were pushed; the others are still in
  the mailbox.\<close>

theorem wait_msg_in_order:
  "\<exists>taken. rv_pushed (rv_run es rv_init) = taken @ q_items (rv_queue (rv_run es rv_init)) \<and>
     rv_started (rv_run es rv_init) = filter well_formed taken"
  using rv_inv_run [OF rv_inv_init, of es] by (auto simp: rv_inv_def)

lemma rv_loop_two:
  assumes "\<not> q_stop (rv_queue r)" "rv_at r = WM_head" "q_items (rv_queue r) = m # ms"
  shows "rv_step Rv_loop (rv_step Rv_loop r) =
     r\<lparr>rv_queue := (rv_queue r)\<lparr>q_items := ms\<rparr>, rv_at := WM_head, rv_taken := rv_taken r @ [m],
       rv_started := rv_started r @ (if well_formed m then [m] else [])\<rparr>"
  using assms by (simp add: wait_step_def q_pop_def q_ready_def well_formed_def)

lemma rv_loop_drains:
  assumes "\<not> q_stop (rv_queue r)" "rv_at r = WM_head" "length (q_items (rv_queue r)) \<le> n"
  shows "rv_started (rv_run (replicate (2 * n) Rv_loop) r) = rv_started r @ filter well_formed (q_items (rv_queue r))"
  using assms
proof (induction n arbitrary: r)
  case (Suc n)
  show ?case
  proof (cases "q_items (rv_queue r)")
    case Nil
    have idle: "rv_started (rv_run (replicate k Rv_loop) s) = rv_started s"
      if "\<not> q_stop (rv_queue s)" "q_items (rv_queue s) = []" "rv_at s \<noteq> WM_done" for k and s
      using that unfolding rv_run_def
    proof (induction k arbitrary: s)
      case (Suc k)
      then show ?case by (cases "rv_at s") (simp_all add: wait_step_def q_pop_def q_ready_def)
    qed simp
    show ?thesis
      using idle [of r "2 * Suc n"] Nil Suc.prems by simp
  next
    case (Cons m ms)
    let ?r = "rv_step Rv_loop (rv_step Rv_loop r)"
    note two = rv_loop_two [OF Suc.prems(1,2) Cons]
    have "rv_run (replicate (2 * Suc n) Rv_loop) r = rv_run (replicate (2 * n) Rv_loop) ?r"
      by (simp add: rv_run_def)
    then show ?thesis
      using Suc.IH [of ?r] Suc.prems Cons two by simp
  qed
qed (simp add: rv_run_def)

text \<open>The coroutine starts \<open>on_msg\<close> for every well-formed
  message of the mailbox: two steps per message are enough from the head of the loop.\<close>

theorem wait_msg_drains:
  assumes "rv_at (rv_run es rv_init) = WM_head"
  shows "rv_started (rv_run (replicate (2 * length (q_items (rv_queue (rv_run es rv_init)))) Rv_loop) (rv_run es rv_init)) =
     filter well_formed (rv_pushed (rv_run es rv_init))"
proof -
  let ?r = "rv_run es rv_init"
  have inv: "rv_inv ?r" by (rule rv_inv_run [OF rv_inv_init])
  then have "\<not> q_stop (rv_queue ?r)" by (simp add: rv_inv_def)
  from rv_loop_drains [OF this assms order_refl] inv show ?thesis by (simp add: rv_inv_def)
qed

theorem wait_msg_drains_witness:
  "rv_started (rv_run [Rv_loop, Rv_loop, Rv_loop, Rv_loop] (rv_run [Rv_push ''junk'', Rv_push (msg_make 1 2 3 4 True ''x'')] rv_init)) =
     [msg_make 1 2 3 4 True ''x'']"
proof -
  have "\<not> well_formed ''junk''" "well_formed (msg_make 1 2 3 4 True ''x'')" by code_simp+
  then show ?thesis
    using wait_msg_drains [of "[Rv_push ''junk'', Rv_push (msg_make 1 2 3 4 True ''x'')]"]
    by (simp add: rv_run_def rv_init_def queue_init_def q_push_def numeral_eq_Suc del: rv_step.simps(2))
qed

section \<open>Classes that register a name\<close>

lemma upd_obj_last:
  "ap_objs a = xs @ [c] \<Longrightarrow> upd_obj (length xs) f a = a\<lparr>ap_objs := xs @ [f c]\<rparr>"
  by (simp add: upd_obj_def)

text \<open>What creating a context whose \<open>on_init\<close> registers a name and changes only its own object does.\<close>

definition grown :: "bool \<Rightarrow> string \<Rightarrow> ('u, 'f) cqy_ctx_t \<Rightarrow> ('u, 'f) cqy_app_t \<Rightarrow> ('u, 'f) cqy_app_t \<Rightarrow> bool" where
  "grown ok nm c a a' \<longleftrightarrow>
     app_inv a' \<and> ap_creator a' = ap_creator a \<and> ap_config a' = ap_config a \<and> allocid (ap_mgr a') = allocid (ap_mgr a) + 1 \<and>
     names_of (ap_mgr a') = (names_of (ap_mgr a))(nm \<mapsto> ctx_handle a) \<and>
     get_ctx (ap_mgr a') = (if ok then (get_ctx (ap_mgr a))(ctx_handle a \<mapsto> length (ap_objs a)) else get_ctx (ap_mgr a)) \<and>
     ap_objs a' = ap_objs a @ [c] \<and> ap_node a' = ap_node a"

lemma grown_get:
  "grown ok nm c a a' \<Longrightarrow>
   get_ctx (ap_mgr a') = (if ok then (get_ctx (ap_mgr a))(ctx_handle a \<mapsto> length (ap_objs a)) else get_ctx (ap_mgr a))"
  by (simp add: grown_def)

lemma grown_names: "grown ok nm c a a' \<Longrightarrow> names_of (ap_mgr a') = (names_of (ap_mgr a))(nm \<mapsto> ctx_handle a)"
  by (simp add: grown_def)

lemma create_leaf:
  assumes "ctx_class init room" "app_inv a" "unat (allocid (ap_mgr a)) + 1 + room < 2 ^ 24"
    "map_of (ap_creator a) cls = Some u" "names_of (ap_mgr a) nm = None"
    "\<And>b. cx_user (ap_objs b ! length (ap_objs a)) = u \<Longrightarrow> init (length (ap_objs a)) param b =
      (case ctx_register_name (length (ap_objs a)) nm b of
         (Inl e, b1) \<Rightarrow> (Inl e, b1) | (Inr _, b1) \<Rightarrow> (Inr ok, upd_obj (length (ap_objs a)) f b1))"
    "\<And>c. cx_id (f c) = cx_id c" "f ((ctx_new u)\<lparr>cx_id := ctx_handle a\<rparr>) = c"
  shows "\<exists>a'. create_ctx init cls param a = (Inr (if ok then ctx_handle a else 0), a') \<and> grown ok nm c a a'"
proof -
  let ?p = "length (ap_objs a)" and ?b = "create_pre u a"
  have room1: "unat (allocid (ap_mgr a)) + 1 < 2 ^ 24" using assms(3) by simp
  note pre = app_inv_create_pre(1) [OF assms(2) room1, of u]
  have b: "ap_objs ?b = ap_objs a @ [(ctx_new u)\<lparr>cx_id := ctx_handle a\<rparr>]" "getid ?p ?b = ctx_handle a"
    "names_of (ap_mgr ?b) = names_of (ap_mgr a)" "get_ctx (ap_mgr ?b) = get_ctx (ap_mgr a)"
    "allocid (ap_mgr ?b) = allocid (ap_mgr a) + 1" "ap_creator ?b = ap_creator a" "ap_config ?b = ap_config a" "ap_node ?b = ap_node a"
    by (auto simp: create_pre_def getid_def names_of_def get_ctx_def fun_eq_iff)
  have mb: "mgr_inv (ap_mgr ?b)" using pre by (simp add: app_inv_def)
  obtain m where m: "register_name nm (ctx_handle a) (ap_mgr ?b) = Inr m"
    using register_name_cases [OF mb, of nm "ctx_handle a"] b(3) assms(5) by auto
  have mm: "names_of m = (names_of (ap_mgr a))(nm \<mapsto> ctx_handle a)" "get_ctx m = get_ctx (ap_mgr a)"
    "allocid m = allocid (ap_mgr a) + 1"
    using names_of_register [OF mb m] b(3,4,5) m by (auto simp: register_name_def get_ctx_def fun_eq_iff split: if_splits)
  let ?b1 = "?b\<lparr>ap_mgr := m\<rparr>" and ?c = "f ((ctx_new u)\<lparr>cx_id := ctx_handle a\<rparr>)"
  have reg: "ctx_register_name ?p nm ?b = (Inr (), ?b1)"
    using m b(2) by (simp add: ctx_register_name_def app_register_name_def)
  have u: "cx_user (ap_objs ?b ! ?p) = u" using b(1) by (simp add: ctx_new_def)
  have init: "init ?p param ?b = (Inr ok, ?b1\<lparr>ap_objs := ap_objs a @ [?c]\<rparr>)"
    using assms(6) [OF u] reg upd_obj_last [of ?b1 "ap_objs a" _ f] b(1) by simp
  have keep: "app_inv (snd (create_ctx init cls param a))"
    using ctx_class.create_keeps [OF assms(1-3)] by blast
  have fresh: "get_ctx m (ctx_handle a) = None" using mm(2) get_ctx_create_pre [OF assms(2) room1] by simp
  have id: "cx_id ?c = ctx_handle a" using assms(7) by simp
  let ?b2 = "?b1\<lparr>ap_objs := ap_objs a @ [?c]\<rparr>"
  define a' where "a' = (if ok then ?b2\<lparr>ap_mgr := snd (add_ctx (ctx_handle a) ?p m), ap_receivers := ap_receivers ?b2 @ [?p]\<rparr> else ?b2)"
  have cr: "create_ctx init cls param a = (Inr (if ok then ctx_handle a else 0), a')"
    using assms(4) init id by (cases ok) (simp_all add: create_ctx_eq a'_def)
  have add: "get_ctx (snd (add_ctx (ctx_handle a) ?p m)) = (get_ctx m)(ctx_handle a \<mapsto> ?p)"
    "names_of (snd (add_ctx (ctx_handle a) ?p m)) = names_of m" "allocid (snd (add_ctx (ctx_handle a) ?p m)) = allocid m"
    using fresh by (auto simp: fun_eq_iff find_ctx_after_add) (simp_all add: add_ctx_def names_of_def)
  have "grown ok nm c a a'"
    using keep cr mm add b(6-8) assms(8) by (cases ok) (auto simp: grown_def a'_def)
  with cr show ?thesis by blast
qed


lemma upd_obj_twice: "upd_obj p f (upd_obj p g a) = upd_obj p (\<lambda>c. f (g c)) a"
  by (cases "p < length (ap_objs a)") (simp_all add: upd_obj_def list_update_beyond not_less)

lemma upd_obj_id: "upd_obj p (\<lambda>c. c) a = a"
  by (simp add: upd_obj_def)

end
