(* ===== verification/Cqy_Ctx_Loop.thy ===== *)
theory Cqy_Ctx_Loop
  imports Cqy_Ctx Cqy_Queue_Conc "HOL-Library.Sublist"
begin

text \<open>
  The receiving coroutine of a context (\<open>wait_msg_spawn\<close> in \<open>src/cqy_ctx.cpp\<close>) on the queue of \<open>Cqy_Queue_Conc\<close>: every access of \<open>pop\<close>, \<open>push\<close> and \<open>shutdown\<close> to
  shared state is a step of its own, and so are the test of \<open>stop\<close> at the head of the loop and the start of \<open>on_msg\<close>. \<open>shutdown\<close> takes no lock and may come in
  anywhere. Steps are sequentially consistent; the load of \<open>stop\<close> at the head is relaxed in the code and may see the old value once more, the loads in \<open>pop\<close> may not.
\<close>

section \<open>Model\<close>

text \<open>At the head of the loop, inside \<open>pop\<close> (where the queue keeps the position), \<open>pop\<close> has returned a message, finished.\<close>

datatype loop_at = LP_head | LP_pop | LP_got string | LP_done

record loop_sys =
  lp_q :: "string qsys"
  lp_at :: loop_at
  lp_started :: "string list"

definition loop_init :: loop_sys where
  "loop_init = \<lparr>lp_q = qsys_init, lp_at = LP_head, lp_started = []\<rparr>"

text \<open>A step of the coroutine. The exception of \<open>pop\<close> is caught in the loop; a message that does not parse is dropped.\<close>

definition loop_turn :: "loop_sys \<Rightarrow> loop_sys option" where
  "loop_turn s =
     (case lp_at s of
        LP_head \<Rightarrow>
          if q_stop (sq (lp_q s)) then Some (s\<lparr>lp_at := LP_done\<rparr>)
          else map_option (\<lambda>q. s\<lparr>lp_q := q, lp_at := LP_pop\<rparr>) (q_exec (E_call_pop W_pop) (lp_q s))
      | LP_pop \<Rightarrow>
          map_option
            (\<lambda>q. s\<lparr>lp_q := q,
                   lp_at := (if s_pc q 0 \<noteq> Idle then LP_pop
                             else if s_pc (lp_q s) 0 = C_front then LP_got (hd (q_items (sq (lp_q s)))) else LP_head)\<rparr>)
            (consumer_step (lp_q s))
      | LP_got msg \<Rightarrow>
          Some (s\<lparr>lp_at := LP_head, lp_started := lp_started s @ (if msg_parse True msg \<noteq> None then [msg] else [])\<rparr>)
      | LP_done \<Rightarrow> None)"

text \<open>The coroutine, and other threads that push or shut down.\<close>

datatype loop_event = LE_turn | LE_push nat string | LE_thread nat | LE_shutdown nat

definition loop_other :: "string qevent \<Rightarrow> loop_sys \<Rightarrow> loop_sys option" where
  "loop_other e s = map_option (\<lambda>q. s\<lparr>lp_q := q\<rparr>) (q_exec e (lp_q s))"

fun loop_step :: "loop_event \<Rightarrow> loop_sys \<Rightarrow> loop_sys option" where
  "loop_step LE_turn s = loop_turn s"
| "loop_step (LE_push i m) s = loop_other (E_call_push i m) s"
| "loop_step (LE_thread i) s = loop_other (E_producer i) s"
| "loop_step (LE_shutdown i) s = loop_other (E_shutdown i) s"

fun loop_run :: "loop_event list \<Rightarrow> loop_sys \<Rightarrow> loop_sys option" where
  "loop_run [] s = Some s"
| "loop_run (e # es) s = Option.bind (loop_step e s) (loop_run es)"

section \<open>Invariant\<close>

text \<open>The message \<open>pop\<close> has returned.\<close>

definition lp_hand :: "loop_sys \<Rightarrow> string list" where
  "lp_hand s = (case lp_at s of LP_got m \<Rightarrow> [m] | _ \<Rightarrow> [])"

text \<open>The queue is in \<open>pop\<close> exactly when the loop is, and \<open>on_msg\<close> was started for the well-formed messages taken so far.\<close>

definition loop_inv :: "loop_sys \<Rightarrow> bool" where
  "loop_inv s \<longleftrightarrow>
     q_inv (lp_q s) \<and> (lp_at s = LP_pop \<longleftrightarrow> s_pc (lp_q s) 0 \<noteq> Idle) \<and>
     s_pc (lp_q s) 0 \<in> {Idle, C_lock W_pop, C_check W_pop, C_block W_pop, C_wait W_pop, C_take W_pop, C_front} \<and>
     lp_started s @ filter well_formed (lp_hand s) = filter well_formed (h_out (lp_q s))"

lemma loop_init_inv: "loop_inv loop_init"
  by (simp add: loop_inv_def loop_init_def q_inv_init lp_hand_def) (simp add: qsys_init_def)

text \<open>What another thread leaves alone: the position of the coroutine, except that it may be woken, and what was taken.\<close>

lemma other_frame:
  assumes "q_exec e q = Some q'" "\<forall>k. e \<noteq> E_call_pop k" "e \<noteq> E_consumer"
  shows "s_pc q' 0 = s_pc q 0 \<or> (\<exists>k. s_pc q 0 = C_wait k \<and> s_pc q' 0 = C_lock k)" "h_out q' = h_out q"
    "q_stop (sq q) \<Longrightarrow> q_stop (sq q')" "prefix (q_items (sq q)) (q_items (sq q'))"
proof -
  have "(s_pc q' 0 = s_pc q 0 \<or> (\<exists>k. s_pc q 0 = C_wait k \<and> s_pc q' 0 = C_lock k)) \<and> h_out q' = h_out q \<and>
      (q_stop (sq q) \<longrightarrow> q_stop (sq q')) \<and> prefix (q_items (sq q)) (q_items (sq q'))"
  proof (cases e)
    case (E_producer i)
    with assms(1) have i: "i \<noteq> 0" "producer_step i q = Some q'" by (auto split: if_splits)
    have w: "wake p 0 = p 0 \<or> (\<exists>k. p 0 = C_wait k \<and> wake p 0 = C_lock k)" for p :: "nat \<Rightarrow> 'a pc"
      by (cases "p 0") (simp_all add: wake_def)
    show ?thesis
      using i w [of "(s_pc q)(i := Idle)"] by (cases "s_pc q i") (auto simp: producer_step_def split: if_splits)
  qed (use assms in \<open>auto simp: shutdown_step_def q_shutdown_def split: if_splits\<close>)
  then show "s_pc q' 0 = s_pc q 0 \<or> (\<exists>k. s_pc q 0 = C_wait k \<and> s_pc q' 0 = C_lock k)" "h_out q' = h_out q"
    "q_stop (sq q) \<Longrightarrow> q_stop (sq q')" "prefix (q_items (sq q)) (q_items (sq q'))"
    by blast+
qed

lemma loop_other_inv:
  assumes "loop_inv s" "loop_other e s = Some s'" "\<forall>k. e \<noteq> E_call_pop k" "e \<noteq> E_consumer"
  shows "loop_inv s'"
proof -
  obtain q' where q': "q_exec e (lp_q s) = Some q'" "s' = s\<lparr>lp_q := q'\<rparr>" using assms(2) by (auto simp: loop_other_def)
  have "q_inv q'" using q_inv_exec [OF _ q'(1)] assms(1) by (simp add: loop_inv_def)
  then show ?thesis
    using other_frame [OF q'(1) assms(3,4)] assms(1) q'(2) by (auto simp: loop_inv_def lp_hand_def)
qed

lemma loop_turn_inv:
  assumes "loop_inv s" "loop_turn s = Some s'"
  shows "loop_inv s'"
proof (cases "lp_at s")
  case LP_pop
  then obtain q' where q': "consumer_step (lp_q s) = Some q'"
    and s': "s' = s\<lparr>lp_q := q', lp_at := (if s_pc q' 0 \<noteq> Idle then LP_pop
        else if s_pc (lp_q s) 0 = C_front then LP_got (hd (q_items (sq (lp_q s)))) else LP_head)\<rparr>"
    using assms(2) by (auto simp: loop_turn_def)
  have "q_inv q'" using q_inv_consumer [OF _ q'] assms(1) by (simp add: loop_inv_def)
  moreover have "q_items (sq (lp_q s)) \<noteq> []" if "s_pc (lp_q s) 0 = C_front" using assms(1) that by (simp add: loop_inv_def q_inv_def)
  ultimately show ?thesis
    using q' assms(1) LP_pop
    by (auto simp: loop_inv_def s' lp_hand_def consumer_step_def take_items_def neq_Nil_conv split: if_splits)
next
  case LP_head
  then show ?thesis
    using assms q_inv_exec [of "lp_q s" "E_call_pop W_pop"]
    by (auto simp: loop_inv_def loop_turn_def lp_hand_def split: if_splits)
qed (use assms in \<open>auto simp: loop_inv_def loop_turn_def lp_hand_def well_formed_def split: if_splits\<close>)

lemma loop_step_inv: "loop_inv s \<Longrightarrow> loop_step e s = Some s' \<Longrightarrow> loop_inv s'"
  by (cases e) (auto intro: loop_turn_inv loop_other_inv)

lemma loop_run_inv: "loop_inv s \<Longrightarrow> loop_run es s = Some s' \<Longrightarrow> loop_inv s'"
  by (induction es arbitrary: s) (auto intro: loop_step_inv split: bind_splits)

text \<open>However pushes, a shutdown and the coroutine interleave, step by step: \<open>on_msg\<close> is started for the well-formed messages in the order in which they were pushed, each
  once; the last one taken may not have been started yet, and what is left is in the queue.\<close>

theorem loop_in_order:
  assumes "loop_run es loop_init = Some s"
  shows "\<exists>taken. h_in (lp_q s) = taken @ q_items (sq (lp_q s)) \<and> lp_started s @ filter well_formed (lp_hand s) = filter well_formed taken"
  using loop_run_inv [OF loop_init_inv assms] by (auto simp: loop_inv_def q_inv_def)

section \<open>After a shutdown\<close>

text \<open>The coroutine neither sleeps in \<open>cv.wait\<close> nor is about to.\<close>

definition awake :: "loop_sys \<Rightarrow> bool" where
  "awake s \<longleftrightarrow> (\<forall>k. s_pc (lp_q s) 0 \<noteq> C_block k \<and> s_pc (lp_q s) 0 \<noteq> C_wait k)"

text \<open>The message, at most one, that \<open>pop\<close> has decided to return before it could see the shutdown.\<close>

definition committed :: "loop_sys \<Rightarrow> string list" where
  "committed s = filter well_formed (if s_pc (lp_q s) 0 = C_front then [hd (q_items (sq (lp_q s)))] else lp_hand s)"

text \<open>How many steps of a coroutine that is awake are left once \<open>stop\<close> is set.\<close>

definition loop_left :: "loop_sys \<Rightarrow> nat" where
  "loop_left s =
     (case lp_at s of
        LP_done \<Rightarrow> 0 | LP_head \<Rightarrow> 1 | LP_got _ \<Rightarrow> 2
      | LP_pop \<Rightarrow> (case s_pc (lp_q s) 0 of C_take _ \<Rightarrow> 2 | C_front \<Rightarrow> 3 | C_check _ \<Rightarrow> 3 | _ \<Rightarrow> 4))"

lemma stopped_other:
  assumes "loop_inv s" "q_stop (sq (lp_q s))" "loop_other e s = Some s'" "\<forall>k. e \<noteq> E_call_pop k" "e \<noteq> E_consumer"
  shows "q_stop (sq (lp_q s'))" "lp_started s' = lp_started s" "committed s' = committed s"
    "awake s \<Longrightarrow> awake s' \<and> loop_left s' = loop_left s"
proof -
  obtain q' where q': "q_exec e (lp_q s) = Some q'" "s' = s\<lparr>lp_q := q'\<rparr>" using assms(3) by (auto simp: loop_other_def)
  note f = other_frame [OF q'(1) assms(4,5)]
  have ne: "q_items (sq (lp_q s)) \<noteq> []" if "s_pc (lp_q s) 0 = C_front" using assms(1) that by (simp add: loop_inv_def q_inv_def)
  show "q_stop (sq (lp_q s'))" "lp_started s' = lp_started s" using f(3) assms(2) q'(2) by simp_all
  show "committed s' = committed s"
    using f(1,4) ne q'(2) by (auto simp: committed_def lp_hand_def prefix_def)
  show "awake s' \<and> loop_left s' = loop_left s" if "awake s"
    using f(1) that q'(2) by (auto simp: awake_def loop_left_def split: loop_at.split)
qed

lemma stopped_turn:
  assumes "loop_inv s" "q_stop (sq (lp_q s))" "loop_turn s = Some s'"
  shows "q_stop (sq (lp_q s'))" "lp_started s' @ committed s' = lp_started s @ committed s" "prefix (lp_started s) (lp_started s')"
    "awake s \<Longrightarrow> awake s' \<and> loop_left s = Suc (loop_left s')"
proof -
  show "prefix (lp_started s) (lp_started s')"
    using assms(3) by (auto simp: loop_turn_def split: loop_at.splits if_splits)
  have "q_stop (sq (lp_q s')) \<and> lp_started s' @ committed s' = lp_started s @ committed s \<and>
      (awake s \<longrightarrow> awake s' \<and> loop_left s = Suc (loop_left s'))"
  proof (cases "lp_at s")
    case LP_pop
    then have pc: "s_pc (lp_q s) 0 \<in> {C_lock W_pop, C_check W_pop, C_block W_pop, C_wait W_pop, C_take W_pop, C_front}"
      using assms(1) by (auto simp: loop_inv_def)
    note defs = loop_turn_def consumer_step_def take_items_def committed_def lp_hand_def awake_def loop_left_def q_ready_def
    from pc consider "s_pc (lp_q s) 0 = C_lock W_pop" | "s_pc (lp_q s) 0 = C_check W_pop" | "s_pc (lp_q s) 0 = C_block W_pop"
      | "s_pc (lp_q s) 0 = C_wait W_pop" | "s_pc (lp_q s) 0 = C_take W_pop" | "s_pc (lp_q s) 0 = C_front" by blast
    then show ?thesis
      by cases (use LP_pop assms(2,3) in \<open>auto simp: defs split: if_splits\<close>)
  qed (use assms in \<open>auto simp: loop_inv_def loop_turn_def committed_def lp_hand_def awake_def loop_left_def well_formed_def split: if_splits\<close>)
  then show "q_stop (sq (lp_q s'))" "lp_started s' @ committed s' = lp_started s @ committed s"
    "awake s \<Longrightarrow> awake s' \<and> loop_left s = Suc (loop_left s')"
    by blast+
qed

lemma stopped_can_turn:
  assumes "loop_inv s" "q_stop (sq (lp_q s))" "awake s" "lp_at s \<noteq> LP_done"
  shows "loop_turn s \<noteq> None"
  using assms
  by (auto simp: loop_inv_def q_inv_def loop_turn_def consumer_step_def awake_def split: loop_at.splits if_splits)

lemma stopped_run:
  assumes "loop_inv s" "q_stop (sq (lp_q s))" "loop_run es s = Some s'"
  shows "q_stop (sq (lp_q s')) \<and> lp_started s' @ committed s' = lp_started s @ committed s \<and> prefix (lp_started s) (lp_started s') \<and>
    (awake s \<longrightarrow> awake s' \<and> loop_left s = loop_left s' + count_list es LE_turn)"
  using assms
proof (induction es arbitrary: s)
  case (Cons e es)
  then obtain t where t: "loop_step e s = Some t" "loop_run es t = Some s'" by (auto split: bind_splits)
  note IH = Cons.IH [OF loop_step_inv [OF Cons.prems(1) t(1)] _ t(2)]
  show ?case
  proof (cases e)
    case LE_turn
    with IH stopped_turn [OF Cons.prems(1,2), of t] t(1) show ?thesis by auto
  next
    case (LE_push i m)
    with IH stopped_other [OF Cons.prems(1,2), of "E_call_push i m" t] t(1) show ?thesis by auto
  next
    case (LE_thread i)
    with IH stopped_other [OF Cons.prems(1,2), of "E_producer i" t] t(1) show ?thesis by auto
  next
    case (LE_shutdown i)
    with IH stopped_other [OF Cons.prems(1,2), of "E_shutdown i" t] t(1) show ?thesis by auto
  qed
qed simp

text \<open>C23. The receiving coroutine after \<open>shutdown\<close>, which takes no lock. From any reachable state in which \<open>stop\<close> is set: \<open>on_msg\<close> is started for at most one more message, and
  only for one that \<open>pop\<close> had already decided to return; nothing else that is in the queue or still pushed is ever started. If the coroutine does not sleep at that time and is not
  just about to, it never waits for anybody again and ends with its fourth step at the latest, whatever the other threads do. If it sleeps and the shutting down thread has still to notify,
  the notification wakes it. What remains is the lost notification (\<open>shutdown_lost_wakeup\<close>).\<close>

theorem loop_after_shutdown:
  assumes "loop_run es loop_init = Some s" "q_stop (sq (lp_q s))" "loop_run fs s = Some s'"
  shows "(lp_started s' = lp_started s \<or> lp_started s' = lp_started s @ committed s) \<and> length (committed s) \<le> 1 \<and>
    (lp_at s' = LP_done \<longrightarrow> lp_started s' = lp_started s @ committed s) \<and>
    (awake s \<longrightarrow> lp_at s' = LP_done \<or> (loop_step LE_turn s' \<noteq> None \<and> count_list fs LE_turn < 4)) \<and>
    (\<forall>k i. s_pc (lp_q s) 0 = C_wait k \<and> s_pc (lp_q s) i = S_notify \<longrightarrow> (\<exists>t. loop_step (LE_thread i) s = Some t \<and> awake t))"
proof (intro conjI impI)
  note inv = loop_run_inv [OF loop_init_inv assms(1)]
  note inv' = loop_run_inv [OF inv assms(3)]
  note run = stopped_run [OF inv assms(2,3)]
  show len: "length (committed s) \<le> 1" by (simp add: committed_def lp_hand_def split: loop_at.split)
  have c: "lp_started s' @ committed s' = lp_started s @ committed s" using run by blast
  have "length (committed s') \<le> 1" by (simp add: committed_def lp_hand_def split: loop_at.split)
  moreover have "prefix (lp_started s) (lp_started s')" using run by blast
  ultimately show "lp_started s' = lp_started s \<or> lp_started s' = lp_started s @ committed s"
    using c len by (cases "committed s"; cases "committed s'") (auto simp: prefix_def)
  show "lp_started s' = lp_started s @ committed s" if "lp_at s' = LP_done"
    using c inv' that by (auto simp: committed_def lp_hand_def loop_inv_def)
  show "lp_at s' = LP_done \<or> (loop_step LE_turn s' \<noteq> None \<and> count_list fs LE_turn < 4)" if "awake s"
  proof -
    have "loop_left s \<le> 4" by (simp add: loop_left_def split: loop_at.split pc.split)
    moreover have "lp_at s' \<noteq> LP_done \<Longrightarrow> 0 < loop_left s'" by (simp add: loop_left_def split: loop_at.split pc.split)
    ultimately show ?thesis
      using run that stopped_can_turn [OF inv', of] by (cases "lp_at s' = LP_done") auto
  qed
  show "\<forall>k i. s_pc (lp_q s) 0 = C_wait k \<and> s_pc (lp_q s) i = S_notify \<longrightarrow> (\<exists>t. loop_step (LE_thread i) s = Some t \<and> awake t)"
  proof (intro allI impI)
    fix k i
    assume a: "s_pc (lp_q s) 0 = C_wait k \<and> s_pc (lp_q s) i = S_notify"
    then have "i \<noteq> 0" by (intro notI) auto
    with a show "\<exists>t. loop_step (LE_thread i) s = Some t \<and> awake t"
      by (auto simp: loop_other_def producer_step_def wake_def awake_def)
  qed
qed

text \<open>A shutdown after \<open>pop\<close> has looked at \<open>stop\<close>: the message is started all the same.\<close>

definition late_msg :: string where
  "late_msg = msg_make 1 2 3 4 True ''x''"

definition late_push :: "loop_event list" where
  "late_push = [LE_push 1 late_msg, LE_thread 1, LE_thread 1, LE_thread 1, LE_turn, LE_turn, LE_turn, LE_turn, LE_shutdown 2]"

theorem loop_after_shutdown_witness:
  "\<exists>s s'. loop_run late_push loop_init = Some s \<and> q_stop (sq (lp_q s)) \<and> awake s \<and>
     loop_run [LE_turn, LE_turn, LE_turn] s = Some s' \<and> lp_at s' = LP_done \<and> lp_started s = [] \<and> lp_started s' = [late_msg]"
proof -
  have wf: "msg_parse True late_msg \<noteq> None" by code_simp
  obtain s where s: "loop_run late_push loop_init = Some s" "q_stop (sq (lp_q s))" "awake s" "lp_started s = []" "committed s = [late_msg]"
      "\<exists>s'. loop_run [LE_turn, LE_turn, LE_turn] s = Some s' \<and> lp_at s' = LP_done"
    using wf
    by (simp add: late_push_def loop_init_def loop_turn_def loop_other_def q_run_simps awake_def committed_def lp_hand_def well_formed_def)
  then obtain s' where s': "loop_run [LE_turn, LE_turn, LE_turn] s = Some s'" "lp_at s' = LP_done" by blast
  have "lp_started s' = [late_msg]"
    using loop_after_shutdown [OF s(1,2) s'(1)] s'(2) s(4,5) by simp
  with s s' show ?thesis by blast
qed

end
