(* ===== verification/Cqy_Gen.thy ===== *)
theory Cqy_Gen
  imports Cqy_Prelude
begin

text \<open>
  \<open>include/cqy_gen.h\<close>: the generator coroutine the library offers as \<open>coro_gen\<close>. A generator may
  yield the elements of another generator (\<open>elements_of\<close>); the nested generator then runs directly
  below the outermost one, which remembers it in \<open>top_\<close>, and hands control back through
  \<open>NestInfo\<close> when it ends. A coroutine handle is a number, its frame lives in a heap of frames and is
  gone once the coroutine is destroyed. The body of a coroutine is what it does from its
  suspension point on: the language supplies it, so it is a tree of the awaits it performs.
\<close>

section \<open>Frames\<close>

text \<open>\<open>co_return\<close>, an exception that leaves the body, \<open>co_yield v\<close>, and \<open>co_yield elements_of(g)\<close>
  with what follows it and what follows when \<open>await_resume\<close> rethrows; \<open>None\<close> is a generator that
  was moved from.\<close>

datatype ('a, 'e) gbody =
    G_return
  | G_throw 'e
  | G_yield 'a "('a, 'e) gbody"
  | G_nest "('a, 'e) gbody option" "('a, 'e) gbody" "'e \<Rightarrow> ('a, 'e) gbody"

record 'e nest_info =
  ni_except :: "'e option"
  ni_parent :: nat
  ni_root :: nat

text \<open>Where a coroutine is: before the rest of its body, suspended in a \<open>NestedAwaiter\<close> (its
  \<open>nested_\<close>, the coroutine of its \<open>gen_\<close>, and the two continuations), at its final suspension point.\<close>

datatype ('a, 'e) gpos =
    At "('a, 'e) gbody"
  | Awaiting "'e nest_info" nat "('a, 'e) gbody" "'e \<Rightarrow> ('a, 'e) gbody"
  | At_end

text \<open>\<open>gen_promise_base\<close>: \<open>value_\<close> is the value pointed to; \<open>info_\<close> points to the \<open>nested_\<close> of an awaiter
  and is the handle of the coroutine whose frame holds it.\<close>

record ('a, 'e) gen_promise =
  pr_at :: "('a, 'e) gpos"
  pr_value :: "'a option"
  pr_top :: nat
  pr_info :: "nat option"

record ('a, 'e) gheap =
  hp_frames :: "nat \<rightharpoonup> ('a, 'e) gen_promise"
  hp_next :: nat

definition heap_empty :: "('a, 'e) gheap" where
  "heap_empty = \<lparr>hp_frames = Map.empty, hp_next = 0\<rparr>"

definition put_frame :: "nat \<Rightarrow> ('a, 'e) gen_promise \<Rightarrow> ('a, 'e) gheap \<Rightarrow> ('a, 'e) gheap" where
  "put_frame h f hp = hp\<lparr>hp_frames := (hp_frames hp)(h \<mapsto> f)\<rparr>"

text \<open>Calling a coroutine: \<open>initial_suspend\<close> always suspends; \<open>get_return_object\<close> is the handle.\<close>

definition gen_new :: "('a, 'e) gbody \<Rightarrow> ('a, 'e) gheap \<Rightarrow> nat \<times> ('a, 'e) gheap" where
  "gen_new b hp =
     (hp_next hp,
      (put_frame (hp_next hp) \<lparr>pr_at = At b, pr_value = None, pr_top = hp_next hp, pr_info = None\<rparr> hp)
        \<lparr>hp_next := hp_next hp + 1\<rparr>)"

text \<open>The generator \<open>yield_value\<close> builds for \<open>elements_of\<close> of a range.\<close>

fun range_body :: "'a list \<Rightarrow> ('a, 'e) gbody" where
  "range_body [] = G_return"
| "range_body (x # xs) = G_yield x (range_body xs)"

section \<open>Awaiters\<close>

text \<open>What happens to control: another coroutine is resumed, the caller of \<open>resume\<close> goes on, or an
  exception leaves \<open>resume\<close>. \<open>None\<close> results stand for the use of a destroyed frame.\<close>

datatype 'e control = Go nat | Suspend | Thrown 'e

definition set_top :: "nat \<Rightarrow> nat \<Rightarrow> ('a, 'e) gheap \<Rightarrow> ('a, 'e) gheap option" where
  "set_top root t hp = map_option (\<lambda>r. put_frame root (r\<lparr>pr_top := t\<rparr>) hp) (hp_frames hp root)"

text \<open>\<open>NestedAwaiter::await_suspend\<close> in the coroutine \<open>h\<close>, for the nested coroutine \<open>target\<close>.\<close>

definition nested_suspend ::
  "nat \<Rightarrow> nat \<Rightarrow> ('a, 'e) gbody \<Rightarrow> ('e \<Rightarrow> ('a, 'e) gbody) \<Rightarrow> ('a, 'e) gheap \<Rightarrow> ('e control \<times> ('a, 'e) gheap) option"
where
  "nested_suspend h target k handler hp =
     (case hp_frames hp h of
        None \<Rightarrow> None
      | Some current \<Rightarrow>
          let root = (case pr_info current of
                        None \<Rightarrow> Some h
                      | Some q \<Rightarrow>
                          (case hp_frames hp q of
                             Some f \<Rightarrow> (case pr_at f of Awaiting ni _ _ _ \<Rightarrow> Some (ni_root ni) | _ \<Rightarrow> None)
                           | None \<Rightarrow> None))
          in case root of
               None \<Rightarrow> None
             | Some root \<Rightarrow>
                 let nested = \<lparr>ni_except = None, ni_parent = h, ni_root = root\<rparr>;
                     hp1 = put_frame h (current\<lparr>pr_at := Awaiting nested target k handler\<rparr>) hp
                 in case set_top root target hp1 of
                      None \<Rightarrow> None
                    | Some hp2 \<Rightarrow>
                        map_option (\<lambda>t. (Go target, put_frame target (t\<lparr>pr_info := Some h\<rparr>) hp2)) (hp_frames hp2 target))"

text \<open>\<open>NestedAwaiter::await_resume\<close> and the destruction of the awaiter with its generator.\<close>

definition nested_resume ::
  "nat \<Rightarrow> 'e nest_info \<Rightarrow> nat \<Rightarrow> ('a, 'e) gbody \<Rightarrow> ('e \<Rightarrow> ('a, 'e) gbody) \<Rightarrow> ('a, 'e) gen_promise \<Rightarrow> ('a, 'e) gheap \<Rightarrow> ('a, 'e) gheap"
where
  "nested_resume h ni child k handler f hp =
     (put_frame h (f\<lparr>pr_at := At (case ni_except ni of Some e \<Rightarrow> handler e | None \<Rightarrow> k)\<rparr>)
        (hp\<lparr>hp_frames := (hp_frames hp)(child := None)\<rparr>))"

text \<open>\<open>yield_value\<close> and \<open>ElementAwaiter::await_suspend\<close>: \<open>value_\<close> points to the value, which lives as long as the coroutine is suspended
  here, and control returns to whoever resumed.\<close>

definition element_suspend :: "nat \<Rightarrow> 'a \<Rightarrow> ('a, 'e) gbody \<Rightarrow> ('a, 'e) gheap \<Rightarrow> ('e control \<times> ('a, 'e) gheap) option" where
  "element_suspend h v k hp =
     map_option (\<lambda>current. (Suspend, put_frame h (current\<lparr>pr_at := At k, pr_value := Some v\<rparr>) hp)) (hp_frames hp h)"

text \<open>\<open>FinalAwaiter::await_suspend\<close>.\<close>

definition final_suspend :: "nat \<Rightarrow> ('a, 'e) gheap \<Rightarrow> ('e control \<times> ('a, 'e) gheap) option" where
  "final_suspend h hp =
     (case hp_frames hp h of
        None \<Rightarrow> None
      | Some current \<Rightarrow>
          (case pr_info current of
             None \<Rightarrow> Some (Suspend, hp)
           | Some q \<Rightarrow>
               (case hp_frames hp q of
                  Some f \<Rightarrow>
                    (case pr_at f of
                       Awaiting ni _ _ _ \<Rightarrow>
                         map_option (\<lambda>hp'. (Go (ni_parent ni), put_frame h (current\<lparr>pr_info := None\<rparr>) hp'))
                           (set_top (ni_root ni) (ni_parent ni) hp)
                     | _ \<Rightarrow> None)
                | None \<Rightarrow> None)))"

text \<open>\<open>unhandled_exception\<close>: stored for the parent, or thrown on.\<close>

definition unhandled_exception :: "nat \<Rightarrow> 'e \<Rightarrow> ('a, 'e) gheap \<Rightarrow> ('e control \<times> ('a, 'e) gheap) option" where
  "unhandled_exception h e hp =
     (case hp_frames hp h of
        None \<Rightarrow> None
      | Some current \<Rightarrow>
          (case pr_info current of
             None \<Rightarrow> Some (Thrown e, hp)
           | Some q \<Rightarrow>
               (case hp_frames hp q of
                  Some f \<Rightarrow>
                    (case pr_at f of
                       Awaiting ni c k handler \<Rightarrow>
                         final_suspend h (put_frame q (f\<lparr>pr_at := Awaiting (ni\<lparr>ni_except := Some e\<rparr>) c k handler\<rparr>) hp)
                     | _ \<Rightarrow> None)
                | None \<Rightarrow> None)))"

text \<open>The coroutine \<open>h\<close> runs to its next await.\<close>

definition gen_exec :: "nat \<Rightarrow> ('a, 'e) gheap \<Rightarrow> ('e control \<times> ('a, 'e) gheap) option" where
  "gen_exec h hp =
     (case hp_frames hp h of
        None \<Rightarrow> None
      | Some f \<Rightarrow>
          (case pr_at f of
             At_end \<Rightarrow> None
           | Awaiting ni child k handler \<Rightarrow> Some (Go h, nested_resume h ni child k handler f hp)
           | At b \<Rightarrow>
               (case b of
                  G_yield v k \<Rightarrow> element_suspend h v k hp
                | G_return \<Rightarrow> final_suspend h (put_frame h (f\<lparr>pr_at := At_end\<rparr>) hp)
                | G_throw e \<Rightarrow> unhandled_exception h e (put_frame h (f\<lparr>pr_at := At_end\<rparr>) hp)
                | G_nest None k handler \<Rightarrow> Some (Go h, put_frame h (f\<lparr>pr_at := At k\<rparr>) hp)
                | G_nest (Some c) k handler \<Rightarrow> (case gen_new c hp of (target, hp1) \<Rightarrow> nested_suspend h target k handler hp1))))"

text \<open>\<open>resume()\<close>: symmetric transfer from coroutine to coroutine until one suspends.\<close>

partial_function (option) gen_resume :: "nat \<Rightarrow> ('a, 'e) gheap \<Rightarrow> ('e option \<times> ('a, 'e) gheap) option" where
  "gen_resume h hp =
     (case gen_exec h hp of
        None \<Rightarrow> None
      | Some (Go h', hp') \<Rightarrow> gen_resume h' hp'
      | Some (Suspend, hp') \<Rightarrow> Some (None, hp')
      | Some (Thrown e, hp') \<Rightarrow> Some (Some e, hp'))"

section \<open>The iterator\<close>

text \<open>\<open>_coro.done()\<close> of the outermost coroutine.\<close>

definition gen_done :: "nat \<Rightarrow> ('a, 'e) gheap \<Rightarrow> bool" where
  "gen_done r hp \<longleftrightarrow> (case hp_frames hp r of Some f \<Rightarrow> (case pr_at f of At_end \<Rightarrow> True | _ \<Rightarrow> False) | None \<Rightarrow> True)"

text \<open>\<open>_coro.destroy()\<close>: the frame goes, and with it the generator its awaiter holds.\<close>

partial_function (option) gen_destroy :: "nat \<Rightarrow> ('a, 'e) gheap \<Rightarrow> ('a, 'e) gheap option" where
  "gen_destroy h hp =
     (case hp_frames hp h of
        None \<Rightarrow> None
      | Some f \<Rightarrow>
          (case pr_at f of
             Awaiting ni child k handler \<Rightarrow> gen_destroy child (hp\<lparr>hp_frames := (hp_frames hp)(h := None)\<rparr>)
           | _ \<Rightarrow> Some (hp\<lparr>hp_frames := (hp_frames hp)(h := None)\<rparr>)))"

text \<open>A \<open>Generator\<close> and an \<open>iterator\<close> each hold a coroutine or nothing. \<open>begin()\<close> moves the coroutine into
  the iterator, unless its first \<open>resume()\<close> throws; on a moved-from generator the assertion throws.\<close>

datatype 'e gen_begun = Moved_from | First_threw 'e | Begun "nat option"

definition gen_begin :: "nat option \<Rightarrow> ('a, 'e) gheap \<Rightarrow> ('e gen_begun \<times> nat option \<times> ('a, 'e) gheap) option" where
  "gen_begin g hp =
     (case g of
        None \<Rightarrow> Some (Moved_from, None, hp)
      | Some r \<Rightarrow>
          (case gen_resume r hp of
             None \<Rightarrow> None
           | Some (Some e, hp') \<Rightarrow> Some (First_threw e, Some r, hp')
           | Some (None, hp') \<Rightarrow> Some (Begun (Some r), None, hp')))"

text \<open>\<open>operator bool\<close>, \<open>operator*\<close> (behind its two assertions), \<open>operator++\<close> and the destructor.\<close>

definition iter_bool :: "nat option \<Rightarrow> ('a, 'e) gheap \<Rightarrow> bool" where
  "iter_bool it hp \<longleftrightarrow> (case it of Some r \<Rightarrow> \<not> gen_done r hp | None \<Rightarrow> False)"

definition gen_deref :: "nat option \<Rightarrow> ('a, 'e) gheap \<Rightarrow> 'a option" where
  "gen_deref it hp =
     (if iter_bool it hp then
        (case hp_frames hp (the it) of
           None \<Rightarrow> None
         | Some f \<Rightarrow> (case hp_frames hp (pr_top f) of Some t \<Rightarrow> pr_value t | None \<Rightarrow> None))
      else None)"

definition gen_next :: "nat option \<Rightarrow> ('a, 'e) gheap \<Rightarrow> ('e option \<times> ('a, 'e) gheap) option" where
  "gen_next it hp =
     (if iter_bool it hp then
        (case hp_frames hp (the it) of None \<Rightarrow> None | Some f \<Rightarrow> gen_resume (pr_top f) hp)
      else None)"

definition gen_drop :: "nat option \<Rightarrow> ('a, 'e) gheap \<Rightarrow> ('a, 'e) gheap option" where
  "gen_drop c hp = (case c of None \<Rightarrow> Some hp | Some h \<Rightarrow> gen_destroy h hp)"

text \<open>\<open>~Generator\<close>; the generator is left empty.\<close>

definition gen_dtor :: "nat option \<Rightarrow> ('a, 'e) gheap \<Rightarrow> (nat option \<times> ('a, 'e) gheap) option" where
  "gen_dtor g hp = (case g of None \<Rightarrow> Some (None, hp) | Some h \<Rightarrow> map_option (Pair None) (gen_destroy h hp))"

text \<open>An iterator that owns a coroutine must not be assigned to; \<open>None\<close> is the failed assertion. A generator
  destroys the coroutine it held and takes the other one's.\<close>

definition iter_assign :: "nat option \<Rightarrow> nat option \<Rightarrow> (nat option \<times> nat option) option" where
  "iter_assign it rhs = (if it \<noteq> None then None else Some (rhs, None))"

definition gen_assign :: "nat option \<Rightarrow> nat option \<Rightarrow> ('a, 'e) gheap \<Rightarrow> (nat option \<times> nat option \<times> ('a, 'e) gheap) option"
where
  "gen_assign g other hp = map_option (\<lambda>hp'. (other, None, hp')) (gen_drop g hp)"

text \<open>\<open>for (auto v : gen) { ...; if (brk(v)) break; }\<close>: the values seen, the exception that ended the
  loop, and the heap after it.\<close>

partial_function (option) gen_rest ::
  "('a \<Rightarrow> bool) \<Rightarrow> nat option \<Rightarrow> 'e option \<Rightarrow> ('a, 'e) gheap \<Rightarrow> ('a list \<times> 'e option \<times> ('a, 'e) gheap) option"
where
  "gen_rest brk it thrown hp =
     (case thrown of
        Some e \<Rightarrow> Some ([], Some e, hp)
      | None \<Rightarrow>
          if \<not> iter_bool it hp then Some ([], None, hp)
          else case gen_deref it hp of
                 None \<Rightarrow> None
               | Some v \<Rightarrow>
                   if brk v then Some ([v], None, hp)
                   else (case gen_next it hp of
                           None \<Rightarrow> None
                         | Some (t, hp') \<Rightarrow> Option.bind (gen_rest brk it t hp') (\<lambda>(vs, e, hp''). Some (v # vs, e, hp''))))"

text \<open>The loop over a fresh generator, with the destructors of the iterator and of the generator.\<close>

definition gen_for :: "('a \<Rightarrow> bool) \<Rightarrow> ('a, 'e) gbody \<Rightarrow> ('a list \<times> 'e option \<times> ('a, 'e) gheap) option" where
  "gen_for brk b =
     (case gen_new b heap_empty of
        (r, hp) \<Rightarrow>
          (case gen_begin (Some r) hp of
             None \<Rightarrow> None
           | Some (Moved_from, g, hp1) \<Rightarrow> None
           | Some (First_threw e, g, hp1) \<Rightarrow> map_option (\<lambda>(g', hp2). ([], Some e, hp2)) (gen_dtor g hp1)
           | Some (Begun it, g, hp1) \<Rightarrow>
               (case gen_rest brk it None hp1 of
                  None \<Rightarrow> None
                | Some (vs, e, hp2) \<Rightarrow>
                    (case gen_drop it hp2 of
                       None \<Rightarrow> None
                     | Some hp3 \<Rightarrow> map_option (\<lambda>(g', hp4). (vs, e, hp4)) (gen_dtor g hp3)))))"

section \<open>What a generator means\<close>

text \<open>The sequence a generator stands for: nested generators in place of their \<open>elements_of\<close>; and
  what a loop that may break sees of it.\<close>

primrec gen_seq :: "('a, 'e) gbody \<Rightarrow> 'a list \<times> 'e option" where
  "gen_seq G_return = ([], None)"
| "gen_seq (G_throw e) = ([], Some e)"
| "gen_seq (G_yield v k) = (v # fst (gen_seq k), snd (gen_seq k))"
| "gen_seq (G_nest c k handler) =
     (case map_option gen_seq c of
        None \<Rightarrow> gen_seq k
      | Some (vs, None) \<Rightarrow> (vs @ fst (gen_seq k), snd (gen_seq k))
      | Some (vs, Some e) \<Rightarrow> (vs @ fst (gen_seq (handler e)), snd (gen_seq (handler e))))"

fun seen :: "('a \<Rightarrow> bool) \<Rightarrow> 'a list \<Rightarrow> 'e option \<Rightarrow> 'a list \<times> 'e option" where
  "seen brk [] e = ([], e)"
| "seen brk (v # vs) e = (if brk v then ([v], None) else (case seen brk vs e of (ws, x) \<Rightarrow> (v # ws, x)))"

lemma gen_seq_range [simp]: "gen_seq (range_body xs) = (xs, None)"
  by (induction xs) simp_all

lemma seen_all [simp]: "seen (\<lambda>_. False) vs e = (vs, e)"
  by (induction vs) simp_all

section \<open>The stack machine\<close>

text \<open>The abstract view: the body that runs and the continuations of the coroutines below it.\<close>

type_synonym ('a, 'e) gstack = "(('a, 'e) gbody \<times> ('e \<Rightarrow> ('a, 'e) gbody)) list"

inductive stack_run :: "('a, 'e) gbody \<Rightarrow> ('a, 'e) gstack \<Rightarrow> 'a list \<Rightarrow> 'e option \<Rightarrow> bool" where
  run_done: "stack_run G_return [] [] None"
| run_thrown: "stack_run (G_throw e) [] [] (Some e)"
| run_pop: "stack_run k S vs e \<Longrightarrow> stack_run G_return ((k, handler) # S) vs e"
| run_catch: "stack_run (handler x) S vs e \<Longrightarrow> stack_run (G_throw x) ((k, handler) # S) vs e"
| run_yield: "stack_run k S vs e \<Longrightarrow> stack_run (G_yield v k) S (v # vs) e"
| run_moved: "stack_run k S vs e \<Longrightarrow> stack_run (G_nest None k handler) S vs e"
| run_nest: "stack_run c ((k, handler) # S) vs e \<Longrightarrow> stack_run (G_nest (Some c) k handler) S vs e"

text \<open>What is left of a generator when its values are gone.\<close>

definition gend :: "'e option \<Rightarrow> ('a, 'e) gbody" where
  "gend e = (case e of None \<Rightarrow> G_return | Some x \<Rightarrow> G_throw x)"

lemma gend_simps [simp]: "gend None = G_return" "gend (Some x) = G_throw x"
  by (simp_all add: gend_def)

lemma stack_run_seq:
  "stack_run (gend (snd (gen_seq b))) S ws e \<Longrightarrow> stack_run b S (fst (gen_seq b) @ ws) e"
proof (induction b arbitrary: S ws e)
  case (G_nest c k handler)
  show ?case
  proof (cases c)
    case None
    then show ?thesis using G_nest.IH(2) G_nest.prems by (auto intro: run_moved)
  next
    case (Some d)
    have child: "stack_run (gend (snd (gen_seq d))) T us x \<Longrightarrow> stack_run d T (fst (gen_seq d) @ us) x" for T us x
      using G_nest.IH(1) Some by simp
    obtain vs x where d: "gen_seq d = (vs, x)" by (cases "gen_seq d") auto
    show ?thesis
    proof (cases x)
      case None
      have "stack_run G_return ((k, handler) # S) (fst (gen_seq k) @ ws) e"
        using G_nest.IH(2) [of S ws e] G_nest.prems Some d None by (auto intro: run_pop)
      then show ?thesis using child [of "(k, handler) # S"] Some d None by (auto intro!: run_nest)
    next
      case (Some y)
      have "stack_run (G_throw y) ((k, handler) # S) (fst (gen_seq (handler y)) @ ws) e"
        using G_nest.IH(3) [of "handler y" S ws e] G_nest.prems \<open>c = Some d\<close> d Some by (auto intro: run_catch)
      then show ?thesis using child [of "(k, handler) # S"] \<open>c = Some d\<close> d Some by (auto intro!: run_nest)
    qed
  qed
qed (auto intro: run_yield)

lemma stack_run_total: "stack_run b [] (fst (gen_seq b)) (snd (gen_seq b))"
proof -
  have "stack_run (gend (snd (gen_seq b))) [] [] (snd (gen_seq b))"
    by (cases "snd (gen_seq b)") (auto intro: run_done run_thrown)
  from stack_run_seq [OF this] show ?thesis by simp
qed

inductive_simps stack_run_simps:
  "stack_run G_return [] vs e" "stack_run (G_throw x) [] vs e" "stack_run G_return ((k, handler) # S) vs e"
  "stack_run (G_throw x) ((k, handler) # S) vs e" "stack_run (G_yield v k) S vs e" "stack_run (G_nest None k handler) S vs e"
  "stack_run (G_nest (Some c) k handler) S vs e"

text \<open>The stack has one run, and it is the flattened sequence.\<close>

lemma stack_run_unique: "stack_run b S vs e \<Longrightarrow> stack_run b S vs' e' \<Longrightarrow> vs' = vs \<and> e' = e"
  by (induction arbitrary: vs' rule: stack_run.induct) (auto simp: stack_run_simps)

lemma stack_run_iff: "stack_run b [] vs e \<longleftrightarrow> gen_seq b = (vs, e)"
  using stack_run_total [of b] stack_run_unique [of b "[]" vs e] by (cases "gen_seq b") auto

section \<open>The frames refine the stack\<close>

text \<open>The coroutines \<open>qs\<close> wait, each in an awaiter for the one above it; the last is the root.\<close>

fun waits ::
  "(nat \<rightharpoonup> ('a, 'e) gen_promise) \<Rightarrow> nat \<Rightarrow> nat \<Rightarrow> nat option \<Rightarrow> nat list \<Rightarrow> ('a, 'e) gstack \<Rightarrow> bool"
where
  "waits F r c i [] [] \<longleftrightarrow> i = None \<and> c = r"
| "waits F r c i (q # qs) ((k, handler) # S) \<longleftrightarrow>
     i = Some q \<and>
     (case F q of
        None \<Rightarrow> False
      | Some f \<Rightarrow>
          pr_at f = Awaiting \<lparr>ni_except = None, ni_parent = q, ni_root = r\<rparr> c k handler \<and> waits F r q (pr_info f) qs S)"
| "waits F r c i _ _ \<longleftrightarrow> False"

definition stack_frames ::
  "('a, 'e) gheap \<Rightarrow> nat \<Rightarrow> nat \<Rightarrow> nat list \<Rightarrow> ('a, 'e) gbody \<Rightarrow> ('a, 'e) gstack \<Rightarrow> bool"
where
  "stack_frames hp r c qs b S \<longleftrightarrow>
     distinct (c # qs) \<and> dom (hp_frames hp) = set (c # qs) \<and> (\<forall>q\<in>set (c # qs). q < hp_next hp) \<and>
     (\<exists>f. hp_frames hp c = Some f \<and> pr_at f = At b \<and> waits (hp_frames hp) r c (pr_info f) qs S) \<and>
     (\<exists>g. hp_frames hp r = Some g \<and> pr_top g = c)"

lemma waits_cong:
  assumes "\<And>q. q \<in> set qs \<Longrightarrow> map_option (\<lambda>f. (pr_at f, pr_info f)) (F q) = map_option (\<lambda>f. (pr_at f, pr_info f)) (G q)"
  shows "waits F r c i qs S = waits G r c i qs S"
  using assms
proof (induction qs arbitrary: c i S)
  case Nil
  then show ?case by (cases S) auto
next
  case (Cons q qs)
  have q: "map_option (\<lambda>f. (pr_at f, pr_info f)) (F q) = map_option (\<lambda>f. (pr_at f, pr_info f)) (G q)"
    using Cons.prems by simp
  have "waits F r q j qs T = waits G r q j qs T" for j T using Cons by simp
  with q show ?case by (cases S; cases "F q"; cases "G q") auto
qed

lemma waits_root: "waits F r c i qs S \<Longrightarrow> r = last (c # qs)"
  by (induction F r c i qs S rule: waits.induct) (auto split: option.splits)

lemmas exec_defs =
  gen_exec_def element_suspend_def nested_suspend_def nested_resume_def final_suspend_def unhandled_exception_def gen_new_def set_top_def put_frame_def Let_def

lemma waits_Nil [simp]: "waits F r c i qs [] \<longleftrightarrow> qs = [] \<and> i = None \<and> c = r"
  by (cases qs) auto

lemma waits_Cons [simp]:
  "waits F r c i qs ((k, handler) # S) \<longleftrightarrow>
     (\<exists>q ps f. qs = q # ps \<and> i = Some q \<and> F q = Some f \<and>
        pr_at f = Awaiting \<lparr>ni_except = None, ni_parent = q, ni_root = r\<rparr> c k handler \<and> waits F r q (pr_info f) ps S)"
  by (cases qs) (auto split: option.splits)

lemma waits_other:
  "q \<notin> set qs \<Longrightarrow> waits (F(q := x)) r c i qs S = waits F r c i qs S"
  by (rule waits_cong) auto

lemma waits_same:
  "F q = Some f \<Longrightarrow> pr_at g = pr_at f \<Longrightarrow> pr_info g = pr_info f \<Longrightarrow> waits (F(q \<mapsto> g)) r c i qs S = waits F r c i qs S"
  by (rule waits_cong) auto

lemma waits_in: "waits F r c i qs S \<Longrightarrow> r \<in> set (c # qs)"
  using waits_root [of F r c i qs S] last_in_set [of "c # qs"] by simp

lemma waits_not_root: "waits F r c i qs S \<Longrightarrow> c \<notin> set qs \<Longrightarrow> S \<noteq> [] \<Longrightarrow> r \<noteq> c"
  using waits_root [of F r c i qs S] by (cases S; cases qs) (auto split: if_splits)

lemma waits_awaiting:
  "waits F r c i qs S \<Longrightarrow> q \<in> set qs \<Longrightarrow> \<exists>f ni t k handler. F q = Some f \<and> pr_at f = Awaiting ni t k handler"
  by (induction F r c i qs S rule: waits.induct) (auto split: option.splits)

lemma exec_yield:
  assumes "stack_frames hp r c qs (G_yield v k) S"
  shows "\<exists>hp'. gen_exec c hp = Some (Suspend, hp') \<and> stack_frames hp' r c qs k S \<and> gen_deref (Some r) hp' = Some v"
proof -
  from assms obtain f g where f: "hp_frames hp c = Some f" "pr_at f = At (G_yield v k)"
    and w: "waits (hp_frames hp) r c (pr_info f) qs S" and g: "hp_frames hp r = Some g" "pr_top g = c"
    and c: "c \<notin> set qs"
    unfolding stack_frames_def by auto
  have "\<not> gen_done r (put_frame c (f\<lparr>pr_at := At k, pr_value := Some v\<rparr>) hp)"
    using waits_in [OF w] waits_awaiting [OF w, of r] g by (auto simp: gen_done_def put_frame_def)
  with assms f w g c show ?thesis
    by (auto simp: exec_defs stack_frames_def waits_other gen_deref_def iter_bool_def)
qed


lemma exec_moved:
  assumes "stack_frames hp r c qs (G_nest None k handler) S"
  shows "\<exists>hp'. gen_exec c hp = Some (Go c, hp') \<and> stack_frames hp' r c qs k S"
  using assms by (fastforce simp: exec_defs stack_frames_def waits_other)

lemma exec_nest:
  assumes "stack_frames hp r c qs (G_nest (Some d) k handler) S"
  shows "\<exists>hp'. gen_exec c hp = Some (Go (hp_next hp), hp') \<and> stack_frames hp' r (hp_next hp) (c # qs) d ((k, handler) # S)"
proof -
  from assms obtain f g where f: "hp_frames hp c = Some f" "pr_at f = At (G_nest (Some d) k handler)"
    and w: "waits (hp_frames hp) r c (pr_info f) qs S" and g: "hp_frames hp r = Some g" "pr_top g = c"
    and c: "c \<notin> set qs" and n: "\<forall>q\<in>set (c # qs). q < hp_next hp"
    unfolding stack_frames_def by auto
  have fresh: "hp_next hp \<notin> set (c # qs)" "r < hp_next hp" "r \<noteq> hp_next hp"
    using n waits_in [OF w] by auto
  show ?thesis
  proof (cases S)
    case Nil
    with assms f w g c n fresh show ?thesis
      by (auto simp: exec_defs stack_frames_def waits_other)
  next
    case (Cons p T)
    obtain k' h' where p: "p = (k', h')" by (cases p)
    have "r \<noteq> c" "r \<in> set qs" using waits_not_root [OF w c] waits_in [OF w] Cons by auto
    with assms f w g c n fresh Cons p show ?thesis
      by (auto simp: exec_defs stack_frames_def waits_other waits_same less_SucI)
  qed
qed


lemma resume_step:
  "gen_exec c hp = Some (Go c', hp') \<Longrightarrow> gen_resume c hp = gen_resume c' hp'"
  "gen_exec c hp = Some (Suspend, hp') \<Longrightarrow> gen_resume c hp = Some (None, hp')"
  "gen_exec c hp = Some (Thrown e, hp') \<Longrightarrow> gen_resume c hp = Some (Some e, hp')"
  by (simp_all add: gen_resume.simps [of c hp])

text \<open>A nested coroutine that has ended hands control to the one that waits for it, and its frame goes.\<close>

lemma resume_end:
  assumes "stack_frames hp r c qs (gend x) ((k, handler) # S)"
  shows "\<exists>q ps hp'. qs = q # ps \<and> gen_resume c hp = gen_resume q hp' \<and>
    stack_frames hp' r q ps (case x of None \<Rightarrow> k | Some e \<Rightarrow> handler e) S"
proof -
  from assms obtain f g q ps fq where f: "hp_frames hp c = Some f" "pr_at f = At (gend x)" "pr_info f = Some q"
    and q: "hp_frames hp q = Some fq" "pr_at fq = Awaiting \<lparr>ni_except = None, ni_parent = q, ni_root = r\<rparr> c k handler"
    and w: "waits (hp_frames hp) r q (pr_info fq) ps S" and g: "hp_frames hp r = Some g" "pr_top g = c"
    and qs: "qs = q # ps" and d: "distinct (c # q # ps)" 
    and n: "\<forall>q\<in>set (c # qs). q < hp_next hp" and dom: "dom (hp_frames hp) = set (c # qs)"
    unfolding stack_frames_def by auto
  have r: "r \<noteq> c" "r = q \<or> r \<in> set ps" using waits_in [OF w] d by auto
  have "\<exists>hp1 fq'. gen_exec c hp = Some (Go q, hp1) \<and> hp_next hp1 = hp_next hp \<and> dom (hp_frames hp1) = set (c # q # ps) \<and>
      hp_frames hp1 q = Some fq' \<and> pr_info fq' = pr_info fq \<and>
      pr_at fq' = Awaiting \<lparr>ni_except = x, ni_parent = q, ni_root = r\<rparr> c k handler \<and>
      (\<exists>g'. hp_frames hp1 r = Some g' \<and> pr_top g' = q) \<and> waits (hp_frames hp1) r q (pr_info fq) ps S"
  proof (cases "r = q")
    case True
    with f q g r d w dom qs show ?thesis
      by (cases x) (auto simp: exec_defs waits_other)
  next
    case False
    with f q g r d w dom qs show ?thesis
      by (cases x) (auto simp: exec_defs waits_other waits_same)
  qed
  then obtain hp1 fq' g' where e: "gen_exec c hp = Some (Go q, hp1)" and n1: "hp_next hp1 = hp_next hp"
    and dom1: "dom (hp_frames hp1) = set (c # q # ps)" and q1: "hp_frames hp1 q = Some fq'" "pr_info fq' = pr_info fq"
      "pr_at fq' = Awaiting \<lparr>ni_except = x, ni_parent = q, ni_root = r\<rparr> c k handler"
    and g1: "hp_frames hp1 r = Some g'" "pr_top g' = q" and w1: "waits (hp_frames hp1) r q (pr_info fq) ps S"
    by blast
  have "\<exists>hp'. gen_exec q hp1 = Some (Go q, hp') \<and> stack_frames hp' r q ps (case x of None \<Rightarrow> k | Some e \<Rightarrow> handler e) S"
    using q1 g1 w1 dom1 n1 n d r qs
    by (auto simp: exec_defs stack_frames_def waits_other split: option.splits)
  then show ?thesis using qs resume_step(1) [OF e] resume_step(1) by metis
qed


text \<open>The outermost coroutine ends: its frame stays at its final suspension point until it is destroyed.\<close>

lemma resume_root_end:
  assumes "stack_frames hp r c qs (gend x) []"
  shows "\<exists>hp' f. gen_resume r hp = Some (x, hp') \<and> hp_frames hp' = [r \<mapsto> f] \<and> pr_at f = At_end"
proof -
  from assms obtain f where f: "hp_frames hp r = Some f" "pr_at f = At (gend x)" "pr_info f = None"
    and d: "dom (hp_frames hp) = {r}"
    unfolding stack_frames_def by auto
  let ?hp = "put_frame r (f\<lparr>pr_at := At_end\<rparr>) hp"
  have "hp_frames ?hp = [r \<mapsto> f\<lparr>pr_at := At_end\<rparr>]"
    using d by (auto simp: put_frame_def fun_eq_iff dom_def)
  moreover have "gen_resume r hp = Some (x, ?hp)"
    using f by (cases x) (auto simp: exec_defs gen_resume.simps [of r hp])
  ultimately show ?thesis by auto
qed

lemma destroy_chain:
  assumes "waits (hp_frames hp) r c i qs S" "distinct (c # qs)"
  shows "gen_destroy r hp = gen_destroy c (hp\<lparr>hp_frames := (hp_frames hp) |` (- set qs)\<rparr>)"
  using assms
proof (induction qs arbitrary: c i S)
  case Nil
  then show ?case by (cases S) auto
next
  case (Cons q qs)
  obtain k handler T where S: "S = (k, handler) # T" using Cons.prems(1) by (cases S) auto
  obtain f where f: "hp_frames hp q = Some f"
    "pr_at f = Awaiting \<lparr>ni_except = None, ni_parent = q, ni_root = r\<rparr> c k handler" "waits (hp_frames hp) r q (pr_info f) qs T"
    using Cons.prems S by auto
  have "gen_destroy r hp = gen_destroy q (hp\<lparr>hp_frames := (hp_frames hp) |` (- set qs)\<rparr>)"
    using Cons.IH [OF f(3)] Cons.prems(2) by simp
  also have "\<dots> = gen_destroy c (hp\<lparr>hp_frames := ((hp_frames hp) |` (- set qs))(q := None)\<rparr>)"
    using f Cons.prems(2) by (simp add: gen_destroy.simps [of q])
  also have "((hp_frames hp) |` (- set qs))(q := None) = (hp_frames hp) |` (- set (q # qs))"
    by (auto simp: restrict_map_def fun_eq_iff)
  finally show ?case .
qed

lemma destroy_stack:
  assumes "stack_frames hp r c qs b S"
  shows "\<exists>hp'. gen_destroy r hp = Some hp' \<and> hp_frames hp' = Map.empty"
proof -
  from assms obtain f where f: "hp_frames hp c = Some f" "pr_at f = At b" "waits (hp_frames hp) r c (pr_info f) qs S"
    "distinct (c # qs)" and d: "dom (hp_frames hp) = set (c # qs)"
    unfolding stack_frames_def by auto
  have "((hp_frames hp) |` (- set qs))(c := None) = Map.empty"
    using d by (auto simp: restrict_map_def fun_eq_iff dom_def)
  with f destroy_chain [OF f(3,4)] show ?thesis by (simp add: gen_destroy.simps [of c])
qed

text \<open>Resuming the top and looping to the end sees what the stack machine yields; all frames can then
  be destroyed from the root.\<close>

lemma loop_runs:
  assumes "stack_run b S vs e" "stack_frames hp r c qs b S"
  shows "\<exists>t hp' hp'' hp'''. gen_resume c hp = Some (t, hp') \<and>
    gen_rest brk (Some r) t hp' = Some (fst (seen brk vs e), snd (seen brk vs e), hp'') \<and>
    (t \<noteq> None \<longrightarrow> vs = []) \<and>
    gen_destroy r hp'' = Some hp''' \<and> hp_frames hp''' = Map.empty"
  using assms
proof (induction arbitrary: hp c qs rule: stack_run.induct)
  case run_done
  then obtain hp' f where "gen_resume r hp = Some (None, hp')" "hp_frames hp' = [r \<mapsto> f]" "pr_at f = At_end" "c = r"
    using resume_root_end [of hp r c qs None] by (auto simp: stack_frames_def)
  then show ?case
    by (simp add: gen_rest.simps [of brk "Some r"] iter_bool_def gen_done_def gen_destroy.simps [of r])
next
  case (run_thrown x)
  then obtain hp' f where "gen_resume r hp = Some (Some x, hp')" "hp_frames hp' = [r \<mapsto> f]" "pr_at f = At_end" "c = r"
    using resume_root_end [of hp r c qs "Some x"] by (auto simp: stack_frames_def)
  then show ?case by (simp add: gen_rest.simps [of brk "Some r"] gen_destroy.simps [of r])
next
  case (run_pop k S vs e handler)
  then obtain q ps hp' where "gen_resume c hp = gen_resume q hp'" "stack_frames hp' r q ps k S"
    using resume_end [of hp r c qs None k handler S] by auto
  with run_pop.IH show ?case by simp
next
  case (run_catch handler x S vs e k)
  then obtain q ps hp' where "gen_resume c hp = gen_resume q hp'" "stack_frames hp' r q ps (handler x) S"
    using resume_end [of hp r c qs "Some x" k handler S] by auto
  with run_catch.IH show ?case by simp
next
  case (run_yield k S vs e v)
  from exec_yield [OF run_yield.prems] obtain hp' where x: "gen_exec c hp = Some (Suspend, hp')"
    and f: "stack_frames hp' r c qs k S" and v: "gen_deref (Some r) hp' = Some v" by blast
  have b: "iter_bool (Some r) hp'" using v by (auto simp: gen_deref_def split: if_splits)
  obtain g where g: "hp_frames hp' r = Some g" "pr_top g = c" using f by (auto simp: stack_frames_def)
  show ?case
    using resume_step(2) [OF x] v b g run_yield.IH [OF f] destroy_stack [OF f]
    by (cases "brk v") (auto simp: gen_rest.simps [of brk "Some r" None] gen_next_def split: prod.splits)
next
  case (run_moved k S vs e handler)
  from exec_moved [OF run_moved.prems] run_moved.IH show ?case by (auto dest: resume_step(1))
next
  case (run_nest d k handler S vs e)
  from exec_nest [OF run_nest.prems] run_nest.IH show ?case by (auto dest: resume_step(1))
qed


section \<open>Iteration\<close>

text \<open>C13. Equivalence: a range-based for loop over a generator, nested generators and exceptions included,
  always ends; it sees exactly the flattened sequence the generator stands for, up to the value it breaks at, and the
  exception that ends it; and after the destructors of iterator and generator no coroutine frame is left.\<close>

theorem gen_for_is_seq:
  "map_option (\<lambda>(vs, e, hp). (vs, e, hp_frames hp)) (gen_for brk (b :: ('a, 'e) gbody)) =
   (case seen brk (fst (gen_seq b)) (snd (gen_seq b)) of (vs, e) \<Rightarrow> Some (vs, e, Map.empty))"
proof -
  obtain r hp where new: "gen_new b heap_empty = (r, hp)" by (cases "gen_new b (heap_empty :: ('a, 'e) gheap)")
  then have "stack_frames hp r r [] b []"
    by (auto simp: gen_new_def put_frame_def heap_empty_def stack_frames_def split: if_splits)
  from loop_runs [OF stack_run_total this, of brk]
  obtain t hp' hp'' hp''' where "gen_resume r hp = Some (t, hp')"
    "gen_rest brk (Some r) t hp' =
       Some (fst (seen brk (fst (gen_seq b)) (snd (gen_seq b))), snd (seen brk (fst (gen_seq b)) (snd (gen_seq b))), hp'')"
    "gen_destroy r hp'' = Some hp'''" "hp_frames hp''' = Map.empty"
    by blast
  with new show ?thesis
    by (cases t) (auto simp: gen_for_def gen_begin_def gen_drop_def gen_dtor_def gen_rest.simps [of brk "Some r" "Some _"] split: prod.splits)
qed

text \<open>A generator can be iterated once: after \<open>begin()\<close> the iterator owns the coroutine, and a second
  \<open>begin()\<close> on the moved-from generator fails its assertion without touching a frame.\<close>

lemma gen_begin_once:
  "gen_begin (Some r) hp = Some (Begun it, g, hp') \<Longrightarrow> it = Some r \<and> gen_begin g hp' = Some (Moved_from, None, hp')"
  by (auto simp: gen_begin_def split: option.splits)

end
