(* ===== verification/Cqy_Net.thy ===== *)
theory Cqy_Net
  imports Cqy_Ctx "HOL-Library.Sublist"
begin

text \<open>
  Two nodes together: the sender loop of one node (\<open>node_mq_spawn\<close>), the function \<open>rpc_on_mq\<close> it calls on the other, and the
  mailbox and receiving coroutine of a context there, under every interleaving and every fate of a call. A call may fail before it
  reaches the other node, be refused, be lost after it was sent (and then still run there at any later time), or succeed. Other
  senders may put messages into the same mailbox at any time.
\<close>

section \<open>The system\<close>

datatype call_fate = Fate_unsent | Fate_refused | Fate_lost | Fate_ok

fun fate_result :: "call_fate \<Rightarrow> send_result" where
  "fate_result Fate_unsent = Conn_Error"
| "fate_result Fate_refused = Remote_Error"
| "fate_result Fate_lost = Conn_Error"
| "fate_result Fate_ok = Sent"

text \<open>\<open>ln_late\<close>: calls the sender gave up that the other node may still run. \<open>ln_log\<close>: what entered the mailbox, with a mark for
  what came over this link; \<open>ln_taken\<close>: what the coroutine took out; \<open>ln_started\<close>: for which messages it started \<open>on_msg\<close>.\<close>

record ('u, 'f) link =
  ln_peer :: peer
  ln_remote :: "('u, 'f) cqy_app_t"
  ln_late :: "string list list"
  ln_at :: wm_pc
  ln_log :: "(bool \<times> string) list"
  ln_taken :: "string list"
  ln_started :: "string list"

datatype net_event =
  Net_push string | Net_shutdown | Net_call call_fate | Net_late nat | Net_local string | Net_loop

definition net_init :: "node_info \<Rightarrow> ('u, 'f) cqy_app_t \<Rightarrow> ('u, 'f) link" where
  "net_init info b =
     \<lparr>ln_peer = peer_init info, ln_remote = b, ln_late = [], ln_at = WM_head, ln_log = [], ln_taken = [], ln_started = []\<rparr>"

definition mailbox :: "nat \<Rightarrow> ('u, 'f) cqy_app_t \<Rightarrow> string cqy_cv_queue_t" where
  "mailbox q b = cx_queue (ap_objs b ! q)"

text \<open>What an operation of the other node added to the mailbox.\<close>

definition log_new :: "bool \<Rightarrow> nat \<Rightarrow> ('u, 'f) cqy_app_t \<Rightarrow> ('u, 'f) link \<Rightarrow> ('u, 'f) link" where
  "log_new mark q b s =
     s\<lparr>ln_remote := b,
       ln_log := ln_log s @ map (Pair mark) (drop (length (q_items (mailbox q (ln_remote s)))) (q_items (mailbox q b)))\<rparr>"

definition arrive :: "nat \<Rightarrow> string list \<Rightarrow> ('u, 'f) link \<Rightarrow> ('u, 'f) link" where
  "arrive q batch s = log_new True q (snd (rpc_on_mq batch (ln_remote s))) s"

text \<open>The batch, if any, the step of the loop sent.\<close>

definition batch_sent :: "peer \<Rightarrow> peer \<Rightarrow> string list option" where
  "batch_sent p p' = (case drop (length (wire p)) (wire p') of [] \<Rightarrow> None | (b, _) # _ \<Rightarrow> Some b)"

fun net_step :: "nat \<Rightarrow> net_event \<Rightarrow> ('u, 'f) link \<Rightarrow> ('u, 'f) link" where
  "net_step q (Net_push m) s = s\<lparr>ln_peer := peer_step (Ev_push m) (ln_peer s)\<rparr>"
| "net_step q Net_shutdown s = s\<lparr>ln_peer := peer_step Ev_shutdown (ln_peer s)\<rparr>"
| "net_step q (Net_call f) s =
     (let p' = peer_step (Ev_loop (fate_result f)) (ln_peer s); s' = s\<lparr>ln_peer := p'\<rparr>
      in case batch_sent (ln_peer s) p' of
           None \<Rightarrow> s'
         | Some b \<Rightarrow>
             (case f of
                Fate_ok \<Rightarrow> arrive q b s'
              | Fate_lost \<Rightarrow> s'\<lparr>ln_late := ln_late s @ [b]\<rparr>
              | _ \<Rightarrow> s'))"
| "net_step q (Net_late k) s =
     (if k < length (ln_late s)
      then arrive q (ln_late s ! k) (s\<lparr>ln_late := take k (ln_late s) @ drop (Suc k) (ln_late s)\<rparr>)
      else s)"
| "net_step q (Net_local m) s = log_new False q (node_push_msg q m (ln_remote s)) s"
| "net_step q Net_loop s =
     (case wait_step (mailbox q (ln_remote s)) (ln_at s) of
        None \<Rightarrow> s
      | Some (mb, pc, started) \<Rightarrow>
          s\<lparr>ln_remote := upd_obj q (\<lambda>c. c\<lparr>cx_queue := mb\<rparr>) (ln_remote s), ln_at := pc,
            ln_taken := ln_taken s @
              take (length (q_items (mailbox q (ln_remote s))) - length (q_items mb)) (q_items (mailbox q (ln_remote s))),
            ln_started := ln_started s @ (case started of None \<Rightarrow> [] | Some m \<Rightarrow> [m])\<rparr>)"

definition net_run :: "nat \<Rightarrow> net_event list \<Rightarrow> ('u, 'f) link \<Rightarrow> ('u, 'f) link" where
  "net_run q = fold (net_step q)"

text \<open>What came over the link into the mailbox.\<close>

definition over_link :: "('u, 'f) link \<Rightarrow> string list" where
  "over_link s = map snd (filter fst (ln_log s))"

text \<open>The messages for the context at \<open>q\<close>.\<close>

definition for_ctx :: "('u, 'f) cqy_app_t \<Rightarrow> nat \<Rightarrow> string list \<Rightarrow> string list" where
  "for_ctx b q = filter (\<lambda>m. mq_target b m = Some q)"

section \<open>Mailbox\<close>

text \<open>The part of the invariant about the other node; \<open>b\<close> is the application the run started with.\<close>

definition box_inv :: "('u, 'f) cqy_app_t \<Rightarrow> nat \<Rightarrow> ('u, 'f) link \<Rightarrow> bool" where
  "box_inv b q s \<longleftrightarrow>
     q < length (ap_objs (ln_remote s)) \<and> ap_mgr (ln_remote s) = ap_mgr b \<and> \<not> q_stop (mailbox q (ln_remote s)) \<and>
     ln_taken s @ q_items (mailbox q (ln_remote s)) = map snd (ln_log s) \<and> ln_started s = filter well_formed (ln_taken s) \<and>
     ln_at s \<noteq> WM_done"

lemma rpc_on_mq_mgr: "ap_mgr (snd (rpc_on_mq msgs a)) = ap_mgr a" "length (ap_objs (snd (rpc_on_mq msgs a))) = length (ap_objs a)"
  by (induction msgs arbitrary: a) (simp_all add: rpc_on_mq_Cons split: option.split del: rpc_on_mq.simps(2))

lemma arrive_box:
  assumes "box_inv b q s" "\<forall>m \<in> set batch. well_formed m"
  shows "box_inv b q (arrive q batch s)" "over_link (arrive q batch s) = over_link s @ for_ctx b q batch"
    "ln_peer (arrive q batch s) = ln_peer s" "ln_late (arrive q batch s) = ln_late s"
proof -
  have tw: "takeWhile well_formed batch = batch"
    using assms(2) by simp
  have "mailbox q (snd (rpc_on_mq batch (ln_remote s))) = fold q_push (for_ctx b q batch) (mailbox q (ln_remote s))"
    using assms rpc_on_mq_queue [of q "ln_remote s" batch, unfolded tw] mq_target_cong [of "ln_remote s" b]
    by (simp add: box_inv_def mailbox_def for_ctx_def)
  moreover have "q_items (fold q_push (for_ctx b q batch) (mailbox q (ln_remote s))) =
      q_items (mailbox q (ln_remote s)) @ for_ctx b q batch"
    "\<not> q_stop (fold q_push (for_ctx b q batch) (mailbox q (ln_remote s)))"
    using assms(1) chan.fold_put_open [of "mailbox q (ln_remote s)"] by (simp_all add: box_inv_def)
  ultimately show "box_inv b q (arrive q batch s)" "over_link (arrive q batch s) = over_link s @ for_ctx b q batch"
    using assms(1) by (auto simp: arrive_def log_new_def box_inv_def over_link_def rpc_on_mq_mgr comp_def)
qed (simp_all add: arrive_def log_new_def)

lemma local_box:
  assumes "box_inv b q s"
  shows "box_inv b q (net_step q (Net_local m) s)" "over_link (net_step q (Net_local m) s) = over_link s"
proof -
  have "mailbox q (node_push_msg q m (ln_remote s)) = q_push m (mailbox q (ln_remote s))"
    using assms by (simp add: mailbox_def node_push_msg_def upd_obj_nth box_inv_def)
  then show "box_inv b q (net_step q (Net_local m) s)" "over_link (net_step q (Net_local m) s) = over_link s"
    using assms by (auto simp: box_inv_def log_new_def over_link_def q_push_def)
qed

lemma loop_box:
  assumes "box_inv b q s"
  shows "box_inv b q (net_step q Net_loop s)" "ln_log (net_step q Net_loop s) = ln_log s"
proof -
  have mb: "mailbox q (upd_obj q (\<lambda>c. c\<lparr>cx_queue := x\<rparr>) (ln_remote s)) = x" for x
    using assms by (simp add: mailbox_def upd_obj_nth box_inv_def)
  show "box_inv b q (net_step q Net_loop s)"
  proof (cases "ln_at s")
    case WM_pop
    with assms mb show ?thesis
      by (cases "q_items (mailbox q (ln_remote s))") (auto simp: box_inv_def wait_step_def q_pop_def q_ready_def well_formed_def)
  qed (use assms mb in \<open>auto simp: box_inv_def wait_step_def\<close>)
  show "ln_log (net_step q Net_loop s) = ln_log s"
    by (auto split: option.split)
qed

section \<open>The link\<close>

text \<open>A step of the sender loop sends the current batch or nothing.\<close>

lemma loop_sends:
  assumes "peer_inv p"
  shows "batch_sent p (peer_step (Ev_loop r) p) =
      (if mq_at (p_loop p) = MQ_send \<and> nd_client (p_node p) \<noteq> None then Some (mq_msgs (p_loop p)) else None)"
    "acked (wire (peer_step (Ev_loop r) p)) =
      acked (wire p) @ (case batch_sent p (peer_step (Ev_loop r) p) of Some b \<Rightarrow> if r = Sent then b else [] | None \<Rightarrow> [])"
  using assms by (cases "mq_at (p_loop p)"; auto simp: mq_step_def batch_sent_def split: option.split)+

lemma accepted_step:
  "accepted (peer_step (Ev_loop r) p) = accepted p" "accepted (peer_step Ev_shutdown p) = accepted p"
  "set (accepted p) \<subseteq> set (accepted (peer_step e p))" "wire (peer_step (Ev_push m) p) = wire p" "wire (peer_step Ev_shutdown p) = wire p"
  by (cases e; auto split: option.split)+

text \<open>What holds of the link in every run in which only well-formed messages are sent: the acknowledged messages for the context
  have come over, in order, and nothing came over that was not accepted.\<close>

definition link_inv :: "('u, 'f) cqy_app_t \<Rightarrow> nat \<Rightarrow> ('u, 'f) link \<Rightarrow> bool" where
  "link_inv b q s \<longleftrightarrow>
     box_inv b q s \<and> peer_inv (ln_peer s) \<and> (\<forall>m \<in> set (accepted (ln_peer s)). well_formed m) \<and>
     (\<forall>late \<in> set (ln_late s). set late \<subseteq> set (accepted (ln_peer s))) \<and>
     set (over_link s) \<subseteq> set (accepted (ln_peer s)) \<and>
     subseq (for_ctx b q (acked (wire (ln_peer s)))) (over_link s)"

definition sends_well_formed :: "net_event \<Rightarrow> bool" where
  "sends_well_formed e = (case e of Net_push m \<Rightarrow> well_formed m | _ \<Rightarrow> True)"

lemma link_inv_arrive:
  assumes "link_inv b q s" "set batch \<subseteq> set (accepted (ln_peer s))"
  shows "link_inv b q (arrive q batch s)"
proof -
  have wf: "\<forall>m \<in> set batch. well_formed m" using assms by (auto simp: link_inv_def)
  have box: "box_inv b q s" using assms(1) by (simp add: link_inv_def)
  have "set (for_ctx b q batch) \<subseteq> set batch" by (auto simp: for_ctx_def)
  with assms arrive_box [OF box wf] show ?thesis
    by (auto simp: link_inv_def intro: subseq_rev_drop_many)
qed

lemma link_inv_call:
  assumes "link_inv b q s"
  shows "link_inv b q (net_step q (Net_call f) s)"
proof -
  define p' where "p' = peer_step (Ev_loop (fate_result f)) (ln_peer s)"
  have pi: "peer_inv (ln_peer s)" "peer_inv p'"
    using assms by (simp_all add: link_inv_def p'_def peer_inv_step del: peer_step.simps)
  note sent = loop_sends [OF pi(1), of "fate_result f", folded p'_def]
  have acc: "accepted p' = accepted (ln_peer s)" by (simp add: p'_def accepted_step del: peer_step.simps)
  have st: "net_step q (Net_call f) s =
      (case batch_sent (ln_peer s) p' of
         None \<Rightarrow> s\<lparr>ln_peer := p'\<rparr>
       | Some b \<Rightarrow>
           (case f of
              Fate_ok \<Rightarrow> arrive q b (s\<lparr>ln_peer := p'\<rparr>)
            | Fate_lost \<Rightarrow> s\<lparr>ln_peer := p', ln_late := ln_late s @ [b]\<rparr>
            | _ \<Rightarrow> s\<lparr>ln_peer := p'\<rparr>))"
    by (simp only: net_step.simps p'_def Let_def)
  show ?thesis
  proof (cases "batch_sent (ln_peer s) p'")
    case None
    with assms sent(2) pi(2) acc show ?thesis
      by (simp add: st link_inv_def box_inv_def over_link_def del: net_step.simps)
  next
    case (Some batch)
    then have batch: "batch = mq_msgs (p_loop (ln_peer s))" using sent(1) by (simp split: if_splits)
    have sub: "set batch \<subseteq> set (accepted (ln_peer s))"
      using pi(1) by (auto simp: batch peer_inv_def)
    show ?thesis
    proof (cases "f = Fate_ok")
      case True
      let ?s = "s\<lparr>ln_peer := p'\<rparr>"
      have wf: "\<forall>m \<in> set batch. well_formed m" using assms sub by (auto simp: link_inv_def)
      have box: "box_inv b q ?s" using assms by (simp add: link_inv_def box_inv_def)
      have "net_step q (Net_call f) s = arrive q batch ?s"
        unfolding st using Some True by simp
      moreover have "acked (wire p') = acked (wire (ln_peer s)) @ batch"
        using sent(2) Some True by simp
      moreover have "set (for_ctx b q batch) \<subseteq> set batch" by (auto simp: for_ctx_def)
      moreover have "over_link ?s = over_link s" by (simp add: over_link_def)
      ultimately show ?thesis
        using assms arrive_box [OF box wf] pi(2) acc sub
        by (auto simp: link_inv_def for_ctx_def intro: list_emb_append_mono)
    next
      case False
      with Some have "net_step q (Net_call f) s = s\<lparr>ln_peer := p', ln_late := ln_late s @ (if f = Fate_lost then [batch] else [])\<rparr>"
        unfolding st by (cases f) simp_all
      moreover have "acked (wire p') = acked (wire (ln_peer s))"
        using sent(2) Some False by (cases f) simp_all
      ultimately show ?thesis
        using assms pi(2) acc sub by (auto simp: link_inv_def box_inv_def over_link_def)
    qed
  qed
qed

lemma link_inv_step:
  assumes "link_inv b q s" "sends_well_formed e"
  shows "link_inv b q (net_step q e s)"
proof (cases e)
  case (Net_push m)
  define p' where "p' = peer_step (Ev_push m) (ln_peer s)"
  have "peer_inv p'"
    using assms(1) by (simp add: p'_def link_inv_def peer_inv_step del: peer_step.simps)
  moreover have "set (accepted (ln_peer s)) \<subseteq> set (accepted p')" "set (accepted p') \<subseteq> insert m (set (accepted (ln_peer s)))"
    "wire p' = wire (ln_peer s)"
    by (auto simp: p'_def)
  ultimately have "link_inv b q (s\<lparr>ln_peer := p'\<rparr>)"
    using assms Net_push unfolding link_inv_def box_inv_def over_link_def sends_well_formed_def by simp blast
  then show ?thesis
    by (simp only: Net_push net_step.simps p'_def)
next
  case Net_shutdown
  have "peer_inv (peer_step Ev_shutdown (ln_peer s))"
    using assms(1) by (simp add: link_inv_def peer_inv_step del: peer_step.simps)
  with Net_shutdown assms show ?thesis
    by (simp add: link_inv_def box_inv_def over_link_def accepted_step del: peer_step.simps)
next
  case (Net_call f)
  with assms show ?thesis by (simp only: link_inv_call)
next
  case (Net_late k)
  show ?thesis
  proof (cases "k < length (ln_late s)")
    case True
    let ?s = "s\<lparr>ln_late := take k (ln_late s) @ drop (Suc k) (ln_late s)\<rparr>"
    have "link_inv b q ?s"
      using assms(1) by (auto simp: link_inv_def box_inv_def over_link_def dest: in_set_takeD in_set_dropD)
    moreover have "set (ln_late s ! k) \<subseteq> set (accepted (ln_peer ?s))"
      using assms(1) True by (simp add: link_inv_def)
    ultimately show ?thesis
      using Net_late True by (simp add: link_inv_arrive)
  qed (use Net_late assms in simp)
next
  case (Net_local m)
  with assms local_box [of b q s m] show ?thesis
    by (simp add: link_inv_def log_new_def)
next
  case Net_loop
  have "ln_peer (net_step q Net_loop s) = ln_peer s" "ln_late (net_step q Net_loop s) = ln_late s"
    by (auto split: option.split)
  with Net_loop assms loop_box [of b q s] show ?thesis
    by (simp add: link_inv_def over_link_def del: net_step.simps)
qed

interpretation at_least: step_invariant "net_step q" "link_inv b q" sends_well_formed for b q
  by unfold_locales (rule link_inv_step)

lemma link_inv_run:
  "link_inv b q s \<Longrightarrow> \<forall>e \<in> set es. sends_well_formed e \<Longrightarrow> link_inv b q (net_run q es s)"
  unfolding net_run_def by (rule at_least.inv_fold)

lemma link_inv_init:
  assumes "q < length (ap_objs b)" "mailbox q b = queue_init"
  shows "link_inv b q (net_init info b)"
  using assms peer_inv_init [of info]
  by (simp add: link_inv_def box_inv_def net_init_def over_link_def queue_init_def for_ctx_def) (simp add: peer_init_def)

section \<open>Calls that are not lost\<close>

definition once_inv :: "('u, 'f) cqy_app_t \<Rightarrow> nat \<Rightarrow> ('u, 'f) link \<Rightarrow> bool" where
  "once_inv b q s \<longleftrightarrow> link_inv b q s \<and> ln_late s = [] \<and> over_link s = for_ctx b q (acked (wire (ln_peer s)))"

lemma once_inv_step:
  assumes "once_inv b q s" "sends_well_formed e" "e \<noteq> Net_call Fate_lost"
  shows "once_inv b q (net_step q e s)"
proof -
  have inv: "link_inv b q (net_step q e s)"
    using assms by (simp add: once_inv_def link_inv_step del: net_step.simps)
  have pi: "peer_inv (ln_peer s)" and box: "box_inv b q s" using assms(1) by (simp_all add: once_inv_def link_inv_def)
  show ?thesis
  proof (cases e)
    case (Net_call f)
    define p' where "p' = peer_step (Ev_loop (fate_result f)) (ln_peer s)"
    note sent = loop_sends [OF pi, of "fate_result f", folded p'_def]
    show ?thesis
    proof (cases "f = Fate_ok \<and> batch_sent (ln_peer s) p' \<noteq> None")
      case True
      then obtain batch where batch: "batch_sent (ln_peer s) p' = Some batch" "f = Fate_ok" by blast
      then have st: "net_step q e s = arrive q batch (s\<lparr>ln_peer := p'\<rparr>)"
        using Net_call p'_def by (simp add: Let_def del: peer_step.simps)
      have "set batch \<subseteq> set (accepted (ln_peer s))"
        using batch(1) sent(1) pi by (auto simp: peer_inv_def split: if_splits)
      then have wf: "\<forall>m \<in> set batch. well_formed m" using assms(1) by (auto simp: once_inv_def link_inv_def)
      have "box_inv b q (s\<lparr>ln_peer := p'\<rparr>)" using box by (simp add: box_inv_def)
      from arrive_box [OF this wf] show ?thesis
        using assms(1) inv sent(2) batch unfolding once_inv_def st by (auto simp: over_link_def for_ctx_def)
    next
      case False
      then have "net_step q e s = s\<lparr>ln_peer := p'\<rparr>" "acked (wire p') = acked (wire (ln_peer s))"
        using Net_call assms(3) sent(2)
        by (cases f; auto simp: p'_def Let_def split: option.splits simp del: peer_step.simps)+
      then show ?thesis
        using assms(1) inv by (simp add: once_inv_def over_link_def)
    qed
  next
    case (Net_local m)
    with assms inv local_box(2) [OF box] show ?thesis by (simp add: once_inv_def) (simp add: log_new_def)
  next
    case Net_loop
    have "ln_peer (net_step q Net_loop s) = ln_peer s" "ln_late (net_step q Net_loop s) = ln_late s"
      by (auto split: option.split)
    with Net_loop assms inv loop_box(2) [OF box] show ?thesis
      by (simp add: once_inv_def over_link_def del: net_step.simps)
  qed (use assms inv in \<open>auto simp: once_inv_def over_link_def\<close>)
qed

interpretation at_most: step_invariant "net_step q" "once_inv b q" "\<lambda>e. sends_well_formed e \<and> e \<noteq> Net_call Fate_lost" for b q
  by unfold_locales (simp add: once_inv_step del: net_step.simps)

lemma once_inv_run:
  "once_inv b q s \<Longrightarrow> \<forall>e \<in> set es. sends_well_formed e \<and> e \<noteq> Net_call Fate_lost \<Longrightarrow> once_inv b q (net_run q es s)"
  unfolding net_run_def by (rule at_most.inv_fold)

section \<open>Progress\<close>

lemma calls_ok_peer:
  "ln_peer (net_run q (replicate n (Net_call Fate_ok)) s) = peer_run (replicate n (Ev_loop Sent)) (ln_peer s)"
proof (induction n arbitrary: s)
  case (Suc n)
  have "ln_peer (net_step q (Net_call Fate_ok) s) = peer_step (Ev_loop Sent) (ln_peer s)"
    by (simp add: Let_def arrive_def log_new_def split: option.split del: peer_step.simps)
  with Suc show ?case by (simp add: net_run_def peer_run_def del: net_step.simps peer_step.simps)
qed (simp add: net_run_def peer_run_def)

lemma loops_empty:
  assumes "box_inv b q s" "2 * length (q_items (mailbox q (ln_remote s))) + (if ln_at s = WM_head then 1 else 0) \<le> n"
  shows "box_inv b q (net_run q (replicate n Net_loop) s) \<and> ln_log (net_run q (replicate n Net_loop) s) = ln_log s \<and>
    q_items (mailbox q (ln_remote (net_run q (replicate n Net_loop) s))) = []"
  using assms
proof (induction n arbitrary: s)
  case (Suc n)
  let ?s = "net_step q Net_loop s"
  have mb: "mailbox q (upd_obj q (\<lambda>c. c\<lparr>cx_queue := x\<rparr>) (ln_remote s)) = x" for x
    using Suc.prems(1) by (simp add: mailbox_def upd_obj_nth box_inv_def)
  have "2 * length (q_items (mailbox q (ln_remote ?s))) + (if ln_at ?s = WM_head then 1 else 0) \<le> n"
    using Suc.prems mb
    by (cases "ln_at s"; cases "q_items (mailbox q (ln_remote s))")
      (auto simp: box_inv_def wait_step_def q_pop_def q_ready_def split: option.split)
  from Suc.IH [OF loop_box(1) [OF Suc.prems(1)] this] loop_box(2) [OF Suc.prems(1)] show ?case
    by (simp add: net_run_def del: net_step.simps)
qed (auto simp: net_run_def)

section \<open>Properties\<close>

text \<open>C4. Messages to a context of another node arrive at least once and in order, whatever happens to the calls, however all steps interleave
  and whoever else uses the mailbox: the acknowledged messages for the context are among those that came over the link, in the order they were
  sent; nothing comes over that was not sent; and \<open>on_msg\<close> is started in the order of arrival, for everything that was taken out of the mailbox.\<close>

theorem net_at_least_once:
  assumes "q < length (ap_objs b)" "mailbox q b = queue_init" "\<forall>e \<in> set es. sends_well_formed e"
  shows "subseq (for_ctx b q (acked (wire (ln_peer (net_run q es (net_init info b)))))) (over_link (net_run q es (net_init info b))) \<and>
     set (over_link (net_run q es (net_init info b))) \<subseteq> set (accepted (ln_peer (net_run q es (net_init info b)))) \<and>
     map snd (ln_log (net_run q es (net_init info b))) =
       ln_taken (net_run q es (net_init info b)) @ q_items (mailbox q (ln_remote (net_run q es (net_init info b)))) \<and>
     ln_started (net_run q es (net_init info b)) = filter well_formed (ln_taken (net_run q es (net_init info b)))"
  using link_inv_run [OF link_inv_init [OF assms(1,2)] assms(3), of info] by (simp add: link_inv_def box_inv_def)

text \<open>C3. Exactly once: as long as no call is lost after it was sent (calls may fail before that, or be refused), the messages that came over the
  link are exactly the acknowledged ones for the context, in order; and from every such state with an open sender, five steps of the sender
  loop with successful calls and then enough steps of the receiving coroutine start \<open>on_msg\<close> for every message accepted for the context.\<close>

theorem net_exactly_once:
  assumes "q < length (ap_objs b)" "mailbox q b = queue_init"
    "\<forall>e \<in> set es. sends_well_formed e \<and> e \<noteq> Net_call Fate_lost" "s = net_run q es (net_init info b)"
  shows "over_link s = for_ctx b q (acked (wire (ln_peer s))) \<and>
     (\<not> q_stop (nd_queue (p_node (ln_peer s))) \<longrightarrow>
       (\<exists>n s'. s' = net_run q (replicate 5 (Net_call Fate_ok) @ replicate n Net_loop) s \<and>
          over_link s' = for_ctx b q (accepted (ln_peer s)) \<and> ln_started s' = filter well_formed (map snd (ln_log s'))))"
proof -
  have "once_inv b q (net_init info b)"
    using link_inv_init [OF assms(1,2), of info] by (simp add: once_inv_def) (simp add: net_init_def over_link_def peer_init_def for_ctx_def)
  from once_inv_run [OF this assms(3)] have s: "once_inv b q s" by (simp add: assms(4))
  moreover have "\<exists>n s'. s' = net_run q (replicate 5 (Net_call Fate_ok) @ replicate n Net_loop) s \<and>
      over_link s' = for_ctx b q (accepted (ln_peer s)) \<and> ln_started s' = filter well_formed (map snd (ln_log s'))"
    if "\<not> q_stop (nd_queue (p_node (ln_peer s)))"
  proof -
    define t where "t = net_run q (replicate 5 (Net_call Fate_ok)) s"
    define n where "n = 2 * length (q_items (mailbox q (ln_remote t))) + 1"
    define u where "u = net_run q (replicate n Net_loop) t"
    have t: "once_inv b q t"
      unfolding t_def by (rule once_inv_run [OF s]) (simp add: sends_well_formed_def)
    have "acked (wire (ln_peer t)) = accepted (ln_peer s)"
      using s that rank_zero_run [of "ln_peer s" 5] rank_le_5
      by (auto simp: t_def calls_ok_peer once_inv_def link_inv_def peer_inv_def pending_def dest: rank_zero)
    with t have link: "over_link t = for_ctx b q (accepted (ln_peer s))" by (simp add: once_inv_def)
    have "box_inv b q u \<and> ln_log u = ln_log t \<and> q_items (mailbox q (ln_remote u)) = []"
      unfolding u_def using t by (intro loops_empty) (simp_all add: once_inv_def link_inv_def n_def)
    with link have "over_link u = for_ctx b q (accepted (ln_peer s))" "ln_started u = filter well_formed (map snd (ln_log u))"
      by (auto simp: over_link_def box_inv_def)
    moreover have "u = net_run q (replicate 5 (Net_call Fate_ok) @ replicate n Net_loop) s"
      by (simp add: u_def t_def net_run_def)
    ultimately show ?thesis by blast
  qed
  ultimately show ?thesis by (simp add: once_inv_def)
qed

text \<open>A call that is lost on its way back is repeated, and the context gets the message twice: the sender cannot tell it from a call that
  never arrived, and the receiver does not recognize what it has seen.\<close>

theorem lost_reply_duplicates:
  assumes "q < length (ap_objs b)" "mailbox q b = queue_init" "well_formed m" "mq_target b m = Some q"
  shows "over_link (net_run q [Net_push m, Net_call Fate_ok, Net_call Fate_ok, Net_call Fate_lost, Net_late 0, Net_call Fate_ok, Net_call Fate_ok]
     (net_init info b)) = [m, m]"
proof -
  have a: "arrive q [m] s = s\<lparr>ln_remote := node_push_msg q m (ln_remote s), ln_log := ln_log s @ [(True, m)]\<rparr>"
    if "box_inv b q s" for s
  proof -
    have t: "mq_target (ln_remote s) m = Some q" using that assms(4) mq_target_cong [of "ln_remote s" b] by (simp add: box_inv_def)
    have "snd (rpc_on_mq [m] (ln_remote s)) = node_push_msg q m (ln_remote s)" by (rule rpc_on_mq_single [OF assms(3) t])
    moreover have "mailbox q (node_push_msg q m (ln_remote s)) = q_push m (mailbox q (ln_remote s))"
      using that by (simp add: mailbox_def node_push_msg_def upd_obj_nth box_inv_def)
    ultimately show ?thesis
      using that by (simp add: arrive_def log_new_def q_push_def box_inv_def)
  qed
  have box: "box_inv b q s" if "ln_remote s \<in> {b, node_push_msg q m b}" "ln_taken s = []" "ln_started s = []" "ln_at s = WM_head"
    "map snd (ln_log s) = q_items (mailbox q (ln_remote s))" for s :: "('a, 'b) link"
    using that assms(1,2) by (auto simp: box_inv_def mailbox_def node_push_msg_def upd_obj_nth queue_init_def q_push_def)
  have mb: "mailbox q (node_push_msg q m b) = \<lparr>q_items = [m], q_stop = False\<rparr>"
    using assms(1,2) by (simp add: mailbox_def node_push_msg_def upd_obj_nth queue_init_def q_push_def)
  show ?thesis
    using assms(1,2) mb
    by (simp add: net_run_def net_init_def peer_init_def mq_init_def create_client_def node_init_def mq_step_def queue_defs batch_sent_def Let_def
        a box over_link_def)
qed

definition echo_msg :: string where
  "echo_msg = msg_make 0x02000001 0x01000001 7 0 False ''a''"

lemma echo_msg_facts: "mq_target echo_running echo_msg = Some 0" "well_formed echo_msg" "mailbox 0 echo_running = queue_init"
proof -
  show "mq_target echo_running echo_msg = Some 0" "well_formed echo_msg" by code_simp+
qed (simp add: mailbox_def echo_running_objs)

theorem net_at_least_once_witness:
  "\<exists>s. s = net_run 0 [Net_push echo_msg, Net_call Fate_ok, Net_call Fate_ok, Net_call Fate_ok, Net_call Fate_ok] (net_init n2_info echo_running) \<and>
     acked (wire (ln_peer s)) = [echo_msg] \<and> subseq [echo_msg] (over_link s)"
proof -
  let ?es = "[Net_push echo_msg, Net_call Fate_ok, Net_call Fate_ok, Net_call Fate_ok, Net_call Fate_ok]"
  have "acked (wire (ln_peer (net_run 0 ?es (net_init n2_info echo_running)))) = [echo_msg]"
    by (simp add: net_run_def net_init_def peer_run_simps Let_def batch_sent_def arrive_def log_new_def acked_def del: rpc_on_mq.simps)
  then show ?thesis
    using net_at_least_once [of 0 echo_running ?es n2_info] echo_msg_facts
    by (simp add: echo_running_objs sends_well_formed_def for_ctx_def del: net_step.simps)
qed

theorem net_exactly_once_witness:
  "\<exists>n. over_link (net_run 0 (replicate 5 (Net_call Fate_ok) @ replicate n Net_loop)
     (net_run 0 [Net_push echo_msg, Net_call Fate_unsent] (net_init n2_info echo_running))) = [echo_msg]"
proof -
  let ?s = "net_run 0 [Net_push echo_msg, Net_call Fate_unsent] (net_init n2_info echo_running)"
  have "\<not> q_stop (nd_queue (p_node (ln_peer ?s)))" "accepted (ln_peer ?s) = [echo_msg]"
    by (simp_all add: net_run_def net_init_def peer_run_simps Let_def batch_sent_def)
  then show ?thesis
    using net_exactly_once [of 0 echo_running "[Net_push echo_msg, Net_call Fate_unsent]" ?s n2_info] echo_msg_facts
    by (auto simp: echo_running_objs sends_well_formed_def for_ctx_def simp del: net_step.simps)
qed

theorem lost_reply_duplicates_witness:
  "over_link (net_run 0 [Net_push echo_msg, Net_call Fate_ok, Net_call Fate_ok, Net_call Fate_lost, Net_late 0, Net_call Fate_ok, Net_call Fate_ok]
     (net_init n2_info echo_running)) = [echo_msg, echo_msg]"
  using lost_reply_duplicates [of 0 echo_running echo_msg n2_info] echo_msg_facts by (simp add: echo_running_objs del: net_step.simps)

end
