(* ===== verification/Cqy_Random.thy ===== *)
theory Cqy_Random
  imports Complex_Main Cqy_Algo
begin

text \<open>
  The random helpers of \<open>src/cqy_algo.cpp\<close>: \<open>random_engine\<close> and \<open>random_bernoulli\<close>, which is true with a chance given in
  percent. The engine and the distribution are the standard library's.
\<close>

section \<open>Chance\<close>

text \<open>
  \<open>random_engine\<close> is a function-local static: the first call seeds it (\<open>fresh\<close>), later calls return the same engine. The state
  is \<open>None\<close> before the first call. In \<open>random_bernoulli\<close> a finite \<open>double\<close> is a real number, \<open>rnd\<close> is the rounding of
  the division, and \<open>draw p\<close> is one call of \<open>std::bernoulli_distribution\<close> with parameter \<open>p\<close>, which advances the engine.
\<close>

definition random_engine :: "'e \<Rightarrow> 'e option \<Rightarrow> 'e" where
  "random_engine fresh st = (case st of None \<Rightarrow> fresh | Some e \<Rightarrow> e)"

definition clamp :: "'a :: linorder \<Rightarrow> 'a \<Rightarrow> 'a \<Rightarrow> 'a" where
  "clamp v lo hi = (if v < lo then lo else if hi < v then hi else v)"

definition bernoulli_param :: "(real \<Rightarrow> real) \<Rightarrow> real \<Rightarrow> real" where
  "bernoulli_param rnd percent = rnd (clamp percent 0 100 / 100)"

definition random_bernoulli ::
  "(real \<Rightarrow> real) \<Rightarrow> (real \<Rightarrow> 'e \<Rightarrow> bool \<times> 'e) \<Rightarrow> 'e \<Rightarrow> real \<Rightarrow> 'e option \<Rightarrow> bool \<times> 'e option" where
  "random_bernoulli rnd draw fresh percent st =
     (case draw (bernoulli_param rnd percent) (random_engine fresh st) of (b, e) \<Rightarrow> (b, Some e))"

fun random_bernoullis ::
  "(real \<Rightarrow> real) \<Rightarrow> (real \<Rightarrow> 'e \<Rightarrow> bool \<times> 'e) \<Rightarrow> 'e \<Rightarrow> real list \<Rightarrow> 'e option \<Rightarrow> bool list \<times> 'e option" where
  "random_bernoullis rnd draw fresh [] st = ([], st)"
| "random_bernoullis rnd draw fresh (x # xs) st =
     (case random_bernoulli rnd draw fresh x st of
        (b, st1) \<Rightarrow> (case random_bernoullis rnd draw fresh xs st1 of (bs, st2) \<Rightarrow> (b # bs, st2)))"

text \<open>What is documented: rounding is monotone and exact on 0 and 1, and a distribution with parameter 0 or 1 has one outcome.\<close>

definition rounds :: "(real \<Rightarrow> real) \<Rightarrow> bool" where
  "rounds rnd \<longleftrightarrow> mono rnd \<and> rnd 0 = 0 \<and> rnd 1 = 1"

definition sure_draws :: "(real \<Rightarrow> 'e \<Rightarrow> bool \<times> 'e) \<Rightarrow> bool" where
  "sure_draws draw \<longleftrightarrow> (\<forall>e. \<not> fst (draw 0 e) \<and> fst (draw 1 e))"

text \<open>Whatever percentage is given, the parameter of the distribution is a probability, as its constructor requires; and any
  sequence of calls from the first one on gives false for every percentage up to 0 and true for every percentage from 100 on.\<close>

theorem bernoulli_bounds:
  assumes "rounds rnd"
  shows "0 \<le> bernoulli_param rnd x \<and> bernoulli_param rnd x \<le> 1"
proof -
  have "0 \<le> clamp x 0 100 / 100 \<and> clamp x 0 100 / 100 \<le> (1 :: real)" by (simp add: clamp_def)
  then have "rnd 0 \<le> bernoulli_param rnd x \<and> bernoulli_param rnd x \<le> rnd 1"
    using assms unfolding rounds_def bernoulli_param_def by (blast dest: monoD)
  then show ?thesis using assms by (simp add: rounds_def)
qed

theorem bernoulli_sure:
  assumes "rounds rnd" "sure_draws draw"
  shows "list_all2 (\<lambda>x b. (x \<le> 0 \<longrightarrow> \<not> b) \<and> (100 \<le> x \<longrightarrow> b)) xs (fst (random_bernoullis rnd draw fresh xs st))"
proof (induction xs arbitrary: st)
  case (Cons x xs)
  let ?r = "random_bernoulli rnd draw fresh x st"
  have "x \<le> 0 \<Longrightarrow> bernoulli_param rnd x = 0" "100 \<le> x \<Longrightarrow> bernoulli_param rnd x = 1"
    using assms(1) by (auto simp: bernoulli_param_def clamp_def rounds_def)
  then have "(x \<le> 0 \<longrightarrow> \<not> fst ?r) \<and> (100 \<le> x \<longrightarrow> fst ?r)"
    using assms(2) by (auto simp: random_bernoulli_def sure_draws_def split_beta)
  with Cons.IH [of "snd ?r"] show ?case by (simp add: split_beta)
qed simp

theorem bernoulli_bounds_witness: "0 \<le> bernoulli_param (\<lambda>x. x) 250 \<and> bernoulli_param (\<lambda>x. x) 250 \<le> 1"
  by (rule bernoulli_bounds) (simp add: rounds_def mono_def)

text \<open>A generator that counts; the outcome is true when the number is below the parameter.\<close>

definition count_draw :: "real \<Rightarrow> nat \<Rightarrow> bool \<times> nat" where
  "count_draw p n = (real (n mod 10) / 10 < p, n + 1)"

theorem bernoulli_sure_witness:
  "list_all2 (\<lambda>x b. (x \<le> 0 \<longrightarrow> \<not> b) \<and> (100 \<le> x \<longrightarrow> b)) [- 5, 0, 50, 100, 200 :: real]
     (fst (random_bernoullis (\<lambda>x. x) count_draw 0 [- 5, 0, 50, 100, 200] None))"
proof (rule bernoulli_sure)
  show "rounds (\<lambda>x. x)" by (simp add: rounds_def mono_def)
  have "real (e mod 10) < 10" for e by simp
  then show "sure_draws count_draw" by (simp add: sure_draws_def count_draw_def not_less)
qed

end
