(* ===== verification/Cqy_Shared.thy ===== *)
theory Cqy_Shared
  imports Cqy_Ctx_Mgr "HOL-Library.Sublist"
begin

text \<open>
  Readers and writers: \<open>std::shared_mutex\<close> as the registry uses it (\<open>std::shared_lock\<close> and \<open>std::lock_guard\<close> in
  \<open>src/cqy_ctx_mgr.cpp\<close>), and \<open>shared_mutex_type\<close> of \<open>include/cqy_utils.h\<close>, which couples such a mutex with the data it guards. Threads
  work on the data in separate steps: take the lock, read the data, write it back, release the lock. \<open>new_id\<close> uses an atomic counter and no lock.
  The result is that the operations of the registry may be taken as atomic, which the other theories do.
\<close>

section \<open>Model\<close>

text \<open>The mutex: the thread that has it exclusively, and those that share it. \<open>None\<close>: the caller waits.\<close>

record shared_mutex =
  sm_writer :: "nat option"
  sm_readers :: "nat list"

definition sm_lock :: "nat \<Rightarrow> shared_mutex \<Rightarrow> shared_mutex option" where
  "sm_lock i m = (if sm_writer m = None \<and> sm_readers m = [] then Some (m\<lparr>sm_writer := Some i\<rparr>) else None)"

definition sm_unlock :: "shared_mutex \<Rightarrow> shared_mutex" where
  "sm_unlock m = m\<lparr>sm_writer := None\<rparr>"

definition sm_lock_shared :: "nat \<Rightarrow> shared_mutex \<Rightarrow> shared_mutex option" where
  "sm_lock_shared i m = (if sm_writer m = None then Some (m\<lparr>sm_readers := i # sm_readers m\<rparr>) else None)"

definition sm_unlock_shared :: "nat \<Rightarrow> shared_mutex \<Rightarrow> shared_mutex" where
  "sm_unlock_shared i m = m\<lparr>sm_readers := remove1 i (sm_readers m)\<rparr>"

record 'd shared_mutex_type =
  smux :: shared_mutex
  data :: 'd

definition shared_new :: "'d \<Rightarrow> 'd shared_mutex_type" where
  "shared_new d = \<lparr>smux = \<lparr>sm_writer = None, sm_readers = []\<rparr>, data = d\<rparr>"

text \<open>\<open>write()\<close> and \<open>read()\<close> make a guard, whose constructor takes the lock; the destructors of the guards release it.\<close>

definition write_guard :: "nat \<Rightarrow> 'd shared_mutex_type \<Rightarrow> 'd shared_mutex_type option" where
  "write_guard i x = map_option (\<lambda>m. x\<lparr>smux := m\<rparr>) (sm_lock i (smux x))"

definition read_guard :: "nat \<Rightarrow> 'd shared_mutex_type \<Rightarrow> 'd shared_mutex_type option" where
  "read_guard i x = map_option (\<lambda>m. x\<lparr>smux := m\<rparr>) (sm_lock_shared i (smux x))"

definition write_release :: "'d shared_mutex_type \<Rightarrow> 'd shared_mutex_type" where
  "write_release x = x\<lparr>smux := sm_unlock (smux x)\<rparr>"

definition read_release :: "nat \<Rightarrow> 'd shared_mutex_type \<Rightarrow> 'd shared_mutex_type" where
  "read_release i x = x\<lparr>smux := sm_unlock_shared i (smux x)\<rparr>"

section \<open>Threads\<close>

text \<open>Each thread makes the calls of its program one after the other. A call uses an atomic variable, or the data under a shared or under an
  exclusive lock; \<open>run\<close> says what a call does to the data, \<open>arun\<close> what it does to the atomic variable. The log has the calls in the order in
  which they took effect.\<close>

datatype access = Acc_atomic | Acc_read | Acc_write

datatype 'd rw_pc = Rw_idle | Rw_locked | Rw_loaded 'd | Rw_done

record ('c, 'd, 'a, 'o) rw_sys =
  rw_obj :: "'d shared_mutex_type"
  rw_atomic :: 'a
  rw_pc :: "nat \<Rightarrow> 'd rw_pc"
  rw_prog :: "nat \<Rightarrow> 'c list"
  rw_log :: "(nat \<times> 'c \<times> 'o) list"

definition rw_init :: "'d \<Rightarrow> 'a \<Rightarrow> (nat \<Rightarrow> 'c list) \<Rightarrow> ('c, 'd, 'a, 'o) rw_sys" where
  "rw_init d a prog = \<lparr>rw_obj = shared_new d, rw_atomic = a, rw_pc = (\<lambda>_. Rw_idle), rw_prog = prog, rw_log = []\<rparr>"

definition rw_step ::
  "('c \<Rightarrow> access) \<Rightarrow> ('c \<Rightarrow> 'd \<Rightarrow> 'o \<times> 'd) \<Rightarrow> ('c \<Rightarrow> 'a \<Rightarrow> 'o \<times> 'a) \<Rightarrow> nat \<Rightarrow> ('c, 'd, 'a, 'o) rw_sys \<Rightarrow> ('c, 'd, 'a, 'o) rw_sys option"
where
  "rw_step acc run arun i s =
     (case rw_prog s i of
        [] \<Rightarrow> None
      | c # cs \<Rightarrow>
          (case rw_pc s i of
             Rw_idle \<Rightarrow>
               (case acc c of
                  Acc_atomic \<Rightarrow>
                    (case arun c (rw_atomic s) of
                       (x, a) \<Rightarrow> Some (s\<lparr>rw_atomic := a, rw_prog := (rw_prog s)(i := cs), rw_log := rw_log s @ [(i, c, x)]\<rparr>))
                | Acc_read \<Rightarrow> map_option (\<lambda>ob. s\<lparr>rw_obj := ob, rw_pc := (rw_pc s)(i := Rw_locked)\<rparr>) (read_guard i (rw_obj s))
                | Acc_write \<Rightarrow> map_option (\<lambda>ob. s\<lparr>rw_obj := ob, rw_pc := (rw_pc s)(i := Rw_locked)\<rparr>) (write_guard i (rw_obj s)))
           | Rw_locked \<Rightarrow> Some (s\<lparr>rw_pc := (rw_pc s)(i := Rw_loaded (data (rw_obj s)))\<rparr>)
           | Rw_loaded d \<Rightarrow>
               (case run c d of
                  (x, d') \<Rightarrow>
                    Some (s\<lparr>rw_obj := (if acc c = Acc_write then (rw_obj s)\<lparr>data := d'\<rparr> else rw_obj s),
                            rw_pc := (rw_pc s)(i := Rw_done), rw_log := rw_log s @ [(i, c, x)]\<rparr>))
           | Rw_done \<Rightarrow>
               Some (s\<lparr>rw_obj := (if acc c = Acc_write then write_release (rw_obj s) else read_release i (rw_obj s)),
                       rw_pc := (rw_pc s)(i := Rw_idle), rw_prog := (rw_prog s)(i := cs)\<rparr>)))"

text \<open>A schedule; a thread that cannot go on waits.\<close>

definition rw_exec ::
  "('c \<Rightarrow> access) \<Rightarrow> ('c \<Rightarrow> 'd \<Rightarrow> 'o \<times> 'd) \<Rightarrow> ('c \<Rightarrow> 'a \<Rightarrow> 'o \<times> 'a) \<Rightarrow> nat list \<Rightarrow> ('c, 'd, 'a, 'o) rw_sys \<Rightarrow> ('c, 'd, 'a, 'o) rw_sys"
where
  "rw_exec acc run arun = fold (\<lambda>i s. case rw_step acc run arun i s of None \<Rightarrow> s | Some s' \<Rightarrow> s')"

text \<open>The same calls one after the other.\<close>

fun serial ::
  "('c \<Rightarrow> access) \<Rightarrow> ('c \<Rightarrow> 'd \<Rightarrow> 'o \<times> 'd) \<Rightarrow> ('c \<Rightarrow> 'a \<Rightarrow> 'o \<times> 'a) \<Rightarrow> 'c list \<Rightarrow> 'd \<times> 'a \<Rightarrow> 'o list \<times> 'd \<times> 'a"
where
  "serial acc run arun [] (d, a) = ([], d, a)"
| "serial acc run arun (c # cs) (d, a) =
     (case (if acc c = Acc_atomic then (case arun c a of (x, a') \<Rightarrow> (x, d, a')) else (case run c d of (x, d') \<Rightarrow> (x, d', a))) of
        (x, da) \<Rightarrow> (case serial acc run arun cs da of (xs, r) \<Rightarrow> (x # xs, r)))"

section \<open>Exclusion\<close>

text \<open>What a thread holds.\<close>

definition holds :: "('c \<Rightarrow> access) \<Rightarrow> ('c, 'd, 'a, 'o) rw_sys \<Rightarrow> nat \<Rightarrow> access option" where
  "holds acc s i = (case (rw_pc s i, rw_prog s i) of (Rw_idle, _) \<Rightarrow> None | (_, []) \<Rightarrow> Some Acc_atomic | (_, c # _) \<Rightarrow> Some (acc c))"

text \<open>The mutex knows what the threads hold, and a writer is alone.\<close>

definition lock_ok :: "(nat \<Rightarrow> access option) \<Rightarrow> shared_mutex \<Rightarrow> bool" where
  "lock_ok h m \<longleftrightarrow>
     (\<forall>i. sm_writer m = Some i \<longleftrightarrow> h i = Some Acc_write) \<and> (\<forall>i. i \<in> set (sm_readers m) \<longleftrightarrow> h i = Some Acc_read) \<and>
     distinct (sm_readers m) \<and> (sm_writer m \<noteq> None \<longrightarrow> sm_readers m = []) \<and> (\<forall>i. h i \<noteq> Some Acc_atomic)"

lemma lock_ok_lock: "lock_ok h m \<Longrightarrow> sm_lock i m = Some m' \<Longrightarrow> lock_ok (h(i := Some Acc_write)) m'"
  by (auto simp: lock_ok_def sm_lock_def split: if_splits)

lemma lock_ok_unlock: "lock_ok h m \<Longrightarrow> h i = Some Acc_write \<Longrightarrow> lock_ok (h(i := None)) (sm_unlock m)"
  by (auto simp: lock_ok_def sm_unlock_def) (metis option.inject)+

lemma lock_ok_lock_shared:
  "lock_ok h m \<Longrightarrow> h i = None \<Longrightarrow> sm_lock_shared i m = Some m' \<Longrightarrow> lock_ok (h(i := Some Acc_read)) m'"
  by (auto simp: lock_ok_def sm_lock_shared_def split: if_splits)

lemma lock_ok_unlock_shared: "lock_ok h m \<Longrightarrow> h i = Some Acc_read \<Longrightarrow> lock_ok (h(i := None)) (sm_unlock_shared i m)"
  by (auto simp: lock_ok_def sm_unlock_shared_def)

section \<open>Calls take effect one after the other\<close>

definition log_calls :: "(nat \<times> 'c \<times> 'o) list \<Rightarrow> 'c list" where
  "log_calls l = map (fst \<circ> snd) l"

definition log_results :: "(nat \<times> 'c \<times> 'o) list \<Rightarrow> 'o list" where
  "log_results l = map (snd \<circ> snd) l"

definition calls_of :: "nat \<Rightarrow> (nat \<times> 'c \<times> 'o) list \<Rightarrow> 'c list" where
  "calls_of i l = log_calls (filter (\<lambda>e. fst e = i) l)"

lemma log_snoc [simp]:
  "log_calls (l @ [(i, c, x)]) = log_calls l @ [c]" "log_results (l @ [(i, c, x)]) = log_results l @ [x]"
  "calls_of j (l @ [(i, c, x)]) = calls_of j l @ (if i = j then [c] else [])"
  by (simp_all add: log_calls_def log_results_def calls_of_def)

text \<open>What a thread still has to do.\<close>

definition todo :: "('c, 'd, 'a, 'o) rw_sys \<Rightarrow> nat \<Rightarrow> 'c list" where
  "todo s i = (if rw_pc s i = Rw_done then tl (rw_prog s i) else rw_prog s i)"

lemma serial_snoc:
  "serial acc run arun (cs @ [c]) da =
     (case serial acc run arun cs da of
        (xs, d, a) \<Rightarrow>
          if acc c = Acc_atomic then (xs @ [fst (arun c a)], d, snd (arun c a)) else (xs @ [fst (run c d)], snd (run c d), a))"
  by (induction acc run arun cs da rule: serial.induct) (auto split: prod.splits)

locale shared_object =
  fixes acc :: "'c \<Rightarrow> access"
    and run :: "'c \<Rightarrow> 'd \<Rightarrow> 'o \<times> 'd"
    and arun :: "'c \<Rightarrow> 'a \<Rightarrow> 'o \<times> 'a"
  assumes read_only: "acc c = Acc_read \<Longrightarrow> snd (run c d) = d"
begin

definition rw_inv :: "'d \<Rightarrow> 'a \<Rightarrow> (nat \<Rightarrow> 'c list) \<Rightarrow> ('c, 'd, 'a, 'o) rw_sys \<Rightarrow> bool" where
  "rw_inv d0 a0 prog s \<longleftrightarrow>
     lock_ok (holds acc s) (smux (rw_obj s)) \<and> (\<forall>i d. rw_pc s i = Rw_loaded d \<longrightarrow> d = data (rw_obj s)) \<and>
     serial acc run arun (log_calls (rw_log s)) (d0, a0) = (log_results (rw_log s), data (rw_obj s), rw_atomic s) \<and>
     (\<forall>i. calls_of i (rw_log s) @ todo s i = prog i)"

lemma rw_inv_init: "rw_inv d a prog (rw_init d a prog)"
  by (simp add: rw_inv_def rw_init_def shared_new_def lock_ok_def holds_def todo_def log_calls_def log_results_def calls_of_def)

text \<open>Nobody else is inside while a writer is.\<close>

lemma writer_alone:
  assumes "lock_ok (holds acc s) m" "holds acc s i = Some Acc_write" "rw_pc s j = Rw_loaded d"
  shows "j = i"
proof -
  have "sm_writer m = Some i" "sm_readers m = []" using assms(1,2) by (auto simp: lock_ok_def)
  moreover have "holds acc s j \<noteq> None" using assms(3) by (simp add: holds_def split: list.split)
  then have "holds acc s j = Some Acc_write \<or> holds acc s j = Some Acc_read"
    using assms(1) by (metis access.exhaust lock_ok_def not_Some_eq)
  ultimately show ?thesis
    using assms(1) by (auto simp: lock_ok_def)
qed

lemma holds_upd:
  assumes "\<And>j. j \<noteq> i \<Longrightarrow> rw_pc s' j = rw_pc s j \<and> rw_prog s' j = rw_prog s j"
  shows "holds acc s' = (holds acc s)(i := holds acc s' i)"
proof
  fix j
  show "holds acc s' j = ((holds acc s)(i := holds acc s' i)) j"
    using assms [of j] by (cases "j = i") (simp_all add: holds_def)
qed

lemma step_idle:
  assumes "rw_inv d0 a0 prog s" "rw_step acc run arun i s = Some s'" "rw_prog s i = c # cs" "rw_pc s i = Rw_idle"
  shows "rw_inv d0 a0 prog s'"
proof -
  have ok: "lock_ok (holds acc s) (smux (rw_obj s))" using assms(1) by (simp add: rw_inv_def)
  have none: "holds acc s i = None" using assms(4) by (simp add: holds_def)
  have locked: "rw_inv d0 a0 prog (s\<lparr>rw_obj := (rw_obj s)\<lparr>smux := m\<rparr>, rw_pc := (rw_pc s)(i := Rw_locked)\<rparr>)"
    (is "rw_inv d0 a0 prog ?s") if "lock_ok ((holds acc s)(i := Some (acc c))) m" for m
  proof -
    have "holds acc ?s = (holds acc s)(i := Some (acc c))"
      using holds_upd [of i ?s s] assms(3) by (simp add: holds_def)
    moreover have "todo ?s j = todo s j" for j
      using assms(4) by (simp add: todo_def)
    ultimately show ?thesis
      using that assms(1) by (auto simp: rw_inv_def split: if_splits)
  qed
  show ?thesis
  proof (cases "acc c")
    case Acc_atomic
    define x a where "x = fst (arun c (rw_atomic s))" and "a = snd (arun c (rw_atomic s))"
    have s': "s' = s\<lparr>rw_atomic := a, rw_prog := (rw_prog s)(i := cs), rw_log := rw_log s @ [(i, c, x)]\<rparr>"
      using assms(2-4) Acc_atomic by (simp add: rw_step_def x_def a_def split: prod.splits)
    have "holds acc s' = holds acc s"
      using holds_upd [of i s' s] s' assms(4) none by (simp add: holds_def fun_upd_idem)
    moreover have "calls_of j (rw_log s') @ todo s' j = calls_of j (rw_log s) @ todo s j" for j
      using s' assms(3,4) by (simp add: todo_def)
    ultimately show ?thesis
      using s' assms(1) Acc_atomic by (simp add: rw_inv_def serial_snoc x_def a_def)
  next
    case Acc_read
    then obtain m where "sm_lock_shared i (smux (rw_obj s)) = Some m"
      "s' = s\<lparr>rw_obj := (rw_obj s)\<lparr>smux := m\<rparr>, rw_pc := (rw_pc s)(i := Rw_locked)\<rparr>"
      using assms(2-4) by (auto simp: rw_step_def read_guard_def)
    with locked lock_ok_lock_shared [OF ok none] Acc_read show ?thesis by simp
  next
    case Acc_write
    then obtain m where "sm_lock i (smux (rw_obj s)) = Some m"
      "s' = s\<lparr>rw_obj := (rw_obj s)\<lparr>smux := m\<rparr>, rw_pc := (rw_pc s)(i := Rw_locked)\<rparr>"
      using assms(2-4) by (auto simp: rw_step_def write_guard_def)
    with locked lock_ok_lock [OF ok] Acc_write show ?thesis by simp
  qed
qed

lemma step_loaded:
  assumes "rw_inv d0 a0 prog s" "rw_step acc run arun i s = Some s'" "rw_prog s i = c # cs" "rw_pc s i = Rw_loaded d"
  shows "rw_inv d0 a0 prog s'"
proof -
  have ok: "lock_ok (holds acc s) (smux (rw_obj s))" and d: "d = data (rw_obj s)" using assms(1,4) by (simp_all add: rw_inv_def)
  have s': "s' = s\<lparr>rw_obj := (if acc c = Acc_write then (rw_obj s)\<lparr>data := snd (run c d)\<rparr> else rw_obj s),
      rw_pc := (rw_pc s)(i := Rw_done), rw_log := rw_log s @ [(i, c, fst (run c d))]\<rparr>"
    using assms(2-4) by (auto simp: rw_step_def split: prod.splits)
  have h: "holds acc s i = Some (acc c)" using assms(3,4) by (simp add: holds_def)
  have h': "holds acc s' = holds acc s"
    using holds_upd [of i s' s] s' assms(3) h by (simp add: holds_def fun_upd_idem)
  have "acc c \<noteq> Acc_atomic" using ok h by (auto simp: lock_ok_def)
  then have data: "data (rw_obj s') = snd (run c d)" "acc c \<noteq> Acc_atomic"
    using s' d read_only [of c d] by (cases "acc c"; simp)+
  have "d' = data (rw_obj s')" if "rw_pc s' j = Rw_loaded d'" for j d'
  proof (cases "acc c")
    case Acc_write
    with writer_alone [OF ok, of i j d'] that h s' show ?thesis by (auto split: if_splits)
  qed (use that s' assms(1) data(2) in \<open>auto simp: rw_inv_def split: if_splits\<close>)
  moreover have "smux (rw_obj s') = smux (rw_obj s)" using s' by simp
  moreover have "calls_of j (rw_log s') @ todo s' j = calls_of j (rw_log s) @ todo s j" for j
    using s' assms(3,4) by (simp add: todo_def)
  ultimately show ?thesis
    using assms(1) s' h' data d by (simp add: rw_inv_def serial_snoc)
qed

lemma step_done:
  assumes "rw_inv d0 a0 prog s" "rw_step acc run arun i s = Some s'" "rw_prog s i = c # cs" "rw_pc s i = Rw_done"
  shows "rw_inv d0 a0 prog s'"
proof -
  have ok: "lock_ok (holds acc s) (smux (rw_obj s))" using assms(1) by (simp add: rw_inv_def)
  have s': "s' = s\<lparr>rw_obj := (if acc c = Acc_write then write_release (rw_obj s) else read_release i (rw_obj s)),
      rw_pc := (rw_pc s)(i := Rw_idle), rw_prog := (rw_prog s)(i := cs)\<rparr>"
    using assms(2-4) by (simp add: rw_step_def)
  have h: "holds acc s i = Some (acc c)" using assms(3,4) by (simp add: holds_def)
  have "holds acc s' = (holds acc s)(i := None)" using holds_upd [of i s' s] s' by (simp add: holds_def)
  moreover have "acc c = Acc_write \<or> acc c = Acc_read" using ok h by (cases "acc c") (auto simp: lock_ok_def)
  then have "lock_ok ((holds acc s)(i := None)) (smux (rw_obj s'))" "data (rw_obj s') = data (rw_obj s)"
    using lock_ok_unlock [OF ok, of i] lock_ok_unlock_shared [OF ok, of i] h s'
    by (auto simp: write_release_def read_release_def)
  moreover have "todo s' j = todo s j" for j
    using s' assms(3,4) by (simp add: todo_def)
  ultimately show ?thesis
    using assms(1) s' by (auto simp: rw_inv_def split: if_splits)
qed

lemma rw_inv_step:
  assumes "rw_inv d0 a0 prog s" "rw_step acc run arun i s = Some s'"
  shows "rw_inv d0 a0 prog s'"
proof -
  obtain c cs where prog: "rw_prog s i = c # cs" using assms(2) by (auto simp: rw_step_def split: list.splits)
  show ?thesis
  proof (cases "rw_pc s i")
    case Rw_locked
    then have s': "s' = s\<lparr>rw_pc := (rw_pc s)(i := Rw_loaded (data (rw_obj s)))\<rparr>"
      using assms(2) prog by (simp add: rw_step_def)
    then have "holds acc s' = holds acc s"
      using holds_upd [of i s' s] Rw_locked prog by (simp add: holds_def fun_upd_idem)
    moreover have "todo s' j = todo s j" for j
      using s' Rw_locked by (simp add: todo_def)
    ultimately show ?thesis
      using s' assms(1) by (auto simp: rw_inv_def split: if_splits)
  qed (rule step_idle [OF assms prog] step_loaded [OF assms prog] step_done [OF assms prog]; assumption)+
qed

text \<open>No deadlock: as long as a thread has something left to do, some thread can go on.\<close>

lemma holder_steps: "rw_prog s i \<noteq> [] \<Longrightarrow> rw_pc s i \<noteq> Rw_idle \<Longrightarrow> rw_step acc run arun i s \<noteq> None"
  by (auto simp: rw_step_def split: list.split rw_pc.split prod.split)

lemma idle_steps:
  "rw_prog s i \<noteq> [] \<Longrightarrow> sm_writer (smux (rw_obj s)) = None \<Longrightarrow> sm_readers (smux (rw_obj s)) = [] \<Longrightarrow> rw_step acc run arun i s \<noteq> None"
  by (auto simp: rw_step_def write_guard_def read_guard_def sm_lock_def sm_lock_shared_def split: list.split rw_pc.split prod.split access.split)

lemma someone_steps:
  assumes "rw_inv d0 a0 prog s" "rw_prog s i \<noteq> []"
  shows "\<exists>j. rw_step acc run arun j s \<noteq> None"
proof (cases "\<exists>j. holds acc s j \<noteq> None")
  case True
  then obtain j where "holds acc s j \<noteq> None" by blast
  moreover from this have "rw_prog s j \<noteq> []"
    using assms(1) by (auto simp: rw_inv_def lock_ok_def holds_def split: rw_pc.splits list.splits)
  ultimately show ?thesis
    using holder_steps [of s j] by (auto simp: holds_def split: rw_pc.splits)
next
  case False
  then have "sm_writer (smux (rw_obj s)) = None" "sm_readers (smux (rw_obj s)) = []"
    using assms(1) by (auto simp: rw_inv_def lock_ok_def)
  with idle_steps [OF assms(2)] show ?thesis by blast
qed

end

sublocale shared_object \<subseteq> threads: waiting_steps "rw_step acc run arun" "rw_inv d0 a0 prog" for d0 a0 prog
  by unfold_locales (rule rw_inv_step)

context shared_object begin

lemma rw_inv_exec: "rw_inv d0 a0 prog s \<Longrightarrow> rw_inv d0 a0 prog (rw_exec acc run arun sched s)"
  using threads.total.inv_fold [of d0 a0 prog s sched] by (simp add: rw_exec_def threads.step_or_wait_def [abs_def])

end

section \<open>The registry\<close>

text \<open>The data under the lock are the contexts and the names; the counter is atomic. \<open>get_ctx\<close> and \<open>find_name\<close> take a shared lock,
  the others an exclusive one.\<close>

fun mgr_access :: "'c mgr_call \<Rightarrow> access" where
  "mgr_access (Do Op_new_id) = Acc_atomic"
| "mgr_access (Do _) = Acc_write"
| "mgr_access (Find_name _) = Acc_read"
| "mgr_access (Get_ctx _) = Acc_read"

definition mgr_of :: "u32 \<Rightarrow> (u32 \<times> 'c) list \<times> cqy_name_id_t list \<Rightarrow> 'c cqy_ctx_mgr_t" where
  "mgr_of a d = \<lparr>allocid = a, ctxs = fst d, names = snd d\<rparr>"

definition mgr_locked ::
  "'c mgr_call \<Rightarrow> (u32 \<times> 'c) list \<times> cqy_name_id_t list \<Rightarrow> 'c mgr_out \<times> (u32 \<times> 'c) list \<times> cqy_name_id_t list" where
  "mgr_locked c d = (case mgr_do c (mgr_of 0 d) of (x, m) \<Rightarrow> (x, ctxs m, names m))"

definition mgr_atomic :: "'c mgr_call \<Rightarrow> u32 \<Rightarrow> 'c mgr_out \<times> u32" where
  "mgr_atomic c a = (case mgr_do c (mgr_of a ([], [])) of (x, m) \<Rightarrow> (x, allocid m))"

lemma mgr_do_parts:
  "mgr_do c (mgr_of a d) =
     (if mgr_access c = Acc_atomic then (fst (mgr_atomic c a), mgr_of (snd (mgr_atomic c a)) d)
      else (fst (mgr_locked c d), mgr_of a (snd (mgr_locked c d))))"
  by (cases c rule: mgr_access.cases)
    (auto simp: mgr_atomic_def mgr_locked_def mgr_of_def new_id_def add_ctx_def del_ctx_def register_name_def find_name_def get_ctx_def
      Let_def split: option.split)

interpretation reg: shared_object mgr_access mgr_locked mgr_atomic
proof
  fix c :: "'a mgr_call" and d
  show "mgr_access c = Acc_read \<Longrightarrow> snd (mgr_locked c d) = d"
    by (cases c rule: mgr_access.cases) (simp_all add: mgr_locked_def mgr_of_def)
qed

lemma serial_is_mgr_run: "fst (serial mgr_access mgr_locked mgr_atomic cs (d, a)) = mgr_run cs (mgr_of a d)"
proof (induction cs arbitrary: d a)
  case (Cons c cs)
  show ?case
    using Cons.IH [of d "snd (mgr_atomic c a)"] Cons.IH [of "snd (mgr_locked c d)" a]
    by (auto simp: mgr_do_parts split: prod.splits)
qed simp

text \<open>C11. The registry under concurrency: any number of threads use it, each running its own program of calls, in steps that interleave freely inside
  their critical sections. Whatever the schedule, the results are those that two maps and a counter give when the calls are made one after the
  other in the order in which they took effect; that order keeps the order of the calls of each thread; and as long as a thread has calls left, some
  thread can go on.\<close>

theorem registry_linearizable:
  "\<exists>s. s = rw_exec mgr_access mgr_locked mgr_atomic sched (rw_init ([], []) 0 prog) \<and>
     log_results (rw_log s) = spec_run (log_calls (rw_log s)) \<lparr>rg_alloc = 0, rg_ctxs = Map.empty, rg_names = Map.empty\<rparr> \<and>
     (\<forall>i. prefix (calls_of i (rw_log s)) (prog i)) \<and>
     ((\<exists>i. rw_prog s i \<noteq> []) = (\<exists>j. rw_step mgr_access mgr_locked mgr_atomic j s \<noteq> None))"
proof -
  define s where "s = rw_exec mgr_access mgr_locked mgr_atomic sched (rw_init ([], []) 0 prog)"
  have inv: "reg.rw_inv ([], []) 0 prog s"
    unfolding s_def by (rule reg.rw_inv_exec [OF reg.rw_inv_init])
  have "log_results (rw_log s) = mgr_run (log_calls (rw_log s)) (mgr_of 0 ([], []))"
    using inv serial_is_mgr_run [of "log_calls (rw_log s)" "([], [])" 0] by (simp add: reg.rw_inv_def)
  also have "\<dots> = spec_run (log_calls (rw_log s)) \<lparr>rg_alloc = 0, rg_ctxs = Map.empty, rg_names = Map.empty\<rparr>"
    using mgr_run_refines [of "mgr_of 0 ([], [])"] by (simp add: mgr_of_def mgr_abs_def mgr_inv_def get_ctx_def [abs_def] names_of_def)
  finally have "log_results (rw_log s) = spec_run (log_calls (rw_log s)) \<lparr>rg_alloc = 0, rg_ctxs = Map.empty, rg_names = Map.empty\<rparr>" .
  moreover have "prefix (calls_of i (rw_log s)) (prog i)" for i
    using inv by (auto simp: reg.rw_inv_def intro: prefixI [OF sym])
  moreover have "(\<exists>i. rw_prog s i \<noteq> []) = (\<exists>j. rw_step mgr_access mgr_locked mgr_atomic j s \<noteq> None)"
  proof
    assume "\<exists>j. rw_step mgr_access mgr_locked mgr_atomic j s \<noteq> None"
    then show "\<exists>i. rw_prog s i \<noteq> []" by (auto simp: rw_step_def split: list.splits)
  qed (use reg.someone_steps [OF inv] in blast)
  ultimately show ?thesis using s_def by blast
qed

end
