(* ===== verification/Game_Msg.thy ===== *)
theory Game_Msg
  imports Cqy_Prelude "HOL-Library.Countable"
begin

text \<open>
  \<open>example/msg_define.h\<close>: the packets between the game demo and its clients and the codec
  \<open>msg_code_t\<close>. A packet is a struct with a \<open>MSGPACK_DEFINE\<close>, which makes it a msgpack array of its members in
  that order; enums travel as integers. The bytes are the work of the msgpack library: \<open>enc\<close> turns an object
  into data and \<open>dec\<close> reads it back, both are arguments. A float is its bit pattern: the program
  only copies floats. A member without initializer that the packet does not carry is indeterminate, and
  reading it is \<open>Bad_Access\<close>.
\<close>

section \<open>Enums\<close>

datatype MsgId =
    MsgId_Invalid_0 | Id_Login | Id_Move | Id_AddRoleRet | Id_NotifyPos | Id_Say | Id_EnterScene | Id_EnterSingleScene
  | Id_LeaveSpace | Id_EntityDes | Id_PlotDialogue | Id_PlotEnd | Id_MsgOnlie | Id_FromGame | Id_FromWorld
  | Id_BuildingCenter | Id_PlaySound

definition msg_id :: "MsgId \<Rightarrow> u32" where
  "msg_id i =
     (case i of
        MsgId_Invalid_0 \<Rightarrow> 0 | Id_Login \<Rightarrow> 1 | Id_Move \<Rightarrow> 2 | Id_AddRoleRet \<Rightarrow> 3 | Id_NotifyPos \<Rightarrow> 4 | Id_Say \<Rightarrow> 6
      | Id_EnterScene \<Rightarrow> 23 | Id_EnterSingleScene \<Rightarrow> 24 | Id_LeaveSpace \<Rightarrow> 26 | Id_EntityDes \<Rightarrow> 27
      | Id_PlotDialogue \<Rightarrow> 38 | Id_PlotEnd \<Rightarrow> 39 | Id_MsgOnlie \<Rightarrow> 40 | Id_FromGame \<Rightarrow> 41 | Id_FromWorld \<Rightarrow> 42
      | Id_BuildingCenter \<Rightarrow> 43 | Id_PlaySound \<Rightarrow> 44)"

datatype ObjectType = Object_Invalid_0 | Effect | ViewWindow

definition object_type :: "ObjectType \<Rightarrow> u32" where
  "object_type t = (case t of Object_Invalid_0 \<Rightarrow> 0 | Effect \<Rightarrow> 1 | ViewWindow \<Rightarrow> 2)"

datatype SceneID =
    SingleScene_MIN | TrainScene | DefendScene | AttackScene | SingleScnen_MAX
  | MultiScene_MIN | SquareScene | MultiScene_MAX | MultiOnlineScene

definition scene_id :: "SceneID \<Rightarrow> u32" where
  "scene_id s =
     (case s of
        SingleScene_MIN \<Rightarrow> 0 | TrainScene \<Rightarrow> 1 | DefendScene \<Rightarrow> 2 | AttackScene \<Rightarrow> 3 | SingleScnen_MAX \<Rightarrow> 4
      | MultiScene_MIN \<Rightarrow> 100 | SquareScene \<Rightarrow> 101 | MultiScene_MAX \<Rightarrow> 200 | MultiOnlineScene \<Rightarrow> 201)"

datatype SayChannel = SYSTEM | CHAT | TASK_TIP

definition say_channel :: "SayChannel \<Rightarrow> u32" where
  "say_channel c = (case c of SYSTEM \<Rightarrow> 0 | CHAT \<Rightarrow> 1 | TASK_TIP \<Rightarrow> 2)"

datatype login_error = Login_Ok | Login_Busy | Login_PwdErr | Login_NameErr | Login_VerionErr

definition login_error_number :: "login_error \<Rightarrow> u32" where
  "login_error_number e =
     (case e of Login_Ok \<Rightarrow> 0 | Login_Busy \<Rightarrow> 1 | Login_PwdErr \<Rightarrow> 2 | Login_NameErr \<Rightarrow> 3 | Login_VerionErr \<Rightarrow> 4)"

section \<open>Structs\<close>

type_synonym f32 = u32

record MsgHead =
  hd_id :: u32
  hd_sn :: u32
  hd_rpcSnId :: u32

text \<open>\<open>MsgHead{.id = ...}\<close>\<close>

definition head_of :: "MsgId \<Rightarrow> MsgHead" where
  "head_of i = \<lparr>hd_id = msg_id i, hd_sn = 0, hd_rpcSnId = 0\<rparr>"

record MsgLogin =
  lg_head :: MsgHead
  lg_name :: string
  lg_pwd :: string
  lg_uVer :: u32

record MsgEnterSingleScene =
  es_head :: MsgHead
  es_id :: u32

record UnitConfig =
  strName :: string
  strPrefabName :: string
  strChooseSound :: string

record MsgAddRoleRet =
  ar_entitiId :: u64
  ar_nickName :: string
  ar_entityName :: string
  ar_prefabName :: string
  ar_i32HpMax :: int
  ar_type :: ObjectType

record MsgNotifyPos =
  np_entityId :: u64
  np_x :: f32
  np_z :: f32
  np_eulerAnglesY :: int
  np_hp :: int

record MsgPlotDialogue =
  leftAvatar :: string
  leftName :: string
  rightAvatar :: string
  rightName :: string
  dialogueText :: string
  showExitSceneButton :: bool

text \<open>The packets the game sends; each has the head of its \<open>MsgId\<close> with \<open>sn\<close> 0.\<close>

datatype game_ntf =
    MsgEnterSpace u32
  | Ntf_AddRoleRet MsgAddRoleRet
  | Ntf_NotifyPos MsgNotifyPos
  | MsgEntityDes u64 string
  | Ntf_PlotDialogue MsgPlotDialogue
  | MsgPlotEnd
  | MsgPlaySound string string
  | MsgSay string SayChannel

text \<open>The packets of gate and world, with the sequence number \<open>write_rsp\<close> gives them.\<close>

datatype client_msg =
    Login_rsp login_error string u32
  | From_world string u32
  | From_game string u32

record MsgOnline =
  u16count :: u16
  vecPlayerNickName :: "string list"

section \<open>Objects\<close>

datatype mp_obj =
    MP_nil
  | MP_bool bool
  | MP_int int
  | MP_str string
  | MP_f32 f32
  | MP_bin string
  | MP_array "mp_obj list"

text \<open>Objects can be written down: some \<open>enc\<close> and \<open>dec\<close> exist.\<close>

instance mp_obj :: countable
  by countable_datatype

definition enc_demo :: "mp_obj \<Rightarrow> string" where
  "enc_demo ob = replicate (to_nat ob) (CHR ''x'')"

definition dec_demo :: "string \<Rightarrow> mp_obj option" where
  "dec_demo s = Some (from_nat (length s))"

lemma dec_enc_demo: "dec_demo (enc_demo ob) = Some ob"
  by (simp add: dec_demo_def enc_demo_def)

definition pack_head :: "MsgHead \<Rightarrow> mp_obj" where
  "pack_head h = MP_array [MP_int (uint (hd_id h)), MP_int (uint (hd_sn h)), MP_int (uint (hd_rpcSnId h))]"

definition pack_login :: "MsgLogin \<Rightarrow> mp_obj" where
  "pack_login m = MP_array [pack_head (lg_head m), MP_str (lg_name m), MP_str (lg_pwd m), MP_int (uint (lg_uVer m))]"

definition pack_enter :: "MsgEnterSingleScene \<Rightarrow> mp_obj" where
  "pack_enter m = MP_array [pack_head (es_head m), MP_int (uint (es_id m))]"

definition pack_online :: "MsgOnline \<Rightarrow> mp_obj" where
  "pack_online m =
     MP_array [pack_head (head_of Id_MsgOnlie), MP_int (uint (u16count m)), MP_array (map MP_str (vecPlayerNickName m))]"

fun pack_ntf :: "game_ntf \<Rightarrow> mp_obj" where
  "pack_ntf (MsgEnterSpace i) = MP_array [pack_head (head_of Id_EnterScene), MP_int (uint i)]"
| "pack_ntf (Ntf_AddRoleRet m) =
     MP_array [pack_head (head_of Id_AddRoleRet), MP_int (uint (ar_entitiId m)), MP_str (ar_nickName m), MP_str (ar_entityName m),
       MP_str (ar_prefabName m), MP_int (ar_i32HpMax m), MP_int (uint (object_type (ar_type m)))]"
| "pack_ntf (Ntf_NotifyPos m) =
     MP_array [pack_head (head_of Id_NotifyPos), MP_int (uint (np_entityId m)), MP_f32 (np_x m), MP_f32 (np_z m),
       MP_int (np_eulerAnglesY m), MP_int (np_hp m)]"
| "pack_ntf (MsgEntityDes i s) = MP_array [pack_head (head_of Id_EntityDes), MP_int (uint i), MP_str s]"
| "pack_ntf (Ntf_PlotDialogue m) =
     MP_array [pack_head (head_of Id_PlotDialogue), MP_str (leftAvatar m), MP_str (leftName m), MP_str (rightAvatar m),
       MP_str (rightName m), MP_str (dialogueText m), MP_bool (showExitSceneButton m)]"
| "pack_ntf MsgPlotEnd = MP_array [pack_head (head_of Id_PlotEnd)]"
| "pack_ntf (MsgPlaySound s t) = MP_array [pack_head (head_of Id_PlaySound), MP_str s, MP_str t]"
| "pack_ntf (MsgSay s c) = MP_array [pack_head (head_of Id_Say), MP_str s, MP_int (uint (say_channel c))]"

fun pack_client :: "client_msg \<Rightarrow> mp_obj" where
  "pack_client (Login_rsp e tip sn) =
     MP_array [pack_head ((head_of Id_Login)\<lparr>hd_sn := sn\<rparr>), MP_int (uint (login_error_number e)), MP_str tip]"
| "pack_client (From_world s sn) = MP_array [pack_head ((head_of Id_FromWorld)\<lparr>hd_sn := sn\<rparr>), MP_bin s]"
| "pack_client (From_game s sn) = MP_array [pack_head ((head_of Id_FromGame)\<lparr>hd_sn := sn\<rparr>), MP_bin s]"

section \<open>Conversions\<close>

text \<open>What \<open>as<T>()\<close> of the library does: \<open>type_error\<close> on a value of another kind or out of range; a
  struct needs an array and reads as many members as it has.\<close>

definition type_error :: cpp_error where
  "type_error = Runtime_Error ''std::bad_cast''"

fun as_u32 :: "mp_obj \<Rightarrow> u32 result" where
  "as_u32 (MP_int i) = (if 0 \<le> i \<and> i < 2 ^ 32 then Inr (word_of_int i) else Inl type_error)"
| "as_u32 _ = Inl type_error"

fun as_str :: "mp_obj \<Rightarrow> string result" where
  "as_str (MP_str s) = Inr s"
| "as_str (MP_bin s) = Inr s"
| "as_str _ = Inl type_error"

fun as_array :: "mp_obj \<Rightarrow> mp_obj list result" where
  "as_array (MP_array xs) = Inr xs"
| "as_array _ = Inl type_error"

text \<open>The \<open>i\<close>-th member, converted by \<open>conv\<close>; \<open>dflt\<close> is its value when the array is too short,
  \<open>None\<close> for a member without initializer.\<close>

definition member :: "nat \<Rightarrow> (mp_obj \<Rightarrow> 'a result) \<Rightarrow> 'a option \<Rightarrow> mp_obj list \<Rightarrow> 'a result" where
  "member i conv dflt xs =
     (if i < length xs then conv (xs ! i)
      else case dflt of Some v \<Rightarrow> Inr v | None \<Rightarrow> Inl Bad_Access)"

definition as_head :: "mp_obj \<Rightarrow> MsgHead result" where
  "as_head ob =
     bind_result (as_array ob) (\<lambda>xs.
     bind_result (member 0 as_u32 None xs) (\<lambda>i.
     bind_result (member 1 as_u32 None xs) (\<lambda>sn.
     bind_result (member 2 as_u32 None xs) (\<lambda>r.
     Inr \<lparr>hd_id = i, hd_sn = sn, hd_rpcSnId = r\<rparr>))))"

definition as_login :: "mp_obj \<Rightarrow> MsgLogin result" where
  "as_login ob =
     bind_result (as_array ob) (\<lambda>xs.
     bind_result (member 0 as_head None xs) (\<lambda>h.
     bind_result (member 1 as_str (Some []) xs) (\<lambda>n.
     bind_result (member 2 as_str (Some []) xs) (\<lambda>p.
     bind_result (member 3 as_u32 None xs) (\<lambda>v.
     Inr \<lparr>lg_head = h, lg_name = n, lg_pwd = p, lg_uVer = v\<rparr>)))))"

definition as_enter :: "mp_obj \<Rightarrow> MsgEnterSingleScene result" where
  "as_enter ob =
     bind_result (as_array ob) (\<lambda>xs.
     bind_result (member 0 as_head (Some (head_of Id_EnterSingleScene)) xs) (\<lambda>h.
     bind_result (member 1 as_u32 None xs) (\<lambda>i.
     Inr \<lparr>es_head = h, es_id = i\<rparr>)))"

definition as_plot_end :: "mp_obj \<Rightarrow> MsgHead result" where
  "as_plot_end ob = bind_result (as_array ob) (\<lambda>xs. member 0 as_head (Some (head_of Id_PlotEnd)) xs)"

section \<open>The codec\<close>

text \<open>\<open>unpack\<close> throws when the library cannot read the data.\<close>

definition codec_unpack :: "('d \<Rightarrow> mp_obj option) \<Rightarrow> 'd \<Rightarrow> mp_obj result" where
  "codec_unpack dec data = (case dec data of Some ob \<Rightarrow> Inr ob | None \<Rightarrow> Inl (Runtime_Error ''msgpack''))"

text \<open>\<open>head()\<close> is value-initialized for anything that is not an array with a first element.\<close>

definition codec_head :: "mp_obj \<Rightarrow> MsgHead result" where
  "codec_head ob =
     (case ob of
        MP_array xs \<Rightarrow> (if length xs < 1 then Inr \<lparr>hd_id = 0, hd_sn = 0, hd_rpcSnId = 0\<rparr> else as_head (xs ! 0))
      | _ \<Rightarrow> Inr \<lparr>hd_id = 0, hd_sn = 0, hd_rpcSnId = 0\<rparr>)"

definition codec_pack :: "(mp_obj \<Rightarrow> 'd) \<Rightarrow> mp_obj \<Rightarrow> 'd" where
  "codec_pack enc ob = enc ob"

section \<open>Round trips\<close>

named_theorems packet_defs
lemmas [packet_defs] = pack_head_def pack_login_def pack_enter_def pack_online_def

lemma uint_u32_bound [simp]: "uint (w :: u32) < 4294967296"
  using uint_lt2p [of w] by simp

lemma as_u32_uint: "as_u32 (MP_int (uint (w :: u32))) = Inr w"
  by simp

lemma as_head_pack [simp]: "as_head (pack_head h) = Inr h"
  by (simp add: as_head_def pack_head_def member_def)

lemma codec_head_array [simp]: "codec_head (MP_array (pack_head h # xs)) = Inr h"
  by (simp add: codec_head_def)


text \<open>What a client packs is what the demo reads: for a login, an enter-scene and a plot-end packet
  the codec returns the head, and \<open>as<T>()\<close> the whole struct, provided msgpack reads back what it wrote.\<close>

theorem packet_roundtrip:
  assumes "\<And>ob. dec (enc ob) = Some ob"
  shows "bind_result (codec_unpack dec (codec_pack enc (pack_login m))) codec_head = Inr (lg_head m) \<and>
    bind_result (codec_unpack dec (codec_pack enc (pack_login m))) as_login = Inr m \<and>
    bind_result (codec_unpack dec (codec_pack enc (pack_enter n))) codec_head = Inr (es_head n) \<and>
    bind_result (codec_unpack dec (codec_pack enc (pack_enter n))) as_enter = Inr n \<and>
    bind_result (codec_unpack dec (codec_pack enc (pack_ntf MsgPlotEnd))) codec_head = Inr (head_of Id_PlotEnd) \<and>
    bind_result (codec_unpack dec (codec_pack enc (pack_ntf MsgPlotEnd))) as_plot_end = Inr (head_of Id_PlotEnd)"
  using assms
  by (simp add: codec_unpack_def codec_pack_def pack_login_def pack_enter_def as_login_def as_enter_def as_plot_end_def member_def)

theorem packet_roundtrip_witness:
  "bind_result (codec_unpack Some (codec_pack id
     (pack_login \<lparr>lg_head = \<lparr>hd_id = 1, hd_sn = 1, hd_rpcSnId = 0\<rparr>, lg_name = ''ann'', lg_pwd = '''', lg_uVer = 8\<rparr>))) as_login =
   Inr \<lparr>lg_head = \<lparr>hd_id = 1, hd_sn = 1, hd_rpcSnId = 0\<rparr>, lg_name = ''ann'', lg_pwd = '''', lg_uVer = 8\<rparr>"
  using packet_roundtrip [of Some id] by simp

lemma uint_inj [simp]: "uint (v :: 'a::len word) = uint w \<longleftrightarrow> v = w"
  by (simp add: word_uint_eq_iff)

text \<open>The numbers of an enum are distinct.\<close>

lemma enum_inj [simp]:
  "msg_id i = msg_id j \<longleftrightarrow> i = j"
  "object_type s = object_type t \<longleftrightarrow> s = t"
  "say_channel c = say_channel d \<longleftrightarrow> c = d"
  "login_error_number e = login_error_number f \<longleftrightarrow> e = f"
  "scene_id u = scene_id v \<longleftrightarrow> u = v"
  by (auto simp: msg_id_def object_type_def say_channel_def login_error_number_def scene_id_def
      split: MsgId.splits ObjectType.splits SayChannel.splits login_error.splits SceneID.splits)

lemma pack_head_inj [simp]: "pack_head h = pack_head k \<longleftrightarrow> h = k"
  by (metis as_head_pack Inr_inject)

lemma head_of_inj [simp]: "head_of i = head_of j \<longleftrightarrow> i = j"
  by (simp add: head_of_def)

lemma map_MP_str_inj [simp]: "map MP_str xs = map MP_str ys \<longleftrightarrow> xs = ys"
  by (rule inj_map_eq_map) (simp add: inj_on_def)

text \<open>No two notifications of the game, and no two packets of the gate, look the same to a client: the message id
  tells the kind apart and the array keeps every member.\<close>

theorem packets_distinguishable:
  "(pack_ntf a = pack_ntf b \<longleftrightarrow> a = b) \<and> (pack_client c = pack_client d \<longleftrightarrow> c = d)"
proof
  show "pack_ntf a = pack_ntf b \<longleftrightarrow> a = b" by (cases a; cases b) (auto intro: MsgAddRoleRet.equality MsgNotifyPos.equality MsgPlotDialogue.equality)
  show "pack_client c = pack_client d \<longleftrightarrow> c = d" by (cases c; cases d) (auto simp: head_of_def)
qed

end
