(* ===== verification/Game_Geom.thy ===== *)
theory Game_Geom
  imports Game_Msg
begin

text \<open>
  \<open>Position\<close> and \<open>Rect\<close> of \<open>example/msg_define.h\<close>: coordinates are \<open>float\<close>, IEEE 754 binary32, represented by their bits.
  Every finite number of that format is an integer multiple of \<open>2 ^ -149\<close>; sums and differences are computed exactly on these integers and rounded to
  the nearest number, ties to even, which is the default rounding mode. A result that is not a number has one representative. The functions
  \<open>DistanceLessEqual\<close>, \<open>DistancePow2\<close> and \<open>Distance\<close> are declared in the source and defined nowhere.
\<close>

section \<open>Numbers\<close>

definition f32_neg :: "f32 \<Rightarrow> bool" where
  "f32_neg x \<longleftrightarrow> bit x 31"

text \<open>The bits without the sign, as a number: exponent times \<open>2 ^ 23\<close> plus fraction.\<close>

definition f32_mag :: "f32 \<Rightarrow> int" where
  "f32_mag x = uint (take_bit 31 x)"

definition f32_inf :: int where
  "f32_inf = 255 * 2 ^ 23"

definition f32_is_nan :: "f32 \<Rightarrow> bool" where
  "f32_is_nan x \<longleftrightarrow> f32_mag x > f32_inf"

definition f32_is_inf :: "f32 \<Rightarrow> bool" where
  "f32_is_inf x \<longleftrightarrow> f32_mag x = f32_inf"

text \<open>The value of a magnitude in units of \<open>2 ^ -149\<close>; infinity gets the value after the largest finite one.\<close>

definition mag_val :: "int \<Rightarrow> int" where
  "mag_val b = (if b < 2 ^ 23 then b else (2 ^ 23 + b mod 2 ^ 23) * 2 ^ nat (b div 2 ^ 23 - 1))"

definition f32_val :: "f32 \<Rightarrow> int" where
  "f32_val x = (if f32_neg x then - mag_val (f32_mag x) else mag_val (f32_mag x))"

definition f32_make :: "bool \<Rightarrow> int \<Rightarrow> f32" where
  "f32_make neg b = (if neg then word_of_int (2 ^ 31 + b) else word_of_int b)"

definition f32_nan :: f32 where
  "f32_nan = 0x7FC00000"

text \<open>Comparisons are false when an argument is not a number.\<close>

definition f32_lt :: "f32 \<Rightarrow> f32 \<Rightarrow> bool" where
  "f32_lt x y \<longleftrightarrow> \<not> f32_is_nan x \<and> \<not> f32_is_nan y \<and> f32_val x < f32_val y"

definition f32_eq :: "f32 \<Rightarrow> f32 \<Rightarrow> bool" where
  "f32_eq x y \<longleftrightarrow> \<not> f32_is_nan x \<and> \<not> f32_is_nan y \<and> f32_val x = f32_val y"

section \<open>Rounding\<close>

text \<open>How many bits of a value are cut off to leave 24.\<close>

function cut_bits :: "int \<Rightarrow> nat" where
  "cut_bits m = (if m < 2 ^ 24 then 0 else Suc (cut_bits (m div 2)))"
  by auto
termination
  by (relation "measure nat") auto

definition round_even :: "nat \<Rightarrow> int \<Rightarrow> int" where
  "round_even k m =
     (let q = m div 2 ^ k; r = m mod 2 ^ k
      in if k > 0 \<and> (2 * r > 2 ^ k \<or> 2 * r = 2 ^ k \<and> odd q) then q + 1 else q)"

text \<open>The magnitude nearest to a value; a carry runs over into the exponent, and what is too large becomes infinity.\<close>

definition round_mag :: "int \<Rightarrow> int" where
  "round_mag m = min f32_inf (int (cut_bits m) * 2 ^ 23 + round_even (cut_bits m) m)"

definition f32_add :: "f32 \<Rightarrow> f32 \<Rightarrow> f32" where
  "f32_add x y =
     (if f32_is_nan x \<or> f32_is_nan y then f32_nan
      else if f32_is_inf x then (if f32_is_inf y \<and> f32_neg x \<noteq> f32_neg y then f32_nan else x)
      else if f32_is_inf y then y
      else let v = f32_val x + f32_val y
           in if v = 0 then f32_make (f32_neg x \<and> f32_neg y) 0 else f32_make (v < 0) (round_mag \<bar>v\<bar>))"

definition f32_minus :: "f32 \<Rightarrow> f32" where
  "f32_minus x = x XOR 0x80000000"

definition f32_sub :: "f32 \<Rightarrow> f32 \<Rightarrow> f32" where
  "f32_sub x y = f32_add x (f32_minus y)"

text \<open>\<open>(int32_t)\<close> cuts off the fraction; it is undefined when the result does not fit.\<close>

definition f32_to_i32 :: "f32 \<Rightarrow> int option" where
  "f32_to_i32 x =
     (if f32_is_nan x \<or> f32_is_inf x then None
      else let n = \<bar>f32_val x\<bar> div 2 ^ 149; v = (if f32_neg x then - n else n)
           in if - (2 ^ 31) \<le> v \<and> v < 2 ^ 31 then Some v else None)"

section \<open>Positions and rectangles\<close>

record Position =
  px :: f32
  pz :: f32

definition pos_eq :: "Position \<Rightarrow> Position \<Rightarrow> bool" where
  "pos_eq p r \<longleftrightarrow> f32_eq (px p) (px r) \<and> f32_eq (pz p) (pz r)"

definition pos_add_assign :: "Position \<Rightarrow> Position \<Rightarrow> Position" where
  "pos_add_assign p r = p\<lparr>px := f32_add (px p) (px r), pz := f32_add (pz p) (pz r)\<rparr>"

definition pos_minus :: "Position \<Rightarrow> Position \<Rightarrow> Position" where
  "pos_minus p r = p\<lparr>px := f32_sub (px p) (px r), pz := f32_sub (pz p) (pz r)\<rparr>"

definition pos_plus :: "Position \<Rightarrow> Position \<Rightarrow> Position" where
  "pos_plus p r = p\<lparr>px := f32_add (px p) (px r), pz := f32_add (pz p) (pz r)\<rparr>"

record Rect =
  poslefttop :: Position
  posrightbottom :: Position

definition rect_width :: "Rect \<Rightarrow> f32" where
  "rect_width r = f32_sub (px (posrightbottom r)) (px (poslefttop r))"

definition width_i :: "Rect \<Rightarrow> int option" where
  "width_i r = f32_to_i32 (rect_width r)"

definition rect_height :: "Rect \<Rightarrow> f32" where
  "rect_height r = f32_sub (pz (posrightbottom r)) (pz (poslefttop r))"

definition height_i :: "Rect \<Rightarrow> int option" where
  "height_i r = f32_to_i32 (rect_height r)"

definition contain :: "Rect \<Rightarrow> Position \<Rightarrow> bool" where
  "contain r p \<longleftrightarrow>
     f32_lt (px (poslefttop r)) (px p) \<and> f32_lt (px p) (px (posrightbottom r)) \<and>
     f32_lt (pz (poslefttop r)) (pz p) \<and> f32_lt (pz p) (pz (posrightbottom r))"

section \<open>Bits and magnitudes\<close>

lemma f32_mag_range: "0 \<le> f32_mag x" "f32_mag x < 2 ^ 31"
  using take_bit_int_less_exp [of 31 "uint x"] by (simp_all add: f32_mag_def unsigned_take_bit_eq)

lemma f32_of_int:
  "f32_mag (word_of_int v) = v mod 2 ^ 31" "f32_neg (word_of_int v) \<longleftrightarrow> bit v 31"
proof -
  have "uint (take_bit 31 (word_of_int v :: f32)) = take_bit 31 (take_bit 32 v)"
    by (simp only: unsigned_take_bit_eq uint_word_of_int_eq) simp
  also have "\<dots> = v mod 2 ^ 31" by (simp only: take_bit_take_bit) (simp add: take_bit_eq_mod)
  finally show "f32_mag (word_of_int v) = v mod 2 ^ 31" by (simp add: f32_mag_def)
  show "f32_neg (word_of_int v) \<longleftrightarrow> bit v 31" by (simp add: f32_neg_def bit_simps)
qed

lemma f32_make_parts:
  assumes "0 \<le> b" "b < 2 ^ 31"
  shows "f32_mag (f32_make neg b) = b" "f32_neg (f32_make neg b) = neg"
proof -
  have "(2 ^ 31 + b) mod 2 ^ 31 = b" "b mod 2 ^ 31 = b" "(2 ^ 31 + b) div 2 ^ 31 = 1" "b div 2 ^ 31 = 0"
    using assms by simp_all
  then show "f32_mag (f32_make neg b) = b" "f32_neg (f32_make neg b) = neg"
    by (cases neg; simp only: f32_make_def if_True if_False f32_of_int bit_iff_odd; simp)+
qed

declare cut_bits.simps [simp del]

text \<open>What is left after the cut has at most 24 bits, and exactly 24 if anything was cut off.\<close>

lemma cut_bounds:
  "0 \<le> m \<Longrightarrow> m < 2 ^ (24 + cut_bits m)" "0 < cut_bits m \<Longrightarrow> 2 ^ (23 + cut_bits m) \<le> m"
proof (induction m rule: cut_bits.induct)
  case (1 m)
  {
    case 1
    show ?case
    proof (cases "m < 2 ^ 24")
      case False
      then have "m div 2 < 2 ^ (24 + cut_bits (m div 2))" using "1.IH"(1) 1 by simp
      then have "m < 2 * 2 ^ (24 + cut_bits (m div 2))" by linarith
      moreover have "cut_bits m = Suc (cut_bits (m div 2))" using False by (simp add: cut_bits.simps [of m])
      ultimately show ?thesis by (simp add: power_add)
    qed (simp add: cut_bits.simps [of m])
  next
    case 2
    then have big: "\<not> m < 2 ^ 24" by (auto simp: cut_bits.simps [of m] split: if_splits)
    have c: "cut_bits m = Suc (cut_bits (m div 2))" using big by (simp add: cut_bits.simps [of m])
    show ?case
    proof (cases "cut_bits (m div 2) = 0")
      case True
      with big c show ?thesis by simp
    next
      case False
      then have "2 ^ (23 + cut_bits (m div 2)) \<le> m div 2" using "1.IH"(2) big by simp
      then have "2 * 2 ^ (23 + cut_bits (m div 2)) \<le> m" by linarith
      then show ?thesis using c by (simp add: power_add)
    qed
  }
qed

lemma round_even_bounds:
  assumes "0 \<le> m"
  shows "m div 2 ^ k \<le> round_even k m" "round_even k m \<le> m div 2 ^ k + 1"
    "2 * \<bar>round_even k m * 2 ^ k - m\<bar> \<le> 2 ^ k" "m mod 2 ^ k = 0 \<Longrightarrow> round_even k m * 2 ^ k = m"
proof -
  define q r where "q = m div 2 ^ k" and "r = m mod 2 ^ k"
  have "m = q * 2 ^ k + r" by (simp only: q_def r_def div_mult_mod_eq)
  then have m: "m = q * 2 ^ k + r" "0 \<le> r" "r < 2 ^ k" by (simp_all add: r_def)
  have re: "round_even k m = (if k > 0 \<and> (2 * r > 2 ^ k \<or> 2 * r = 2 ^ k \<and> odd q) then q + 1 else q)"
    by (simp add: round_even_def q_def r_def Let_def)
  show "m div 2 ^ k \<le> round_even k m" "round_even k m \<le> m div 2 ^ k + 1" by (simp_all add: re flip: q_def)
  show "2 * \<bar>round_even k m * 2 ^ k - m\<bar> \<le> 2 ^ k"
    using m unfolding re by (auto simp: algebra_simps split: if_splits)
  show "round_even k m * 2 ^ k = m" if "m mod 2 ^ k = 0"
    using m that unfolding re by (auto simp flip: r_def)
qed

section \<open>Rounding is right\<close>

text \<open>The value of a magnitude put together from exponent and significand, also when the significand has carried over.\<close>

lemma mag_val_parts:
  assumes "0 < k" "2 ^ 23 \<le> q" "q \<le> 2 ^ 24"
  shows "mag_val (int k * 2 ^ 23 + q) = q * 2 ^ k"
proof (cases "q = 2 ^ 24")
  case True
  have "int k * 2 ^ 23 + q = (int k + 2) * 2 ^ 23" using True by simp
  moreover have "nat (int k + 2 - 1) = Suc k" by simp
  ultimately show ?thesis using True by (simp add: mag_val_def)
next
  case False
  define f where "f = q - 2 ^ 23"
  have f: "0 \<le> f" "f < 2 ^ 23" "q = 2 ^ 23 + f" using assms False by (simp_all add: f_def)
  have e: "int k * 2 ^ 23 + q = (int k + 1) * 2 ^ 23 + f" using f(3) by (simp add: algebra_simps)
  have "((int k + 1) * 2 ^ 23 + f) div 2 ^ 23 = int k + 1" "((int k + 1) * 2 ^ 23 + f) mod 2 ^ 23 = f"
    using f(1,2) mod_mult_self3 [of "int k + 1" "2 ^ 23" f] by (simp add: div_pos_pos_trivial, simp only: mod_pos_pos_trivial)
  moreover have "\<not> (int k + 1) * 2 ^ 23 + f < 2 ^ 23" using f(1) by simp
  ultimately show ?thesis
    unfolding e mag_val_def using f(3) by simp
qed

lemma significand_bounds:
  assumes "0 < cut_bits m"
  shows "2 ^ 23 \<le> round_even (cut_bits m) m" "round_even (cut_bits m) m \<le> 2 ^ 24"
proof -
  let ?k = "cut_bits m"
  have m: "2 ^ (23 + ?k) \<le> m" by (rule cut_bounds(2) [OF assms])
  then have pos: "0 \<le> m" by (rule order_trans [rotated]) simp
  have "2 ^ 23 * 2 ^ ?k \<le> m" "m < 2 ^ 24 * 2 ^ ?k"
    using m cut_bounds(1) [OF pos] by (simp_all only: power_add)
  moreover have "0 \<le> m mod 2 ^ ?k" by simp
  then have "m div 2 ^ ?k * 2 ^ ?k \<le> m"
    using div_mult_mod_eq [of m "2 ^ ?k"] by linarith
  ultimately have low: "2 ^ 23 * 2 ^ ?k \<le> m" and high: "m div 2 ^ ?k * 2 ^ ?k < 2 ^ 24 * 2 ^ ?k"
    by linarith+
  have "2 ^ 23 \<le> m div 2 ^ ?k"
    using zdiv_mono1 [OF low, of "2 ^ ?k"] by simp
  moreover have "m div 2 ^ ?k < 2 ^ 24"
    using high by (simp only: mult_less_cancel_right_pos zero_less_power zero_less_numeral)
  ultimately have "2 ^ 23 \<le> m div 2 ^ ?k" "m div 2 ^ ?k < 2 ^ 24" .
  then show "2 ^ 23 \<le> round_even ?k m" "round_even ?k m \<le> 2 ^ 24"
    using round_even_bounds(1,2) [OF pos, of ?k] by linarith+
qed

text \<open>Below infinity the result is off by at most half a unit of its last place, and a value that fits is not changed.\<close>

lemma round_mag_error:
  assumes "0 \<le> m" "round_mag m < f32_inf"
  shows "2 * \<bar>mag_val (round_mag m) - m\<bar> \<le> 2 ^ cut_bits m" "m mod 2 ^ cut_bits m = 0 \<Longrightarrow> mag_val (round_mag m) = m"
proof -
  let ?k = "cut_bits m"
  have r: "round_mag m = int ?k * 2 ^ 23 + round_even ?k m" using assms(2) by (simp add: round_mag_def min_def split: if_splits)
  have v: "mag_val (round_mag m) = round_even ?k m * 2 ^ ?k"
  proof (cases "?k = 0")
    case True
    then have "m < 2 ^ 24" using cut_bounds(1) [OF assms(1)] by simp
    then have "mag_val m = m"
      using mod_pos_pos_trivial [of "m - 2 ^ 23" "2 ^ 23"] by (cases "m < 2 ^ 23") (simp_all add: mag_val_def)
    with True show ?thesis unfolding r by (simp add: round_even_def)
  next
    case False
    then show ?thesis unfolding r using significand_bounds [of m] by (intro mag_val_parts) simp_all
  qed
  show "2 * \<bar>mag_val (round_mag m) - m\<bar> \<le> 2 ^ ?k" "m mod 2 ^ ?k = 0 \<Longrightarrow> mag_val (round_mag m) = m"
    unfolding v by (rule round_even_bounds(3,4) [OF assms(1)])+
qed

lemma round_mag_range: "0 < m \<Longrightarrow> 0 < round_mag m" "round_mag m \<le> f32_inf"
proof -
  show "0 < round_mag m" if "0 < m"
  proof (cases "cut_bits m = 0")
    case True
    with that show ?thesis by (simp add: round_mag_def round_even_def f32_inf_def)
  next
    case False
    then have "0 < int (cut_bits m) * 2 ^ 23 + round_even (cut_bits m) m" using significand_bounds(1) [of m] by simp
    then show ?thesis by (simp add: round_mag_def f32_inf_def)
  qed
qed (simp add: round_mag_def)

lemma mag_val_pos: "0 < b \<Longrightarrow> 0 < mag_val b"
  by (auto simp: mag_val_def)

section \<open>Sums and differences\<close>

lemma f32_minus_parts [simp]:
  "f32_mag (f32_minus x) = f32_mag x" "f32_neg (f32_minus x) \<longleftrightarrow> \<not> f32_neg x" "f32_val (f32_minus x) = - f32_val x"
  "f32_is_nan (f32_minus x) = f32_is_nan x" "f32_is_inf (f32_minus x) = f32_is_inf x"
proof -
  have b: "bit (0x80000000 :: f32) n \<longleftrightarrow> n = 31" for n
    using bit_exp_iff [where 'a = f32, of 31 n] by auto
  have "take_bit 31 (x XOR 0x80000000) = take_bit 31 x"
    by (rule bit_word_eqI) (auto simp: bit_simps b)
  then show m: "f32_mag (f32_minus x) = f32_mag x" by (simp add: f32_mag_def f32_minus_def)
  show n: "f32_neg (f32_minus x) \<longleftrightarrow> \<not> f32_neg x" by (simp add: f32_neg_def f32_minus_def bit_xor_iff b)
  show "f32_val (f32_minus x) = - f32_val x" "f32_is_nan (f32_minus x) = f32_is_nan x" "f32_is_inf (f32_minus x) = f32_is_inf x"
    by (simp_all add: f32_val_def f32_is_nan_def f32_is_inf_def m n)
qed

lemma mag_val_nonneg: "0 \<le> b \<Longrightarrow> 0 \<le> mag_val b"
  using mag_val_pos [of b] by (cases "b = 0") (auto simp: mag_val_def)

lemma mag_val_finite:
  assumes "b < f32_inf"
  shows "mag_val b < mag_val f32_inf"
proof (cases "b < 2 ^ 23")
  case True
  have "(2 :: int) ^ 23 \<le> 2 ^ 277" by (rule power_increasing) simp_all
  with True show ?thesis by (simp add: mag_val_def f32_inf_def)
next
  case False
  have "b div 2 ^ 23 \<le> 254" using assms by (simp add: f32_inf_def)
  then have "(2 :: int) ^ nat (b div 2 ^ 23 - 1) \<le> 2 ^ 253" by (intro power_increasing) simp_all
  then have "(2 ^ 23 + b mod 2 ^ 23) * 2 ^ nat (b div 2 ^ 23 - 1) \<le> (2 ^ 23 + b mod 2 ^ 23) * 2 ^ 253"
    by (intro mult_left_mono) simp_all
  also have "\<dots> < 2 ^ 24 * 2 ^ 253"
    by (rule mult_strict_right_mono) simp_all
  finally show ?thesis
    using False by (simp add: mag_val_def f32_inf_def)
qed

text \<open>An infinite number is the largest or the smallest there is.\<close>

lemma inf_bounds:
  assumes "f32_is_inf x" "\<not> f32_is_nan y"
  shows "\<bar>f32_val y\<bar> \<le> \<bar>f32_val x\<bar>" "f32_val x \<noteq> 0" "f32_neg x \<longleftrightarrow> f32_val x < 0"
proof -
  have x: "\<bar>f32_val x\<bar> = mag_val f32_inf" "0 < mag_val f32_inf"
    using assms(1) mag_val_pos [of f32_inf] by (auto simp: f32_val_def f32_is_inf_def f32_inf_def)
  have "mag_val (f32_mag y) \<le> mag_val f32_inf"
    using mag_val_finite [of "f32_mag y"] assms(2) by (cases "f32_mag y = f32_inf") (auto simp: f32_is_nan_def)
  then show "\<bar>f32_val y\<bar> \<le> \<bar>f32_val x\<bar>"
    using x(1) mag_val_nonneg [OF f32_mag_range(1), of y] by (auto simp: f32_val_def)
  show "f32_val x \<noteq> 0" using x by auto
  show "f32_neg x \<longleftrightarrow> f32_val x < 0"
    using x(2) assms(1) by (auto simp: f32_val_def f32_is_inf_def)
qed

lemma f32_make_round:
  assumes "0 < m"
  shows "\<not> f32_is_nan (f32_make neg (round_mag m))" "f32_val (f32_make neg (round_mag m)) = (if neg then - mag_val (round_mag m) else mag_val (round_mag m))"
    "f32_neg (f32_make neg (round_mag m)) = neg" "f32_mag (f32_make neg (round_mag m)) = round_mag m"
proof -
  have "0 \<le> round_mag m" "round_mag m < 2 ^ 31"
    using round_mag_range [of m] assms by (simp_all add: f32_inf_def)
  note p = f32_make_parts [OF this, of neg]
  show "f32_neg (f32_make neg (round_mag m)) = neg" "f32_mag (f32_make neg (round_mag m)) = round_mag m"
    "f32_val (f32_make neg (round_mag m)) = (if neg then - mag_val (round_mag m) else mag_val (round_mag m))"
    by (simp_all only: p f32_val_def)
  show "\<not> f32_is_nan (f32_make neg (round_mag m))"
    using round_mag_range(2) [of m] by (simp add: f32_is_nan_def p)
qed

text \<open>Gradual underflow: the difference of two numbers in order is positive, however close they are.\<close>

lemma lt_sub_pos:
  assumes "f32_lt x y"
  shows "f32_lt 0 (f32_sub y x)"
proof -
  have nan: "\<not> f32_is_nan x" "\<not> f32_is_nan y" and lt: "f32_val x < f32_val y" using assms by (simp_all add: f32_lt_def)
  have zero: "\<not> f32_is_nan 0" "f32_val 0 = 0" by (simp_all add: f32_is_nan_def f32_val_def f32_mag_def f32_inf_def mag_val_def)
  show ?thesis
  proof (cases "f32_is_inf y")
    case True
    then have "0 < f32_val y" "\<not> f32_neg y" "\<not> (f32_is_inf x \<and> \<not> f32_neg x)"
      using inf_bounds [OF True nan(1)] inf_bounds [of x y] lt nan by auto
    with True nan zero show ?thesis by (auto simp: f32_sub_def f32_add_def f32_lt_def)
  next
    case finy: False
    show ?thesis
    proof (cases "f32_is_inf x")
      case True
      then have "f32_val x < 0" using inf_bounds [OF True nan(2)] lt by auto
      with True finy nan zero show ?thesis by (auto simp: f32_sub_def f32_add_def f32_lt_def)
    next
      case False
      let ?v = "f32_val y - f32_val x"
      have "f32_sub y x = f32_make False (round_mag ?v)"
        using finy False nan lt by (simp add: f32_sub_def f32_add_def Let_def)
      with f32_make_round [of ?v False] lt mag_val_pos [OF round_mag_range(1), of ?v] zero show ?thesis
        by (simp add: f32_lt_def)
    qed
  qed
qed

section \<open>Whole numbers\<close>

text \<open>A finite number with the whole value \<open>n\<close>.\<close>

definition whole :: "f32 \<Rightarrow> int \<Rightarrow> bool" where
  "whole x n \<longleftrightarrow> \<not> f32_is_nan x \<and> \<not> f32_is_inf x \<and> f32_val x = n * 2 ^ 149"

lemma round_whole:
  assumes "0 < n" "n < 2 ^ 24"
  shows "mag_val (round_mag (n * 2 ^ 149)) = n * 2 ^ 149" "round_mag (n * 2 ^ 149) < f32_inf"
proof -
  let ?m = "n * 2 ^ 149 :: int"
  have pos: "0 < ?m" using assms(1) by simp
  have "?m < 2 ^ 24 * 2 ^ 149" using assms(2) by (rule mult_strict_right_mono) simp
  then have top: "?m < 2 ^ 173" by simp
  have k: "cut_bits ?m \<le> 149"
  proof (rule ccontr)
    assume "\<not> cut_bits ?m \<le> 149"
    then have "(2 :: int) ^ 173 \<le> 2 ^ (23 + cut_bits ?m)" by (intro power_increasing) simp_all
    also have "\<dots> \<le> ?m" by (rule cut_bounds(2)) (use \<open>\<not> cut_bits ?m \<le> 149\<close> in simp)
    finally show False using top by simp
  qed
  have re: "round_even (cut_bits ?m) ?m \<le> 2 ^ 24"
  proof (cases "cut_bits ?m = 0")
    case True
    with cut_bounds(1) [of ?m] pos show ?thesis by (simp add: round_even_def)
  qed (use significand_bounds(2) [of ?m] in simp)
  have "int (cut_bits ?m) * 2 ^ 23 \<le> 149 * 2 ^ 23" using k by (intro mult_right_mono) simp_all
  with re show lt: "round_mag ?m < f32_inf" by (simp add: round_mag_def f32_inf_def)
  have "(2 :: int) ^ cut_bits ?m dvd 2 ^ 149" using k by (rule le_imp_power_dvd)
  then have "?m mod 2 ^ cut_bits ?m = 0" by (simp add: dvd_imp_mod_0)
  with round_mag_error(2) [OF _ lt] pos show "mag_val (round_mag ?m) = ?m" by simp
qed

lemma f32_add_scaled:
  assumes "\<not> f32_is_nan x" "\<not> f32_is_nan y" "\<not> f32_is_inf x" "\<not> f32_is_inf y"
    and "f32_val x + f32_val y = c * u" "0 < u" "c \<noteq> 0"
  shows "f32_add x y = f32_make (c < 0) (round_mag (\<bar>c\<bar> * u))"
  using assms by (simp add: f32_add_def Let_def abs_mult mult_less_0_iff)

lemma whole_add:
  assumes "whole x a" "whole y b" "\<bar>a + b\<bar> < 2 ^ 24"
  shows "whole (f32_add x y) (a + b)"
proof (cases "a + b = 0")
  case True
  then have "f32_add x y = f32_make (f32_neg x \<and> f32_neg y) 0"
    using assms(1,2) by (simp add: whole_def f32_add_def Let_def flip: distrib_right)
  then show ?thesis
    using True f32_make_parts [of 0] by (simp add: whole_def f32_is_nan_def f32_is_inf_def f32_val_def f32_inf_def mag_val_def)
next
  case False
  let ?n = "\<bar>a + b\<bar>"
  have v: "f32_val x + f32_val y = (a + b) * 2 ^ 149" using assms(1,2) by (simp add: whole_def distrib_right)
  have s: "f32_add x y = f32_make (a + b < 0) (round_mag (?n * 2 ^ 149))"
    by (rule f32_add_scaled [OF _ _ _ _ v _ False]) (use assms(1,2) in \<open>simp_all add: whole_def\<close>)
  note r = round_whole [of ?n]
  have "f32_is_inf (f32_add x y) \<longleftrightarrow> round_mag (?n * 2 ^ 149) = f32_inf"
    using False f32_make_round(4) [of "?n * 2 ^ 149"] unfolding s f32_is_inf_def by simp
  then show ?thesis
    using r False assms(3) f32_make_round(1,2) [of "?n * 2 ^ 149" "a + b < 0"] unfolding s whole_def by auto
qed

lemma whole_minus: "whole x a \<Longrightarrow> whole (f32_minus x) (- a)"
  by (simp add: whole_def)

lemma whole_sub: "whole x a \<Longrightarrow> whole y b \<Longrightarrow> \<bar>a - b\<bar> < 2 ^ 24 \<Longrightarrow> whole (f32_sub x y) (a - b)"
  using whole_add [OF _ whole_minus, of x a y b] by (simp add: f32_sub_def)

lemma whole_to_i32:
  assumes "whole x n" "\<bar>n\<bar> < 2 ^ 31"
  shows "f32_to_i32 x = Some n"
proof -
  have v: "f32_val x = n * 2 ^ 149" using assms(1) by (simp add: whole_def)
  then have "\<bar>f32_val x\<bar> div 2 ^ 149 = \<bar>n\<bar>" by (simp add: abs_mult)
  moreover have "0 \<le> mag_val (f32_mag x)" by (rule mag_val_nonneg [OF f32_mag_range(1)])
  then have "f32_neg x \<Longrightarrow> n \<le> 0" "\<not> f32_neg x \<Longrightarrow> 0 \<le> n"
    using v by (auto simp: f32_val_def mult_le_0_iff zero_le_mult_iff)
  ultimately show ?thesis
    using assms by (auto simp: f32_to_i32_def whole_def Let_def)
qed

section \<open>What the rectangles promise\<close>

lemma f32_lt_trans: "f32_lt x y \<Longrightarrow> f32_lt y z \<Longrightarrow> f32_lt x z"
  by (simp add: f32_lt_def)

text \<open>A rectangle that contains a position has a positive width and a positive height, whatever the coordinates are: the difference of two different
  corners is never rounded to zero, nor is it a number that compares with nothing, even if a corner is infinite.\<close>

theorem contain_has_area:
  assumes "contain r p"
  shows "f32_lt 0 (rect_width r) \<and> f32_lt 0 (rect_height r)"
  using assms unfolding contain_def rect_width_def rect_height_def by (blast intro: lt_sub_pos f32_lt_trans)

text \<open>The rectangle from (0, 0) to (2, 2) and the position (1, 1).\<close>

definition f32_one :: f32 where
  "f32_one = 0x3F800000"

definition unit_rect :: Rect where
  "unit_rect = \<lparr>poslefttop = \<lparr>px = 0, pz = 0\<rparr>, posrightbottom = \<lparr>px = 0x40000000, pz = 0x40000000\<rparr>\<rparr>"

lemma unit_rect_whole:
  "whole 0 0" "whole f32_one 1" "whole 0x40000000 2"
  by (simp_all add: whole_def f32_is_nan_def f32_is_inf_def f32_val_def f32_neg_def f32_mag_def f32_inf_def mag_val_def f32_one_def
      take_bit_word_eq_self bit_numeral_rec)

theorem contain_has_area_witness:
  "contain unit_rect \<lparr>px = f32_one, pz = f32_one\<rparr> \<and> f32_lt 0 (rect_width unit_rect) \<and> f32_lt 0 (rect_height unit_rect)"
proof -
  have "contain unit_rect \<lparr>px = f32_one, pz = f32_one\<rparr>"
    using unit_rect_whole by (simp add: contain_def unit_rect_def f32_lt_def whole_def)
  with contain_has_area [OF this] show ?thesis by blast
qed

text \<open>C33. If the corners of a rectangle have whole coordinates less than \<open>2 ^ 24\<close> apart, \<open>width_i\<close> and \<open>height_i\<close> are defined and exact, negative
  for corners in the wrong order.\<close>

theorem width_exact:
  assumes "whole (px (poslefttop r)) a" "whole (px (posrightbottom r)) b" "\<bar>b - a\<bar> < 2 ^ 24"
    and "whole (pz (poslefttop r)) c" "whole (pz (posrightbottom r)) d" "\<bar>d - c\<bar> < 2 ^ 24"
  shows "width_i r = Some (b - a) \<and> height_i r = Some (d - c)"
  unfolding width_i_def height_i_def rect_width_def rect_height_def
  using whole_to_i32 [OF whole_sub] assms by simp

theorem width_exact_witness:
  "width_i unit_rect = Some 2 \<and> height_i unit_rect = Some 2"
  using width_exact [of unit_rect 0 2 0 2] unit_rect_whole by (simp add: unit_rect_def)

text \<open>Moving a position and moving it back gives the same position, as long as the coordinates and their sums are whole numbers below
  \<open>2 ^ 24\<close>; for other numbers the sum is rounded and may not come back.\<close>

theorem pos_plus_minus:
  assumes "whole (px p) a" "whole (pz p) b" "whole (px r) c" "whole (pz r) d"
    and "\<bar>a\<bar> < 2 ^ 24" "\<bar>b\<bar> < 2 ^ 24" "\<bar>a + c\<bar> < 2 ^ 24" "\<bar>b + d\<bar> < 2 ^ 24"
  shows "pos_eq (pos_minus (pos_plus p r) r) p"
proof -
  have "whole (f32_sub (f32_add (px p) (px r)) (px r)) a" "whole (f32_sub (f32_add (pz p) (pz r)) (pz r)) b"
    using whole_sub [OF whole_add [OF assms(1,3,7)] assms(3)] whole_sub [OF whole_add [OF assms(2,4,8)] assms(4)] assms(5,6)
    by simp_all
  with assms(1,2) show ?thesis
    by (simp add: pos_eq_def pos_minus_def pos_plus_def f32_eq_def whole_def)
qed

theorem pos_plus_minus_witness:
  "pos_eq (pos_minus (pos_plus \<lparr>px = f32_one, pz = 0\<rparr> \<lparr>px = 0x40000000, pz = f32_one\<rparr>) \<lparr>px = 0x40000000, pz = f32_one\<rparr>) \<lparr>px = f32_one, pz = 0\<rparr>"
  using pos_plus_minus [of "\<lparr>px = f32_one, pz = 0\<rparr>" 1 0 "\<lparr>px = 0x40000000, pz = f32_one\<rparr>" 2 1] unit_rect_whole by simp

end
