(* ===== verification/Entity_Mgr.thy ===== *)
theory Entity_Mgr
  imports Cqy_Prelude
begin

text \<open>
  \<open>example/entity.h\<close> and \<open>example/entity.cpp\<close>: the entity store of the game demo. An entity is an
  index with a version; destroying an entity increments the version of its index, so that old ids
  become invalid, and puts the index on a free list. Components live in pools, one per component
  type, indexed by the index of the entity. A component type is its number
  \<open>component_id<T>()\<close>, the components of all types are values of \<open>'c\<close>. Access to a vector out of
  its range is undefined in C++ and \<open>Bad_Access\<close> here.
\<close>

section \<open>Entity ids\<close>

text \<open>The union: \<open>ver\<close> is the lower half of \<open>id\<close>, \<open>idx\<close> the upper half.\<close>

type_synonym entity_id_t = u64

definition eid_ver :: "entity_id_t \<Rightarrow> u32" where
  "eid_ver i = ucast i"

definition eid_idx :: "entity_id_t \<Rightarrow> u32" where
  "eid_idx i = ucast (drop_bit 32 i)"

definition entity_id :: "u32 \<Rightarrow> u32 \<Rightarrow> entity_id_t" where
  "entity_id idx ver = push_bit 32 (ucast idx) OR ucast ver"

section \<open>Pools and the manager\<close>

text \<open>A slot of a pool is a null pointer (\<open>None\<close>) or a \<open>component_opt\<close> that may hold a value.\<close>

type_synonym 'c slot = "'c option option"

record 'c entity_mgr_t =
  index_counter :: u32
  free_list :: "u32 list"
  pools :: "'c slot list option list"
  entity_version :: "u32 list"

definition mgr_new :: "'c entity_mgr_t" where
  "mgr_new = \<lparr>index_counter = 0, free_list = [], pools = [], entity_version = []\<rparr>"

text \<open>\<open>vector::resize\<close>\<close>

definition vec_resize :: "nat \<Rightarrow> 'a \<Rightarrow> 'a list \<Rightarrow> 'a list" where
  "vec_resize n x xs = take n xs @ replicate (n - length xs) x"

definition em_create :: "'c entity_mgr_t \<Rightarrow> (entity_id_t \<times> 'c entity_mgr_t) result" where
  "em_create m =
     (if free_list m = [] then
        let index = index_counter m;
            m1 = m\<lparr>index_counter := index + 1\<rparr>;
            m2 = (if length (entity_version m1) \<le> unat index
                  then m1\<lparr>entity_version := vec_resize (unat (index + 1)) 0 (entity_version m1),
                          pools := map (map_option (vec_resize (unat (index + 1)) None)) (pools m1)\<rparr>
                  else m1)
        in if unat index < length (entity_version m2)
           then Inr (entity_id index 1, m2\<lparr>entity_version := (entity_version m2)[unat index := 1]\<rparr>)
           else Inl Bad_Access
      else
        let index = last (free_list m);
            m1 = m\<lparr>free_list := butlast (free_list m)\<rparr>
        in if unat index < length (entity_version m1)
           then Inr (entity_id index (entity_version m1 ! unat index), m1)
           else Inl Bad_Access)"

definition em_check :: "entity_id_t \<Rightarrow> 'c entity_mgr_t \<Rightarrow> bool" where
  "em_check i m \<longleftrightarrow>
     \<not> length (entity_version m) \<le> unat (eid_idx i) \<and> entity_version m ! unat (eid_idx i) = eid_ver i"

text \<open>The loop of \<open>destroy\<close>: the guard is \<open>p->size() >= id.idx\<close>.\<close>

fun reset_slots :: "nat \<Rightarrow> 'c slot list option list \<Rightarrow> 'c slot list option list result" where
  "reset_slots k [] = Inr []"
| "reset_slots k (None # ps) = bind_result (reset_slots k ps) (\<lambda>ps'. Inr (None # ps'))"
| "reset_slots k (Some p # ps) =
     (if length p \<ge> k then
        if k < length p then bind_result (reset_slots k ps) (\<lambda>ps'. Inr (Some (p[k := None]) # ps'))
        else Inl Bad_Access
      else bind_result (reset_slots k ps) (\<lambda>ps'. Inr (Some p # ps')))"

definition em_destroy :: "entity_id_t \<Rightarrow> 'c entity_mgr_t \<Rightarrow> 'c entity_mgr_t result" where
  "em_destroy i m =
     (let k = unat (eid_idx i) in
      if k \<ge> length (entity_version m) then Inr m
      else if entity_version m ! k \<noteq> eid_ver i then Inr m
      else bind_result (reset_slots k (pools m)) (\<lambda>ps.
             Inr (m\<lparr>entity_version := (entity_version m)[k := entity_version m ! k + 1],
                    free_list := free_list m @ [eid_idx i], pools := ps\<rparr>)))"

text \<open>\<open>entity_t::add<T>(args)\<close> for the component type \<open>cid\<close> and the value \<open>x\<close> built from the
  arguments. The version of the id plays no role.\<close>

definition ent_add :: "nat \<Rightarrow> 'c \<Rightarrow> entity_id_t \<Rightarrow> 'c entity_mgr_t \<Rightarrow> 'c entity_mgr_t result" where
  "ent_add cid x i m =
     (let ps = (if length (pools m) \<le> cid then vec_resize (cid + 1) None (pools m) else pools m);
          p = (case ps ! cid of None \<Rightarrow> replicate (unat (index_counter m)) None | Some p \<Rightarrow> p);
          k = unat (eid_idx i)
      in if k < length p then Inr (m\<lparr>pools := ps[cid := Some (p[k := Some (Some x)])]\<rparr>) else Inl Bad_Access)"

text \<open>\<open>entity_mgr_t::component<T>(id)\<close>: the component, or a null pointer.\<close>

definition em_component :: "nat \<Rightarrow> entity_id_t \<Rightarrow> 'c entity_mgr_t \<Rightarrow> 'c option result" where
  "em_component cid i m =
     (if length (pools m) \<le> cid then Inr None
      else case pools m ! cid of
             None \<Rightarrow> Inr None
           | Some p \<Rightarrow>
               if unat (eid_idx i) < length p
               then (case p ! unat (eid_idx i) of
                       None \<Rightarrow> Inr None
                     | Some None \<Rightarrow> Inr None
                     | Some (Some x) \<Rightarrow> Inr (Some x))
               else Inl Bad_Access)"

text \<open>The fold expression over the component types, left to right with \<open>&&\<close>.\<close>

fun has_components :: "nat list \<Rightarrow> nat \<Rightarrow> 'c entity_mgr_t \<Rightarrow> bool result" where
  "has_components [] k m = Inr True"
| "has_components (cid # cids) k m =
     (if cid \<ge> length (pools m) then Inl Bad_Access
      else case pools m ! cid of
             None \<Rightarrow> Inr False
           | Some p \<Rightarrow>
               if k \<ge> length p then Inl Bad_Access
               else (case p ! k of Some (Some _) \<Rightarrow> has_components cids k m | _ \<Rightarrow> Inr False))"

fun entities_with_components :: "nat list \<Rightarrow> entity_id_t list \<Rightarrow> 'c entity_mgr_t \<Rightarrow> entity_id_t list result" where
  "entities_with_components cids [] m = Inr []"
| "entities_with_components cids (i # is) m =
     (if \<not> em_check i m then entities_with_components cids is m
      else bind_result (has_components cids (unat (eid_idx i)) m) (\<lambda>b.
             bind_result (entities_with_components cids is m) (\<lambda>res. Inr (if b then i # res else res))))"

section \<open>Entities\<close>

text \<open>\<open>entity_t\<close>: an id and a pointer to the manager, of which only null or not matters.\<close>

record entity_t =
  ent_id :: entity_id_t
  ent_mgr :: bool

definition em_get :: "entity_id_t \<Rightarrow> entity_t" where
  "em_get i = \<lparr>ent_id = i, ent_mgr = True\<rparr>"

definition ent_destroy :: "entity_t \<Rightarrow> 'c entity_mgr_t \<Rightarrow> (entity_t \<times> 'c entity_mgr_t) result" where
  "ent_destroy e m =
     (if \<not> ent_mgr e then Inl Bad_Access
      else bind_result (em_destroy (ent_id e) m) (\<lambda>m'. Inr (e\<lparr>ent_id := 0\<rparr>, m')))"

definition ent_valid :: "entity_t \<Rightarrow> 'c entity_mgr_t \<Rightarrow> bool" where
  "ent_valid e m \<longleftrightarrow> ent_mgr e \<and> em_check (ent_id e) m"

definition ent_component :: "nat \<Rightarrow> entity_t \<Rightarrow> 'c entity_mgr_t \<Rightarrow> 'c option result" where
  "ent_component cid e m = (if ent_mgr e then em_component cid (ent_id e) m else Inr None)"

section \<open>Numbers of component types\<close>

text \<open>\<open>component_id<T>()\<close>: a static variable per type, initialized from the counter \<open>gID\<close> by the first call. The state is
  the list of types in the order of their first calls, \<open>gID\<close> its length.\<close>

fun type_index :: "'t \<Rightarrow> 't list \<Rightarrow> nat option" where
  "type_index t [] = None"
| "type_index t (u # us) = (if t = u then Some 0 else map_option Suc (type_index t us))"

definition component_id :: "'t \<Rightarrow> 't list \<Rightarrow> nat \<times> 't list" where
  "component_id t known = (case type_index t known of Some k \<Rightarrow> (k, known) | None \<Rightarrow> (length known, known @ [t]))"

fun component_ids :: "'t list \<Rightarrow> 't list \<Rightarrow> nat list \<times> 't list" where
  "component_ids [] known = ([], known)"
| "component_ids (t # ts) known =
     (case component_id t known of (k, known1) \<Rightarrow> case component_ids ts known1 of (ks, known2) \<Rightarrow> (k # ks, known2))"

lemma type_index_Some: "type_index t us = Some k \<Longrightarrow> k < length us \<and> us ! k = t"
  by (induction us arbitrary: k) (auto split: if_splits)

lemma type_index_None: "type_index t us = None \<longleftrightarrow> t \<notin> set us"
  by (induction us) auto

lemma type_index_append: "type_index t us = Some k \<Longrightarrow> type_index t (us @ vs) = Some k"
  by (induction us arbitrary: k) (auto split: if_splits)

lemma type_index_snoc: "t \<notin> set us \<Longrightarrow> type_index t (us @ [t]) = Some (length us)"
  by (induction us) auto

lemma component_id_index:
  "component_id t known = (k, known') \<Longrightarrow> type_index t known' = Some k \<and> (\<exists>vs. known' = known @ vs)"
  by (auto simp: component_id_def type_index_None type_index_snoc split: option.splits)

lemma component_ids_index:
  "component_ids ts known = (ks, known') \<Longrightarrow>
   map (\<lambda>t. type_index t known') ts = map Some ks \<and> (\<exists>vs. known' = known @ vs)"
proof (induction ts arbitrary: known ks known')
  case (Cons t ts)
  obtain k known1 where c: "component_id t known = (k, known1)" by fastforce
  obtain ks' where r: "component_ids ts known1 = (ks', known')" "ks = k # ks'"
    using Cons.prems c by (auto split: prod.splits)
  obtain vs where vs: "known' = known1 @ vs" using Cons.IH [OF r(1)] by auto
  then show ?case
    using Cons.IH [OF r(1)] r(2) component_id_index [OF c] type_index_append [of t known1 k vs] by auto
qed simp

text \<open>Two calls return the same number exactly when they are for the same type: the numbers a program uses for its component types
  are an injective assignment.\<close>

lemma component_ids_injective:
  assumes "component_ids ts known = (ks, known')" "i < length ts" "j < length ts"
  shows "ks ! i = ks ! j \<longleftrightarrow> ts ! i = ts ! j"
proof -
  have m: "map (\<lambda>t. type_index t known') ts = map Some ks" using component_ids_index [OF assms(1)] by simp
  then have len: "length ks = length ts" by (metis length_map)
  have "type_index (ts ! i) known' = Some (ks ! i)" "type_index (ts ! j) known' = Some (ks ! j)"
    using arg_cong [OF m, of "\<lambda>l. l ! i"] arg_cong [OF m, of "\<lambda>l. l ! j"] assms(2,3) len by simp_all
  then show ?thesis by (metis option.inject type_index_Some)
qed

section \<open>Ids as pairs\<close>

lemma eid_idx_entity_id [simp]: "eid_idx (entity_id k v) = k"
  by (rule bit_word_eqI) (auto simp: eid_idx_def entity_id_def bit_simps dest: bit_imp_le_length)

lemma eid_ver_entity_id [simp]: "eid_ver (entity_id k v) = v"
  by (rule bit_word_eqI) (auto simp: eid_ver_def entity_id_def bit_simps)

lemma entity_id_parts [simp]: "entity_id (eid_idx i) (eid_ver i) = i"
proof (rule bit_word_eqI)
  fix n
  assume "n < LENGTH(64)"
  then show "bit (entity_id (eid_idx i) (eid_ver i)) n = bit i n"
    by (cases "n < 32") (auto simp: eid_idx_def eid_ver_def entity_id_def bit_simps)
qed

interpretation eid: packed_pair entity_id eid_idx eid_ver "\<lambda>_. True"
  by unfold_locales simp_all

section \<open>Invariant\<close>

text \<open>Every pool and the version table have one place per index handed out; free indices are
  distinct and handed out.\<close>

definition em_inv :: "'c entity_mgr_t \<Rightarrow> bool" where
  "em_inv m \<longleftrightarrow>
     length (entity_version m) = unat (index_counter m) \<and>
     (\<forall>p. Some p \<in> set (pools m) \<longrightarrow> length p = unat (index_counter m)) \<and>
     distinct (free_list m) \<and> (\<forall>k \<in> set (free_list m). unat k < unat (index_counter m))"

lemma Some_eq_map_option: "Some y = map_option f x \<longleftrightarrow> (\<exists>z. x = Some z \<and> y = f z)"
  by (cases x) auto

lemma length_vec_resize [simp]: "length (vec_resize n x xs) = n"
  by (simp add: vec_resize_def)

lemma vec_resize_grow: "length xs \<le> n \<Longrightarrow> vec_resize n x xs = xs @ replicate (n - length xs) x"
  by (simp add: vec_resize_def)

lemma em_inv_new [simp]: "em_inv mgr_new"
  by (simp add: em_inv_def mgr_new_def)

text \<open>What \<open>create\<close> does under the invariant.\<close>

lemma em_create_fresh:
  assumes "em_inv m" "free_list m = []" "unat (index_counter m) + 1 < 2 ^ 32"
  shows "em_create m = Inr (entity_id (index_counter m) 1,
     m\<lparr>index_counter := index_counter m + 1,
       pools := map (map_option (\<lambda>p. p @ [None])) (pools m), entity_version := entity_version m @ [1]\<rparr>)"
proof -
  have "unat (index_counter m + 1) = unat (index_counter m) + 1"
    using assms(3) by (simp add: unat_word_ariths)
  moreover have "map (map_option (vec_resize (unat (index_counter m) + 1) None)) (pools m) =
      map (map_option (\<lambda>p. p @ [None])) (pools m)"
    using assms(1) by (auto simp: em_inv_def vec_resize_grow intro!: option.map_cong0)
  moreover have "(entity_version m @ [0])[unat (index_counter m) := 1] = entity_version m @ [1]"
    using assms(1) list_update_length [of "entity_version m" 0 "[]" 1] by (simp add: em_inv_def)
  ultimately show ?thesis
    using assms(1,2) by (simp add: em_create_def em_inv_def vec_resize_grow Let_def)
qed

lemma em_create_reuse:
  assumes "em_inv m" "free_list m \<noteq> []"
  shows "em_create m = Inr (entity_id (last (free_list m)) (entity_version m ! unat (last (free_list m))),
     m\<lparr>free_list := butlast (free_list m)\<rparr>)"
  using assms by (simp add: em_create_def em_inv_def Let_def)

lemma em_inv_create:
  assumes "em_inv m" "em_create m = Inr (i, m')" "unat (index_counter m) + 1 < 2 ^ 32"
  shows "em_inv m'"
proof (cases "free_list m = []")
  case True
  have c: "unat (index_counter m + 1) = unat (index_counter m) + 1"
    using assms(3) by (simp add: unat_word_ariths)
  have "m' = m\<lparr>index_counter := index_counter m + 1,
       pools := map (map_option (\<lambda>p. p @ [None])) (pools m), entity_version := entity_version m @ [1]\<rparr>"
    using em_create_fresh [OF assms(1) True assms(3)] assms(2) by simp
  then show ?thesis
    using assms(1) True c by (auto simp: em_inv_def Some_eq_map_option)
next
  case False
  then have "m' = m\<lparr>free_list := butlast (free_list m)\<rparr>"
    using em_create_reuse [OF assms(1)] assms(2) by simp
  then show ?thesis
    using assms(1) by (auto simp: em_inv_def distinct_butlast dest: in_set_butlastD)
qed

text \<open>The guard \<open>size() >= idx\<close> is never met with equality, because the pools have full length.\<close>

lemma reset_slots_ok:
  assumes "\<forall>p. Some p \<in> set ps \<longrightarrow> k < length p"
  shows "reset_slots k ps = Inr (map (map_option (\<lambda>p. p[k := None])) ps)"
  using assms by (induction k ps rule: reset_slots.induct) auto

lemma em_destroy_valid:
  assumes "em_inv m" "em_check i m"
  shows "em_destroy i m = Inr (m\<lparr>entity_version := (entity_version m)[unat (eid_idx i) := eid_ver i + 1],
     free_list := free_list m @ [eid_idx i],
     pools := map (map_option (\<lambda>p. p[unat (eid_idx i) := None])) (pools m)\<rparr>)"
  using assms by (auto simp: em_destroy_def em_check_def em_inv_def Let_def not_le reset_slots_ok)

lemma em_destroy_stale: "\<not> em_check i m \<Longrightarrow> em_destroy i m = Inr m"
  by (auto simp: em_destroy_def em_check_def Let_def)

lemma em_inv_destroy:
  assumes "em_inv m" "em_check i m" "eid_idx i \<notin> set (free_list m)"
  shows "\<exists>m'. em_destroy i m = Inr m' \<and> em_inv m'"
  unfolding em_destroy_valid [OF assms(1,2)]
  using assms by (auto simp: em_inv_def em_check_def Some_eq_map_option)

lemma ent_add_ok:
  assumes "em_inv m" "unat (eid_idx i) < unat (index_counter m)"
  shows "\<exists>m'. ent_add cid x i m = Inr m' \<and> em_inv m' \<and> entity_version m' = entity_version m \<and>
     free_list m' = free_list m \<and> index_counter m' = index_counter m"
proof -
  define ps where "ps = (if length (pools m) \<le> cid then vec_resize (cid + 1) None (pools m) else pools m)"
  define p where "p = (case ps ! cid of None \<Rightarrow> replicate (unat (index_counter m)) None | Some p \<Rightarrow> p)"
  have set: "set ps \<subseteq> insert None (set (pools m))" and len: "cid < length ps"
    by (auto simp: ps_def vec_resize_def)
  have "ps ! cid \<in> set ps"
    using len by (rule nth_mem)
  then have p: "length p = unat (index_counter m)"
    using assms(1) set by (auto simp: p_def em_inv_def split: option.split)
  then have "ent_add cid x i m = Inr (m\<lparr>pools := ps[cid := Some (p[unat (eid_idx i) := Some (Some x)])]\<rparr>)"
    using assms(2) by (simp add: ent_add_def ps_def [symmetric] p_def [symmetric])
  moreover have "length q = unat (index_counter m)" if "Some q \<in> set (ps[cid := Some (p[unat (eid_idx i) := Some (Some x)])])" for q
  proof -
    have "Some q \<in> insert (Some (p[unat (eid_idx i) := Some (Some x)])) (insert None (set (pools m)))"
      using that set set_update_subset_insert [of ps cid "Some (p[unat (eid_idx i) := Some (Some x)])"] by blast
    then show ?thesis
      using p assms(1) by (auto simp: em_inv_def)
  qed
  ultimately show ?thesis
    using assms(1) by (auto simp: em_inv_def)
qed

section \<open>Components as a map\<close>

text \<open>What a client expects of a table it writes by key: a write is read back and touches nothing else.\<close>

locale slot_map =
  fixes inv :: "'s \<Rightarrow> bool"
    and dom_ok :: "'s \<Rightarrow> 'k \<Rightarrow> bool"
    and look :: "'s \<Rightarrow> 'k \<Rightarrow> 'v option"
    and put :: "'k \<Rightarrow> 'v \<Rightarrow> 's \<Rightarrow> 's result"
  assumes put_ok: "inv s \<Longrightarrow> dom_ok s k \<Longrightarrow>
    \<exists>s'. put k v s = Inr s' \<and> inv s' \<and> dom_ok s' = dom_ok s \<and> look s' = (look s)(k \<mapsto> v)"
begin

text \<open>A sequence of writes leaves, at every key, the last value written there.\<close>

fun put_all :: "('k \<times> 'v) list \<Rightarrow> 's \<Rightarrow> 's result" where
  "put_all [] s = Inr s"
| "put_all ((k, v) # kvs) s = bind_result (put k v s) (put_all kvs)"

lemma put_all_look:
  assumes "inv s" "\<forall>k \<in> fst ` set kvs. dom_ok s k"
  shows "\<exists>s'. put_all kvs s = Inr s' \<and> inv s' \<and> look s' = look s ++ map_of (rev kvs)"
  using assms
proof (induction kvs arbitrary: s)
  case (Cons kv kvs)
  obtain k v where kv: "kv = (k, v)" by fastforce
  obtain s1 where s1: "put k v s = Inr s1" "inv s1" "dom_ok s1 = dom_ok s" "look s1 = (look s)(k \<mapsto> v)"
    using put_ok [of s k v] Cons.prems kv by auto
  moreover obtain s' where "put_all kvs s1 = Inr s'" "inv s'" "look s' = look s1 ++ map_of (rev kvs)"
    using Cons.IH [OF s1(2)] Cons.prems s1(3) by auto
  moreover have "(look s)(k \<mapsto> v) ++ map_of (rev kvs) = look s ++ map_of (rev (kv # kvs))"
    using kv by (auto simp: fun_eq_iff map_add_def split: option.split)
  ultimately show ?case
    using kv by (intro exI [of _ s']) (simp only: put_all.simps bind_result_simps simp_thms)
qed simp

lemma put_twice:
  assumes "inv s" "dom_ok s k" "put k v s = Inr s1" "put k w s1 = Inr s2" "put k w s = Inr s3"
  shows "look s2 = look s3"
  using put_ok [OF assms(1,2), of v] put_ok [OF assms(1,2), of w] put_ok [of s1 k w] assms(2-5) by auto

end

text \<open>The component of type \<open>fst k\<close> at the index \<open>snd k\<close>.\<close>

definition comp_at :: "'c entity_mgr_t \<Rightarrow> nat \<times> u32 \<Rightarrow> 'c option" where
  "comp_at m k = (case em_component (fst k) (entity_id (snd k) 0) m of Inr c \<Rightarrow> c | Inl _ \<Rightarrow> None)"

definition index_ok :: "'c entity_mgr_t \<Rightarrow> nat \<times> u32 \<Rightarrow> bool" where
  "index_ok m k \<longleftrightarrow> unat (snd k) < unat (index_counter m)"

lemma em_component_idx: "eid_idx i = eid_idx j \<Longrightarrow> em_component cid i m = em_component cid j m"
  by (simp only: em_component_def)

lemma em_component_safe:
  assumes "em_inv m" "unat (eid_idx i) < unat (index_counter m)"
  shows "em_component cid i m = Inr (comp_at m (cid, eid_idx i))"
proof -
  have "length p = unat (index_counter m)" if "\<not> length (pools m) \<le> cid" "pools m ! cid = Some p" for p
    using that assms(1) nth_mem [of cid "pools m"] by (simp add: em_inv_def not_le)
  then show ?thesis
    using assms(2) by (auto simp: comp_at_def em_component_def split: option.split)
qed

lemma comp_at_add:
  assumes "em_inv m" "unat (eid_idx i) < unat (index_counter m)" "ent_add cid x i m = Inr m'"
  shows "comp_at m' = (comp_at m)((cid, eid_idx i) \<mapsto> x)"
proof
  fix k :: "nat \<times> u32"
  define ps where "ps = (if length (pools m) \<le> cid then vec_resize (cid + 1) None (pools m) else pools m)"
  define p where "p = (case ps ! cid of None \<Rightarrow> replicate (unat (index_counter m)) None | Some p \<Rightarrow> p)"
  have len: "cid < length ps"
    by (simp add: ps_def)
  have ps: "ps ! c = (if c < length (pools m) then pools m ! c else None)" if "c < length ps" for c
    using that by (auto simp: ps_def vec_resize_def nth_append)
  have lps: "length (pools m) \<le> length ps"
    by (simp add: ps_def)
  have k: "unat (eid_idx i) < length p" and m': "m' = m\<lparr>pools := ps[cid := Some (p[unat (eid_idx i) := Some (Some x)])]\<rparr>"
    using assms(3) by (auto simp: ent_add_def ps_def [symmetric] p_def [symmetric] Let_def split: if_splits)
  have lp: "length p = unat (index_counter m)"
    using assms(1) ps [OF len]
    by (auto simp: p_def em_inv_def split: option.split if_splits) (metis nth_mem)
  show "comp_at m' k = ((comp_at m)((cid, eid_idx i) \<mapsto> x)) k"
  proof (cases "fst k = cid")
    case True
    show ?thesis
    proof (cases "snd k = eid_idx i")
      case True
      with \<open>fst k = cid\<close> k len show ?thesis
        by (cases k) (simp add: comp_at_def em_component_def m' not_le)
    next
      case False
      then have "unat (snd k) \<noteq> unat (eid_idx i)" by (simp only: word_unat_eq_iff simp_thms)
      then show ?thesis
        using \<open>fst k = cid\<close> False len lp ps [OF len]
        by (cases k) (auto simp: comp_at_def em_component_def m' not_le p_def split: option.split if_splits)
    qed
  next
    case False
    then show ?thesis
      using ps [of "fst k"] lps
      by (cases k) (auto simp: comp_at_def em_component_def m' split: option.split if_splits)
  qed
qed

interpretation comps: slot_map em_inv index_ok comp_at "\<lambda>k x. ent_add (fst k) x (entity_id (snd k) 0)"
proof
  fix m :: "'a entity_mgr_t" and k :: "nat \<times> u32" and x
  assume inv: "em_inv m" and ok: "index_ok m k"
  then have ok': "unat (eid_idx (entity_id (snd k) 0)) < unat (index_counter m)"
    by (simp add: index_ok_def)
  obtain m' where m': "ent_add (fst k) x (entity_id (snd k) 0) m = Inr m'" "em_inv m'" "index_counter m' = index_counter m"
    using ent_add_ok [OF inv ok'] by blast
  moreover have "index_ok m' = index_ok m"
    using m'(3) by (auto simp: index_ok_def fun_eq_iff)
  ultimately show "\<exists>m'. ent_add (fst k) x (entity_id (snd k) 0) m = Inr m' \<and> em_inv m' \<and> index_ok m' = index_ok m \<and>
      comp_at m' = (comp_at m)(k \<mapsto> x)"
    using comp_at_add [OF inv ok' m'(1)] by simp
qed

section \<open>Clients of the store\<close>

text \<open>A client knows the ids that \<open>create\<close> gave it and names them by their position.\<close>

datatype 'c em_op = Em_create | Em_destroy nat | Em_add nat 'c nat

fun em_step :: "'c em_op \<Rightarrow> 'c entity_mgr_t \<times> entity_id_t list \<Rightarrow> ('c entity_mgr_t \<times> entity_id_t list) result" where
  "em_step Em_create (m, ids) = bind_result (em_create m) (\<lambda>(i, m'). Inr (m', ids @ [i]))"
| "em_step (Em_destroy n) (m, ids) =
     (if n < length ids then bind_result (em_destroy (ids ! n) m) (\<lambda>m'. Inr (m', ids)) else Inr (m, ids))"
| "em_step (Em_add cid x n) (m, ids) =
     (if n < length ids then bind_result (ent_add cid x (ids ! n) m) (\<lambda>m'. Inr (m', ids)) else Inr (m, ids))"

fun em_run :: "'c em_op list \<Rightarrow> 'c entity_mgr_t \<times> entity_id_t list \<Rightarrow> ('c entity_mgr_t \<times> entity_id_t list) result" where
  "em_run [] s = Inr s"
| "em_run (op # ops) s = bind_result (em_step op s) (em_run ops)"

text \<open>After \<open>n\<close> operations: the version of an index is at least that of every id handed out for it,
  and larger when the index is free; no version has wrapped around.\<close>

definition id_ok :: "'c entity_mgr_t \<Rightarrow> entity_id_t \<Rightarrow> bool" where
  "id_ok m i \<longleftrightarrow> unat (eid_idx i) < unat (index_counter m) \<and>
     unat (eid_ver i) \<le> unat (entity_version m ! unat (eid_idx i)) \<and>
     (eid_idx i \<in> set (free_list m) \<longrightarrow> unat (eid_ver i) < unat (entity_version m ! unat (eid_idx i)))"

definition versions_ok :: "nat \<Rightarrow> 'c entity_mgr_t \<Rightarrow> bool" where
  "versions_ok n m \<longleftrightarrow> unat (index_counter m) \<le> n \<and>
     (\<forall>k < unat (index_counter m). unat (entity_version m ! k) \<le> n)"

definition em_hist :: "nat \<Rightarrow> 'c entity_mgr_t \<times> entity_id_t list \<Rightarrow> bool" where
  "em_hist n s \<longleftrightarrow>
     em_inv (fst s) \<and> distinct (snd s) \<and> versions_ok n (fst s) \<and> (\<forall>i \<in> set (snd s). id_ok (fst s) i)"

lemma em_hist_weaken: "em_hist n s \<Longrightarrow> em_hist (Suc n) s"
  by (force simp: em_hist_def versions_ok_def)

lemma em_hist_create_fresh:
  assumes "em_hist n (m, ids)" "n + 1 < 2 ^ 32" "free_list m = []"
  shows "\<exists>i m'. em_create m = Inr (i, m') \<and> em_hist (Suc n) (m', ids @ [i])"
proof -
  have inv: "em_inv m" and c: "unat (index_counter m) + 1 < 2 ^ 32" and len: "length (entity_version m) = unat (index_counter m)"
    using assms by (auto simp: em_hist_def versions_ok_def em_inv_def)
  let ?i = "entity_id (index_counter m) 1"
  define m' where "m' = m\<lparr>index_counter := index_counter m + 1, pools := map (map_option (\<lambda>p. p @ [None])) (pools m),
       entity_version := entity_version m @ [1]\<rparr>"
  have create: "em_create m = Inr (?i, m')"
    unfolding m'_def by (rule em_create_fresh [OF inv assms(3) c])
  have c': "unat (index_counter m') = Suc (unat (index_counter m))" "free_list m' = []"
    using c assms(3) by (simp_all add: m'_def unat_word_ariths)
  have v: "entity_version m' ! k = (if k < unat (index_counter m) then entity_version m ! k else 1)"
    if "k < unat (index_counter m')" for k
    using that c' len by (auto simp: m'_def nth_append)
  have "id_ok m' j" if "id_ok m j" for j
    using that v [of "unat (eid_idx j)"] c' by (auto simp: id_ok_def)
  moreover have "id_ok m' ?i" "?i \<notin> set ids" "versions_ok (Suc n) m'"
    using v c' assms(1) by (auto simp: id_ok_def em_hist_def versions_ok_def)
  ultimately show ?thesis
    using create assms(1) em_inv_create [OF inv create c] by (auto simp: em_hist_def)
qed

lemma em_hist_create_reuse:
  assumes "em_hist n (m, ids)" "free_list m \<noteq> []"
  shows "\<exists>i m'. em_create m = Inr (i, m') \<and> em_hist (Suc n) (m', ids @ [i])"
proof -
  let ?k = "last (free_list m)"
  let ?i = "entity_id ?k (entity_version m ! unat ?k)"
  have inv: "em_inv m"
    using assms by (simp add: em_hist_def)
  define m' where "m' = m\<lparr>free_list := butlast (free_list m)\<rparr>"
  have create: "em_create m = Inr (?i, m')"
    unfolding m'_def by (rule em_create_reuse [OF inv assms(2)])
  have "distinct (butlast (free_list m) @ [?k])"
    unfolding append_butlast_last_id [OF assms(2)] using inv by (simp add: em_inv_def)
  then have "?k \<notin> set (butlast (free_list m))"
    by (simp del: append_butlast_last_id)
  then have k: "?k \<in> set (free_list m)" "?k \<notin> set (butlast (free_list m))" "unat ?k < unat (index_counter m)"
    using assms(2) inv by (simp_all add: em_inv_def)
  have "?i \<notin> set ids"
    using assms(1) k(1) by (auto simp: em_hist_def id_ok_def)
  moreover have "em_inv m'"
    using inv by (auto simp: m'_def em_inv_def distinct_butlast dest: in_set_butlastD)
  moreover have "id_ok m' ?i" "\<And>j. id_ok m j \<Longrightarrow> id_ok m' j" "versions_ok (Suc n) m'"
    using k assms(1) by (auto simp: m'_def id_ok_def em_hist_def versions_ok_def le_Suc_eq dest: in_set_butlastD)
  ultimately show ?thesis
    using assms(1) create by (auto simp: em_hist_def)
qed

lemma em_hist_destroy:
  assumes "em_hist n (m, ids)" "n + 1 < 2 ^ 32" "i \<in> set ids"
  shows "\<exists>m'. em_destroy i m = Inr m' \<and> em_hist (Suc n) (m', ids)"
proof (cases "em_check i m")
  case False
  then show ?thesis
    using em_destroy_stale em_hist_weaken [OF assms(1)] by blast
next
  case True
  have inv: "em_inv m" and v: "entity_version m ! unat (eid_idx i) = eid_ver i" "unat (eid_idx i) < unat (index_counter m)"
    using assms(1) True by (auto simp: em_hist_def em_check_def em_inv_def)
  have free: "eid_idx i \<notin> set (free_list m)"
    using assms(1,3) v(1) by (auto simp: em_hist_def id_ok_def)
  have "unat (eid_ver i) \<le> n"
    using assms(1) v by (auto simp: em_hist_def versions_ok_def)
  then have ver: "unat (eid_ver i + 1) = Suc (unat (eid_ver i))" "unat (eid_ver i) \<le> n"
    using assms(2) by (simp_all add: unat_word_ariths)
  obtain m' where m': "em_destroy i m = Inr m'" "em_inv m'" "index_counter m' = index_counter m"
    "free_list m' = free_list m @ [eid_idx i]" "entity_version m' = (entity_version m)[unat (eid_idx i) := eid_ver i + 1]"
    using em_inv_destroy [OF inv True free] em_destroy_valid [OF inv True] by auto
  have "length (entity_version m) = unat (index_counter m)"
    using inv by (simp add: em_inv_def)
  then have nth: "entity_version m' ! k = (if k = unat (eid_idx i) then eid_ver i + 1 else entity_version m ! k)"
    if "k < unat (index_counter m)" for k
    using that m'(5) by simp
  have "id_ok m' j" if "id_ok m j" for j
  proof (cases "eid_idx j = eid_idx i")
    case True
    then show ?thesis using that nth [of "unat (eid_idx j)"] m'(3) v ver by (simp add: id_ok_def)
  next
    case False
    then have "unat (eid_idx j) \<noteq> unat (eid_idx i)" by (simp only: word_unat_eq_iff simp_thms)
    then show ?thesis using that nth [of "unat (eid_idx j)"] m'(3,4) False by (simp add: id_ok_def)
  qed
  moreover have "versions_ok (Suc n) m'"
    using assms(1) nth m'(3) ver by (auto simp: em_hist_def versions_ok_def le_Suc_eq)
  ultimately show ?thesis
    using m'(1,2) assms(1) by (auto simp: em_hist_def)
qed

lemma em_hist_step:
  assumes "em_hist n (m, ids)" "n + 1 < 2 ^ 32"
  shows "\<exists>s'. em_step op (m, ids) = Inr s' \<and> em_hist (Suc n) s'"
proof (cases op)
  case Em_create
  then show ?thesis
    using em_hist_create_fresh [OF assms] em_hist_create_reuse [OF assms(1)] by (cases "free_list m = []") auto
next
  case (Em_destroy k)
  then show ?thesis
    using em_hist_destroy [OF assms, of "ids ! k"] em_hist_weaken [OF assms(1)] by auto
next
  case (Em_add cid x k)
  show ?thesis
  proof (cases "k < length ids")
    case True
    then have "unat (eid_idx (ids ! k)) < unat (index_counter m)" "em_inv m"
      using assms(1) by (auto simp: em_hist_def id_ok_def)
    from ent_add_ok [OF this(2,1)] obtain m' where "ent_add cid x (ids ! k) m = Inr m'" "em_inv m'"
      "entity_version m' = entity_version m" "free_list m' = free_list m" "index_counter m' = index_counter m"
      by blast
    moreover from this have "em_hist (Suc n) (m', ids)"
      using em_hist_weaken [OF assms(1)] by (simp add: em_hist_def versions_ok_def id_ok_def)
    ultimately show ?thesis using Em_add True by simp
  qed (use Em_add em_hist_weaken [OF assms(1)] in simp)
qed

lemma em_hist_run:
  assumes "em_hist n s" "n + length ops < 2 ^ 32"
  shows "\<exists>s'. em_run ops s = Inr s' \<and> em_hist (n + length ops) s'"
  using assms
proof (induction ops arbitrary: n s)
  case (Cons op ops)
  obtain s1 where "em_step op s = Inr s1" "em_hist (Suc n) s1"
    using em_hist_step [of n "fst s" "snd s" op] Cons.prems by auto
  with Cons.IH [of "Suc n" s1] Cons.prems(2) show ?case by simp
qed simp

lemma em_hist_new: "em_hist 0 (mgr_new, [])"
  by (simp add: em_hist_def versions_ok_def) (simp add: mgr_new_def)

section \<open>Properties\<close>

text \<open>C29. Clients that work with the ids the store gave them never reach outside a vector, and no id
  is handed out twice: for fewer than \<open>2 ^ 32\<close> operations every run of \<open>create\<close>, \<open>destroy\<close> and
  \<open>add\<close>, stale ids included, succeeds, keeps the invariant, and the ids created are distinct.\<close>

theorem entity_ids_unique:
  assumes "length ops < 2 ^ 32"
  shows "\<exists>m ids. em_run ops (mgr_new, []) = Inr (m, ids) \<and> em_inv m \<and> distinct ids"
  using em_hist_run [OF em_hist_new, of ops] assms by (auto simp: em_hist_def)

theorem entity_ids_unique_witness:
  "\<exists>m ids. em_run [Em_create, Em_add 3 True 0, Em_destroy 0, Em_create, Em_destroy 0, Em_create] (mgr_new, []) = Inr (m, ids) \<and>
     em_inv m \<and> distinct ids"
  by (rule entity_ids_unique) simp

text \<open>Destroying a valid entity makes its id invalid, clears its components of every type and
  nobody else's, and leaves every other id as valid as it was.\<close>

theorem destroy_invalidates:
  assumes "em_inv m" "em_check i m"
  shows "\<exists>m'. em_destroy i m = Inr m' \<and> \<not> em_check i m' \<and> em_component cid i m' = Inr None \<and>
     (eid_idx j = eid_idx i \<or> em_check j m' = em_check j m \<and> em_component cid j m' = em_component cid j m)"
proof -
  let ?k = "unat (eid_idx i)"
  obtain m' where m': "em_destroy i m = Inr m'"
    "entity_version m' = (entity_version m)[?k := eid_ver i + 1]"
    "pools m' = map (map_option (\<lambda>p. p[?k := None])) (pools m)"
    using em_destroy_valid [OF assms] by auto
  have k: "?k < length (entity_version m)" and pools: "\<And>p. Some p \<in> set (pools m) \<Longrightarrow> ?k < length p"
    using assms by (auto simp: em_check_def em_inv_def)
  have len: "pools m ! cid = Some p \<Longrightarrow> \<not> length (pools m) \<le> cid \<Longrightarrow> ?k < length p" for p
    by (metis pools nth_mem not_le)
  have "\<not> em_check i m'"
    using k m'(2) by (simp add: em_check_def)
  moreover have "em_component cid i m' = Inr None"
    using len m'(3) by (auto simp: em_component_def split: option.split)
  moreover have "em_check j m' = em_check j m \<and> em_component cid j m' = em_component cid j m" if "eid_idx j \<noteq> eid_idx i"
  proof
    have ne: "unat (eid_idx j) \<noteq> ?k"
      using that by (simp only: word_unat_eq_iff simp_thms)
    then show "em_check j m' = em_check j m"
      using m'(2) by (simp add: em_check_def)
    show "em_component cid j m' = em_component cid j m"
      using ne m'(3) by (auto simp: em_component_def split: option.split)
  qed
  ultimately show ?thesis using m'(1) by blast
qed

text \<open>A component that was added is read back, and no other component of any entity changes.\<close>

theorem component_after_add:
  assumes "em_inv m" "em_check i m" "em_check j m"
  shows "\<exists>m'. ent_add cid x i m = Inr m' \<and>
     em_component cid' j m' = (if cid' = cid \<and> eid_idx j = eid_idx i then Inr (Some x) else em_component cid' j m)"
proof -
  have k: "unat (eid_idx i) < unat (index_counter m)" "unat (eid_idx j) < unat (index_counter m)"
    using assms by (auto simp: em_check_def em_inv_def)
  obtain m' where m': "ent_add cid x i m = Inr m'" "em_inv m'" "index_counter m' = index_counter m"
    using ent_add_ok [OF assms(1) k(1)] by blast
  show ?thesis
    using m' k em_component_safe [OF assms(1) k(2)] em_component_safe [OF m'(2), of j]
      comp_at_add [OF assms(1) k(1) m'(1)]
    by auto
qed

definition one_entity :: "bool entity_mgr_t" where
  "one_entity = \<lparr>index_counter = 1, free_list = [], pools = [], entity_version = [1]\<rparr>"

lemma one_entity_inv: "em_inv one_entity" "em_check (entity_id 0 1) one_entity"
  by (simp_all add: em_inv_def em_check_def one_entity_def)

theorem destroy_invalidates_witness:
  "\<exists>m'. em_destroy (entity_id 0 1) one_entity = Inr m' \<and> \<not> em_check (entity_id 0 1) m'"
  using destroy_invalidates [OF one_entity_inv] by blast

theorem component_after_add_witness:
  "\<exists>m'. ent_add 2 True (entity_id 0 1) one_entity = Inr m' \<and> em_component 2 (entity_id 0 1) m' = Inr (Some True)"
  using component_after_add [OF one_entity_inv one_entity_inv(2), of 2 True 2] by simp

text \<open>The version of an id plays no role in \<open>component\<close> and \<open>add\<close>: an entity that was destroyed
  reads and overwrites the components of the entity that got its index.\<close>

theorem stale_id_reaches_components:
  assumes "eid_idx i = eid_idx j"
  shows "em_component cid i m = em_component cid j m \<and> ent_add cid x i m = ent_add cid x j m"
  using assms by (simp only: em_component_def ent_add_def)

theorem stale_id_reaches_components_witness:
  "em_component 0 (entity_id 0 1) one_entity = em_component 0 (entity_id 0 2) one_entity"
  using stale_id_reaches_components [of "entity_id 0 1" "entity_id 0 2" 0 one_entity True] by simp

lemma has_components_eq:
  assumes "em_inv m" "em_check i m" "\<forall>cid \<in> set cids. cid < length (pools m)"
  shows "has_components cids (unat (eid_idx i)) m = Inr (\<forall>cid \<in> set cids. em_component cid i m \<noteq> Inr None)"
  using assms(3)
proof (induction cids)
  case (Cons cid cids)
  have k: "unat (eid_idx i) < unat (index_counter m)"
    using assms(1,2) by (auto simp: em_check_def em_inv_def)
  have "length p = unat (index_counter m)" if "pools m ! cid = Some p" for p
    using that Cons.prems assms(1) nth_mem [of cid "pools m"] by (simp add: em_inv_def)
  then show ?case
    using Cons k by (auto simp: em_component_def split: option.split)
qed simp

text \<open>\<open>entities_with_components\<close> returns exactly the valid entities that have all the components,
  in the order of the input, provided every component type has a place in \<open>pools_\<close>.\<close>

theorem entities_with_components_filter:
  assumes "em_inv m" "\<forall>cid \<in> set cids. cid < length (pools m)"
  shows "entities_with_components cids ids m =
     Inr (filter (\<lambda>i. em_check i m \<and> (\<forall>cid \<in> set cids. em_component cid i m \<noteq> Inr None)) ids)"
  by (induction ids) (simp_all add: has_components_eq [OF assms(1) _ assms(2)])

text \<open>It reads outside \<open>pools_\<close> as soon as one of the entities is valid and no component of the
  first type, nor of one with a larger number, was ever added.\<close>

theorem entities_with_components_unused_type:
  assumes "i \<in> set ids" "em_check i m" "length (pools m) \<le> cid"
  shows "entities_with_components (cid # cids) ids m = Inl Bad_Access"
  using assms by (induction ids) auto

theorem entities_with_components_filter_witness:
  "entities_with_components [0] [entity_id 0 1, entity_id 5 1] (one_entity\<lparr>pools := [Some [Some (Some True)]]\<rparr>) = Inr [entity_id 0 1]"
proof -
  have "em_inv (one_entity\<lparr>pools := [Some [Some (Some True)]]\<rparr>)" by (simp add: em_inv_def one_entity_def)
  from entities_with_components_filter [OF this, of "[0]" "[entity_id 0 1, entity_id 5 1]"] show ?thesis
    by (simp add: em_check_def em_component_def one_entity_def)
qed

theorem entities_with_components_unused_type_witness:
  "entities_with_components [0] [entity_id 0 1] one_entity = Inl Bad_Access"
  by (rule entities_with_components_unused_type [of "entity_id 0 1"]) (use one_entity_inv in \<open>simp_all add: one_entity_def\<close>)

end
