(* ===== verification/Game_Login.thy ===== *)
theory Game_Login
  imports Game_Msg "HOL-Library.AList"
begin

text \<open>
  \<open>example/game_demo.h\<close> and \<open>example/game_demo.cpp\<close>: the login protocol of the game demo. The gate
  keeps the connections of the web socket server, the world keeps who is logged in, the game keeps
  the players. A handler is a function on the state of its context; what it sends with
  \<open>dispatch_pack\<close> is a list of outputs. \<open>co_login\<close> waits for the world in the middle: the lock of
  the gate is free meanwhile, so it is split there. An \<open>unordered_map\<close> is an association list with
  distinct keys, in its iteration order. Decoding of client packets is msgpack: its results are
  arguments. Logging is left out.
\<close>

section \<open>Messages\<close>

datatype gate_msg_type_t = Ws_start | Ws_msg | Ws_stop | Gm_write | Gm_close | Gm_broad

definition gate_msg_number :: "gate_msg_type_t \<Rightarrow> u8" where
  "gate_msg_number t = (case t of Ws_start \<Rightarrow> 1 | Ws_msg \<Rightarrow> 2 | Ws_stop \<Rightarrow> 3 | Gm_write \<Rightarrow> 4 | Gm_close \<Rightarrow> 5 | Gm_broad \<Rightarrow> 6)"

datatype demo_out =
    Out_ctx u32 gate_msg_type_t u64 "client_msg option"   \<comment> \<open>\<open>dispatch_pack(id, t, connid, ...)\<close>\<close>
  | Out_gate_close u64                                    \<comment> \<open>\<open>dispatch_pack(".gate", close, connid)\<close>\<close>
  | Out_gate_online u16 "string list"                     \<comment> \<open>\<open>broad_notify(MsgOnline)\<close>\<close>

text \<open>What \<open>unpack\<close> of a message buffer yields; a shape a handler does not expect makes \<open>unpack\<close>
  throw, and the handlers swallow that.\<close>

datatype payload = Pl_conn u64 | Pl_conn_data u64 string | Pl_data string

section \<open>The gate\<close>

record gate_player =
  gp_login :: bool
  gp_from :: u32
  gp_connid :: u64
  gp_send_sign :: u32
  gp_recv_sign :: u32

record gate_t =
  conn_alloc :: u64
  gt_players :: "(u64 \<times> gate_player) list"
  world_id :: u32
  game_id :: u32

definition nVerMax :: u32 where "nVerMax = 8"

definition nVerMin :: u32 where "nVerMin = 0"

definition rpc_get_allocid :: "gate_t \<Rightarrow> u64 \<times> gate_t" where
  "rpc_get_allocid g = (conn_alloc g + 1, g\<lparr>conn_alloc := conn_alloc g + 1\<rparr>)"

text \<open>\<open>write_rsp(connid, arg)\<close>: \<open>mk\<close> is the packet as a function of \<open>arg.head.sn\<close>.\<close>

definition write_rsp :: "u64 \<Rightarrow> (u32 \<Rightarrow> client_msg) \<Rightarrow> gate_t \<Rightarrow> gate_t \<times> demo_out list" where
  "write_rsp connid mk g =
     (case map_of (gt_players g) connid of
        None \<Rightarrow> (g, [])
      | Some p \<Rightarrow>
          let sn = gp_recv_sign p + 1
          in (g\<lparr>gt_players := AList.update connid (p\<lparr>gp_recv_sign := sn\<rparr>) (gt_players g)\<rparr>,
              [Out_ctx (gp_from p) Gm_write connid (Some (mk sn))]))"

definition close_con :: "u64 \<Rightarrow> gate_t \<Rightarrow> demo_out list" where
  "close_con connid g =
     (case map_of (gt_players g) connid of
        None \<Rightarrow> []
      | Some p \<Rightarrow> [Out_ctx (gp_from p) Gm_close connid None])"

definition on_conn_start :: "u32 \<Rightarrow> u64 \<Rightarrow> gate_t \<Rightarrow> gate_t" where
  "on_conn_start from connid g =
     g\<lparr>gt_players := AList.update connid
         \<lparr>gp_login = False, gp_from = from, gp_connid = connid, gp_send_sign = 0, gp_recv_sign = 0\<rparr> (gt_players g)\<rparr>"

text \<open>\<open>players[connid]\<close> may add an entry; it is erased at the end in any case.\<close>

definition on_conn_stop :: "u64 \<Rightarrow> gate_t \<Rightarrow> gate_t \<times> demo_out list" where
  "on_conn_stop connid g =
     (g\<lparr>gt_players := AList.delete connid (gt_players g)\<rparr>,
      [Out_ctx (world_id g) Gm_close connid None, Out_ctx (game_id g) Gm_close connid None])"

text \<open>\<open>on_msg\<close>: connection events become tasks for \<open>async_call\<close>, writes and broadcasts are relayed to
  the clients.\<close>

datatype gate_task = Task_start u32 payload | Task_msg payload | Task_stop payload

definition relay :: "u32 \<Rightarrow> u64 \<Rightarrow> string \<Rightarrow> gate_t \<Rightarrow> gate_t \<times> demo_out list" where
  "relay from connid str g =
     (if from = world_id g then write_rsp connid (From_world str) g
      else if from = game_id g then write_rsp connid (From_game str) g
      else (g, []))"

fun relay_all :: "u32 \<Rightarrow> u64 list \<Rightarrow> string \<Rightarrow> gate_t \<Rightarrow> gate_t \<times> demo_out list" where
  "relay_all from [] str g = (g, [])"
| "relay_all from (c # cs) str g =
     (case relay from c str g of (g1, o1) \<Rightarrow> case relay_all from cs str g1 of (g2, o2) \<Rightarrow> (g2, o1 @ o2))"

definition gate_on_msg ::
  "u32 \<Rightarrow> gate_msg_type_t \<Rightarrow> payload \<Rightarrow> gate_t \<Rightarrow> gate_task list \<times> gate_t \<times> demo_out list" where
  "gate_on_msg from t pl g =
     (case t of
        Ws_start \<Rightarrow> ([Task_start from pl], g, [])
      | Ws_msg \<Rightarrow> ([Task_msg pl], g, [])
      | Ws_stop \<Rightarrow> ([Task_stop pl], g, [])
      | Gm_write \<Rightarrow> (case pl of Pl_conn_data connid str \<Rightarrow> ([], relay from connid str g) | _ \<Rightarrow> ([], g, []))
      | Gm_broad \<Rightarrow> (case pl of Pl_data str \<Rightarrow> ([], relay_all from (map fst (gt_players g)) str g) | _ \<Rightarrow> ([], g, []))
      | Gm_close \<Rightarrow> ([], g, []))"

subsection \<open>Login\<close>

text \<open>How far \<open>co_login\<close> gets before it waits: it is finished, or it calls \<open>player_login\<close>.\<close>

datatype login_step = Login_finished | Login_ask_world u64 string

text \<open>\<open>sn\<close> is the sequence number of the head, \<open>login\<close> the decoded packet (name and version).\<close>

definition co_login_begin ::
  "u64 \<Rightarrow> u32 \<Rightarrow> (string \<times> u32) result \<Rightarrow> gate_t \<Rightarrow> login_step result \<times> gate_t \<times> demo_out list" where
  "co_login_begin connid sn login g =
     (case map_of (gt_players g) connid of
        None \<Rightarrow> (Inl Out_Of_Range, g, [])
      | Some p \<Rightarrow>
          if gp_login p then (Inr Login_finished, write_rsp connid (Login_rsp Login_Ok []) g)
          else
            let sign = gp_send_sign p + 1;
                g1 = g\<lparr>gt_players := AList.update connid (p\<lparr>gp_send_sign := sign\<rparr>) (gt_players g)\<rparr>
            in if sign \<noteq> sn then (Inr Login_finished, g1, close_con connid g1)
               else case login of
                      Inl e \<Rightarrow> (Inl e, g1, [])
                    | Inr (name, uVer) \<Rightarrow>
                        if uVer < nVerMin \<or> uVer > nVerMax then
                          (case write_rsp connid (Login_rsp Login_VerionErr []) g1 of
                             (g2, outs) \<Rightarrow> (Inr Login_finished, g2, outs @ close_con connid g2))
                        else (Inr (Login_ask_world connid name), g1, []))"

text \<open>After the answer of the world (\<open>r.as<MsgLoginResponce>()\<close>, which throws when the call failed).
  The reference \<open>p\<close> was taken before the wait: using it after the entry was erased is
  \<open>Bad_Access\<close>. The flag of the result tells whether \<open>add_player\<close> is called.\<close>

definition co_login_end ::
  "u64 \<Rightarrow> (login_error \<times> string) result \<Rightarrow> gate_t \<Rightarrow> bool result \<times> gate_t \<times> demo_out list" where
  "co_login_end connid rsp g =
     (case rsp of
        Inl e \<Rightarrow> (Inl e, g, [])
      | Inr (err, tip) \<Rightarrow>
          (case write_rsp connid (Login_rsp err tip) g of
             (g1, outs) \<Rightarrow>
               if err = Login_Ok then
                 (case map_of (gt_players g1) connid of
                    None \<Rightarrow> (Inl Bad_Access, g1, outs)
                  | Some p \<Rightarrow>
                      (Inr True, g1\<lparr>gt_players := AList.update connid (p\<lparr>gp_login := True\<rparr>) (gt_players g1)\<rparr>, outs))
               else (Inr False, g1, outs @ close_con connid g1)))"

section \<open>The world\<close>

record world_t =
  logins :: "(u64 \<times> string) list"
  name2conid :: "(string \<times> u64) list"

definition rpc_player_login :: "u64 \<Rightarrow> string \<Rightarrow> world_t \<Rightarrow> login_error \<times> world_t \<times> demo_out list" where
  "rpc_player_login connid name w =
     (let (names, kicked) =
        (case map_of (name2conid w) name of
           Some old \<Rightarrow> (AList.delete name (name2conid w), [Out_gate_close old])
         | None \<Rightarrow> (name2conid w, []));
          w1 = w\<lparr>name2conid := AList.update name connid names, logins := AList.update connid name (logins w)\<rparr>
      in (Login_Ok, w1, kicked @ [Out_gate_online (word_of_nat (length (logins w1))) (map snd (logins w1))]))"

definition world_on_msg :: "gate_msg_type_t \<Rightarrow> payload \<Rightarrow> world_t \<Rightarrow> world_t" where
  "world_on_msg t pl w =
     (if t \<noteq> Gm_close then w
      else case pl of
             Pl_conn connid \<Rightarrow>
               (case map_of (logins w) connid of
                  None \<Rightarrow> w
                | Some name \<Rightarrow>
                    w\<lparr>name2conid := AList.delete name (name2conid w), logins := AList.delete connid (logins w)\<rparr>)
           | _ \<Rightarrow> w)"

section \<open>The game\<close>

record game_t =
  gm_players :: "(u64 \<times> string) list"
  name2id :: "(string \<times> u64) list"

definition get_player_connid :: "string \<Rightarrow> game_t \<Rightarrow> u64" where
  "get_player_connid name g = (case map_of (name2id g) name of Some c \<Rightarrow> c | None \<Rightarrow> 0)"

definition rpc_add_player :: "u64 \<Rightarrow> string \<Rightarrow> game_t \<Rightarrow> game_t" where
  "rpc_add_player connid name g =
     (let g1 = (case map_of (name2id g) name of
                  Some old \<Rightarrow> g\<lparr>gm_players := AList.delete old (gm_players g), name2id := AList.delete name (name2id g)\<rparr>
                | None \<Rightarrow> g)
      in g1\<lparr>gm_players := AList.update connid name (gm_players g1), name2id := AList.update name connid (name2id g1)\<rparr>)"

definition game_on_msg :: "gate_msg_type_t \<Rightarrow> payload \<Rightarrow> game_t \<Rightarrow> game_t" where
  "game_on_msg t pl g =
     (if t \<noteq> Gm_close then g
      else case pl of
             Pl_conn connid \<Rightarrow>
               (case map_of (gm_players g) connid of
                  None \<Rightarrow> g
                | Some name \<Rightarrow>
                    g\<lparr>name2id := AList.delete name (name2id g), gm_players := AList.delete connid (gm_players g)\<rparr>)
           | _ \<Rightarrow> g)"

section \<open>A packet from a client\<close>

text \<open>\<open>on_conn_msg\<close> up to its first wait. \<open>head\<close> is the decoded head (whether its id is \<open>Login\<close>, and
  \<open>sn\<close>). A \<open>std::exception\<close> closes the connection; undefined behaviour is not caught.\<close>

datatype conn_next = Next_done | Next_world u64 string | Next_game u64 | Next_broken cpp_error

definition std_exception :: "cpp_error \<Rightarrow> bool" where
  "std_exception e \<longleftrightarrow> (case e of Runtime_Error _ \<Rightarrow> True | Out_Of_Range \<Rightarrow> True | _ \<Rightarrow> False)"

definition conn_catch :: "u64 \<Rightarrow> cpp_error \<Rightarrow> gate_t \<Rightarrow> demo_out list \<Rightarrow> conn_next \<times> gate_t \<times> demo_out list" where
  "conn_catch connid e g outs =
     (if std_exception e then (Next_done, g, outs @ close_con connid g) else (Next_broken e, g, outs))"

definition on_conn_msg ::
  "u64 \<Rightarrow> (bool \<times> u32) result \<Rightarrow> (string \<times> u32) result \<Rightarrow> gate_t \<Rightarrow> conn_next \<times> gate_t \<times> demo_out list" where
  "on_conn_msg connid head login g =
     (case head of
        Inl e \<Rightarrow> conn_catch connid e g []
      | Inr (is_login, sn) \<Rightarrow>
          if is_login then
            (case co_login_begin connid sn login g of
               (Inl e, g1, outs) \<Rightarrow> conn_catch connid e g1 outs
             | (Inr Login_finished, g1, outs) \<Rightarrow> (Next_done, g1, outs)
             | (Inr (Login_ask_world c name), g1, outs) \<Rightarrow> (Next_world c name, g1, outs))
          else (Next_game connid, g, []))"

text \<open>The task that \<open>on_msg\<close> starts for a connection event; \<open>head\<close> and \<open>login\<close> decode its packet.\<close>

definition gate_task_run ::
  "(string \<Rightarrow> (bool \<times> u32) result) \<Rightarrow> (string \<Rightarrow> (string \<times> u32) result) \<Rightarrow> gate_task \<Rightarrow> gate_t \<Rightarrow>
   conn_next \<times> gate_t \<times> demo_out list" where
  "gate_task_run head login task g =
     (case task of
        Task_start from (Pl_conn connid) \<Rightarrow> (Next_done, on_conn_start from connid g, [])
      | Task_msg (Pl_conn_data connid data) \<Rightarrow> on_conn_msg connid (head data) (login data) g
      | Task_stop (Pl_conn connid) \<Rightarrow> (Next_done, on_conn_stop connid g)
      | _ \<Rightarrow> (Next_done, g, []))"

section \<open>Tables in both directions\<close>

text \<open>A pair of tables that are inverse to each other, as the game keeps them for its players.\<close>

definition inverse_tables :: "('a \<rightharpoonup> 'b) \<Rightarrow> ('b \<rightharpoonup> 'a) \<Rightarrow> bool" where
  "inverse_tables f g \<longleftrightarrow> (\<forall>a b. f a = Some b \<longleftrightarrow> g b = Some a)"

lemma inverse_tables_sym: "inverse_tables f g \<longleftrightarrow> inverse_tables g f"
  by (auto simp: inverse_tables_def)

lemma inverse_tables_remove:
  "inverse_tables f g \<Longrightarrow> f a = Some b \<Longrightarrow> inverse_tables (f(a := None)) (g(b := None))"
  unfolding inverse_tables_def by (auto, (metis option.inject)+)

lemma inverse_tables_insert:
  "inverse_tables f g \<Longrightarrow> f a = None \<Longrightarrow> g b = None \<Longrightarrow> inverse_tables (f(a \<mapsto> b)) (g(b \<mapsto> a))"
  unfolding inverse_tables_def by (auto, (metis option.distinct(1))+)

definition game_inv :: "game_t \<Rightarrow> bool" where
  "game_inv g \<longleftrightarrow> inverse_tables (map_of (gm_players g)) (map_of (name2id g))"

lemma add_player_tables:
  assumes "game_inv g" "map_of (gm_players g) connid = None"
  shows "game_inv (rpc_add_player connid name g)"
    "map_of (name2id (rpc_add_player connid name g)) = (map_of (name2id g))(name \<mapsto> connid)"
    "map_of (gm_players (rpc_add_player connid name g)) =
       (\<lambda>c. if c = connid then Some name else if map_of (name2id g) name = Some c then None else map_of (gm_players g) c)"
proof -
  show "map_of (name2id (rpc_add_player connid name g)) = (map_of (name2id g))(name \<mapsto> connid)"
    by (simp add: rpc_add_player_def update_conv' delete_conv' Let_def split: option.split)
  show "map_of (gm_players (rpc_add_player connid name g)) =
       (\<lambda>c. if c = connid then Some name else if map_of (name2id g) name = Some c then None else map_of (gm_players g) c)"
    by (auto simp: rpc_add_player_def update_conv' delete_conv' Let_def fun_eq_iff split: option.split)
  show "game_inv (rpc_add_player connid name g)"
  proof (cases "map_of (name2id g) name")
    case None
    with assms show ?thesis
      by (simp add: game_inv_def rpc_add_player_def update_conv' inverse_tables_insert)
  next
    case (Some old)
    let ?f = "(map_of (gm_players g))(old := None)" and ?h = "(map_of (name2id g))(name := None)"
    have "inverse_tables ?f ?h"
      using assms(1) Some inverse_tables_remove [of "map_of (name2id g)" "map_of (gm_players g)" name old]
      unfolding game_inv_def by (metis inverse_tables_sym)
    then have "inverse_tables (?f(connid \<mapsto> name)) (?h(name \<mapsto> connid))"
      by (rule inverse_tables_insert) (use assms(2) in simp_all)
    then show ?thesis
      using Some by (simp add: game_inv_def rpc_add_player_def update_conv' delete_conv')
  qed
qed

lemma game_inv_on_msg: "game_inv g \<Longrightarrow> game_inv (game_on_msg t pl g)"
  by (auto simp: game_inv_def game_on_msg_def delete_conv' inverse_tables_remove split: payload.split option.split)

lemma players_on_msg: "map_of (gm_players (game_on_msg t pl g)) c = Some n \<Longrightarrow> map_of (gm_players g) c = Some n"
  by (auto simp: game_on_msg_def delete_conv' split: payload.splits option.splits if_splits)

datatype game_ev = Add_player u64 string | Game_msg gate_msg_type_t payload

fun game_step :: "game_t \<Rightarrow> game_ev \<Rightarrow> game_t" where
  "game_step g (Add_player connid name) = rpc_add_player connid name g"
| "game_step g (Game_msg t pl) = game_on_msg t pl g"

definition added :: "game_ev list \<Rightarrow> u64 list" where
  "added evs = concat (map (\<lambda>e. case e of Add_player c n \<Rightarrow> [c] | _ \<Rightarrow> []) evs)"

lemma added_snoc: "added (evs @ [e]) = added evs @ (case e of Add_player c n \<Rightarrow> [c] | _ \<Rightarrow> [])"
  by (simp add: added_def)

definition game_new :: game_t where
  "game_new = \<lparr>gm_players = [], name2id = []\<rparr>"

lemma game_run_inv:
  assumes "distinct (added evs)"
  shows "game_inv (foldl game_step game_new evs) \<and> dom (map_of (gm_players (foldl game_step game_new evs))) \<subseteq> set (added evs)"
  using assms
proof (induction evs rule: rev_induct)
  case Nil
  show ?case by (simp add: game_inv_def inverse_tables_def game_new_def)
next
  case (snoc e evs)
  let ?g = "foldl game_step game_new evs"
  have IH: "game_inv ?g" "dom (map_of (gm_players ?g)) \<subseteq> set (added evs)"
    using snoc by (auto simp: added_snoc)
  show ?case
  proof (cases e)
    case (Add_player c n)
    then have "map_of (gm_players ?g) c = None"
      using snoc.prems IH(2) by (auto simp: added_snoc)
    note tables = add_player_tables [OF IH(1) this, of n]
    have "dom (map_of (gm_players (rpc_add_player c n ?g))) \<subseteq> insert c (dom (map_of (gm_players ?g)))"
      unfolding tables(3) by (auto split: if_splits)
    then show ?thesis
      using Add_player IH(2) tables(1) by (auto simp: added_snoc)
  next
    case (Game_msg t pl)
    then show ?thesis
      using IH players_on_msg [of t pl ?g] by (auto simp: game_inv_on_msg added_snoc)
  qed
qed

section \<open>Properties\<close>

text \<open>The two player tables of the game stay inverse to each other, whatever players join, leave
  or replace an older connection of theirs, as long as a connection joins once.\<close>

theorem game_tables_inverse:
  assumes "distinct (added evs)"
  shows "map_of (gm_players (foldl game_step game_new evs)) c = Some n \<longleftrightarrow>
     map_of (name2id (foldl game_step game_new evs)) n = Some c"
  using game_run_inv [OF assms] by (simp add: game_inv_def inverse_tables_def)

theorem game_tables_inverse_witness:
  "map_of (gm_players (foldl game_step game_new [Add_player 1 ''ann'', Add_player 2 ''bob'', Add_player 3 ''ann''])) 1 \<noteq> Some ''ann''"
  using game_tables_inverse [of "[Add_player 1 ''ann'', Add_player 2 ''bob'', Add_player 3 ''ann'']" 1 "''ann''"]
  by (simp add: added_def rpc_add_player_def game_new_def)

text \<open>A first login with a supported version and the sequence number 1 succeeds: the gate asks the
  world, the world registers the name, the gate answers with sequence number 1 and marks the
  connection, and the game then finds the connection under the name.\<close>

theorem login_succeeds:
  assumes "map_of (gt_players g) connid =
      Some \<lparr>gp_login = False, gp_from = ws, gp_connid = connid, gp_send_sign = 0, gp_recv_sign = 0\<rparr>"
    "uVer \<le> nVerMax"
  shows "\<exists>g1 g2 w1 outs. co_login_begin connid 1 (Inr (name, uVer)) g = (Inr (Login_ask_world connid name), g1, []) \<and>
     rpc_player_login connid name w = (Login_Ok, w1, outs) \<and> map_of (name2conid w1) name = Some connid \<and>
     co_login_end connid (Inr (Login_Ok, [])) g1 =
       (Inr True, g2, [Out_ctx ws Gm_write connid (Some (Login_rsp Login_Ok [] 1))]) \<and>
     map_option gp_login (map_of (gt_players g2) connid) = Some True \<and>
     get_player_connid name (rpc_add_player connid name gm) = connid"
  using assms
  by (auto simp: co_login_begin_def co_login_end_def write_rsp_def rpc_player_login_def get_player_connid_def
      rpc_add_player_def update_conv' nVerMin_def Let_def split: option.splits)

definition gate_one :: gate_t where
  "gate_one = on_conn_start 9 7 \<lparr>conn_alloc = 7, gt_players = [], world_id = 2, game_id = 3\<rparr>"

theorem login_succeeds_witness:
  "\<exists>g1. co_login_begin 7 1 (Inr (''ann'', 8)) gate_one = (Inr (Login_ask_world 7 ''ann''), g1, [])"
  using login_succeeds [of gate_one 7 9 8 "''ann''" "\<lparr>logins = [], name2conid = []\<rparr>" game_new]
  by (auto simp: gate_one_def on_conn_start_def nVerMax_def)

text \<open>C39. A name that logs in twice is not kicked: the world asks the gate to close the old
  connection, the gate ignores the request and keeps the player; and when the old connection ends
  later, the world forgets the name although the new connection is still logged in.\<close>

theorem duplicate_login_not_kicked:
  assumes "map_of (logins w) c1 = Some n" "map_of (name2conid w) n = Some c1" "c2 \<noteq> c1"
  shows "\<exists>w2 outs. rpc_player_login c2 n w = (Login_Ok, w2, Out_gate_close c1 # outs) \<and>
     gate_on_msg (world_id g) Gm_close (Pl_conn c1) g = ([], g, []) \<and>
     map_of (name2conid (world_on_msg Gm_close (Pl_conn c1) w2)) n = None \<and>
     map_of (logins (world_on_msg Gm_close (Pl_conn c1) w2)) c2 = Some n"
  using assms
  by (simp add: rpc_player_login_def gate_on_msg_def world_on_msg_def update_conv' delete_conv')

theorem duplicate_login_not_kicked_witness:
  "\<exists>w2 outs. rpc_player_login 8 ''ann'' \<lparr>logins = [(7, ''ann'')], name2conid = [(''ann'', 7)]\<rparr> =
       (Login_Ok, w2, Out_gate_close 7 # outs) \<and> gate_on_msg 2 Gm_close (Pl_conn 7) gate_one = ([], gate_one, [])"
  using duplicate_login_not_kicked [of "\<lparr>logins = [(7, ''ann'')], name2conid = [(''ann'', 7)]\<rparr>" 7 "''ann''" 8 gate_one]
  by (auto simp: gate_one_def on_conn_start_def)

text \<open>A connection that ends while its login waits for the world leaves \<open>co_login\<close> with a dangling
  reference: the answer makes it write through \<open>p\<close> after the entry was erased.\<close>

theorem login_dangling_reference:
  "fst (co_login_end connid (Inr (Login_Ok, tip)) (fst (on_conn_stop connid g))) = Inl Bad_Access"
  by (simp add: co_login_end_def on_conn_stop_def write_rsp_def delete_conv')

text \<open>Every packet of the gate to a client carries the next sequence number of its connection.\<close>

fun write_many :: "u64 \<Rightarrow> (u32 \<Rightarrow> client_msg) list \<Rightarrow> gate_t \<Rightarrow> gate_t \<times> demo_out list" where
  "write_many connid [] g = (g, [])"
| "write_many connid (mk # mks) g =
     (case write_rsp connid mk g of (g1, o1) \<Rightarrow> case write_many connid mks g1 of (g2, o2) \<Rightarrow> (g2, o1 @ o2))"

text \<open>The packets of the gate for a connection are numbered without gaps: the \<open>k\<close>-th packet
  carries the \<open>k\<close>-th number after the last one.\<close>

theorem gate_numbers_packets:
  assumes "map_of (gt_players g) connid = Some p"
  shows "snd (write_many connid mks g) =
     map (\<lambda>(k, mk). Out_ctx (gp_from p) Gm_write connid (Some (mk (gp_recv_sign p + word_of_nat (k + 1))))) (enumerate 0 mks)"
  using assms
proof (induction mks arbitrary: g p)
  case (Cons mk mks)
  let ?p = "p\<lparr>gp_recv_sign := gp_recv_sign p + 1\<rparr>"
  let ?g = "g\<lparr>gt_players := AList.update connid ?p (gt_players g)\<rparr>"
  have "map_of (gt_players ?g) connid = Some ?p"
    by (simp add: update_conv')
  note IH = Cons.IH [OF this]
  have "enumerate 0 (mk # mks) = (0, mk) # map (\<lambda>(k, m). (Suc k, m)) (enumerate 0 mks)"
    by (auto simp: enumerate_Suc_eq)
  then show ?case
    using IH Cons.prems
    by (simp add: write_rsp_def split_beta comp_def ac_simps Let_def)
qed simp

theorem gate_numbers_packets_witness:
  "snd (write_many 7 [From_world ''a'', From_game ''b''] gate_one) =
     [Out_ctx 9 Gm_write 7 (Some (From_world ''a'' 1)), Out_ctx 9 Gm_write 7 (Some (From_game ''b'' 2))]"
  using gate_numbers_packets [of gate_one 7 _ "[From_world ''a'', From_game ''b'']"]
  by (simp add: gate_one_def on_conn_start_def)

end
