(* ===== verification/Game_Scene.thy ===== *)
theory Game_Scene
  imports Cpp_Std Entity_Mgr Game_Login
begin

text \<open>
  The single player scene of the game demo: the components (\<open>example/game_component.h\<close>), what the game
  sends to a player (\<open>static_interface\<close> in \<open>example/game_component.cpp\<close>), the scene and its handlers
  (\<open>scene_t\<close>, \<open>game_t::rpc_on_client\<close> and the functions it calls in \<open>example/game_demo.cpp\<close>). A handler is a
  function on the state of the game that returns the new state and the notifications sent, or the way it fails.
  \<open>ndebug\<close> tells whether \<open>assert\<close> is compiled out; \<open>cid\<close> is \<open>component_id<T>()\<close> for each component type.
\<close>

section \<open>Texts\<close>

text \<open>String literals of the source that are not ASCII, as their code points; the compiler stores UTF-8.\<close>

fun utf8 :: "nat list \<Rightarrow> string" where
  "utf8 [] = []"
| "utf8 (c # cs) =
     (if c < 128 then [char_of c]
      else if c < 2048 then [char_of (192 + c div 64), char_of (128 + c mod 64)]
      else [char_of (224 + c div 4096), char_of (128 + c div 64 mod 64), char_of (128 + c mod 64)]) @ utf8 cs"

definition txt_view :: string where
  "txt_view = utf8
    [
     35270, 21475]"   \<comment> \<open>the view port\<close>

definition txt_resource :: string where
  "txt_resource = utf8
    [
     36164, 28304]"   \<comment> \<open>resource\<close>

definition txt_enemy :: string where
  "txt_enemy = utf8
    [
     25932, 20154]"   \<comment> \<open>enemy\<close>

definition txt_progress :: string where
  "txt_progress = utf8
    [
     24314, 36896, 36827, 24230]"   \<comment> \<open>progress of building\<close>

definition txt_lingyun_avatar :: string where
  "txt_lingyun_avatar = utf8
    [
     22270, 29255, 47, 22899, 25945, 23448, 30333, 33394, 28023, 20891, 26381]"   \<comment> \<open>picture of the instructor\<close>

definition txt_lingyun :: string where
  "txt_lingyun = utf8
    [
     24635, 25945, 23448, 65306, 20940, 20113]"   \<comment> \<open>chief instructor Lingyun\<close>

definition txt_user_avatar :: string where
  "txt_user_avatar = utf8
    [
     22270, 29255, 47, 25351, 25381, 23398, 21592, 23398, 21592, 38738, 28784, 33394, 20891, 26381]"   \<comment> \<open>picture of the student\<close>

definition txt_user :: string where
  "txt_user = utf8
    [
     29609, 23478, 65306]"   \<comment> \<open>player:\<close>

definition txt_button :: string where
  "txt_button = utf8
    [
     38899, 25928, 47, 66, 85, 84, 84, 79, 78]"   \<comment> \<open>sound of a button\<close>

definition txt_welcome :: string where
  "txt_welcome = utf8
    [
     27426, 36814, 26469, 21040, 82, 84, 83, 21363, 26102, 25112, 30053, 28216, 25103, 65292, 29616,
     22312, 24744, 35201, 25509, 21463, 22522, 30784, 30340, 35757, 32451]"   \<comment> \<open>welcome to the training\<close>

definition txt_scene_name :: string where
  "txt_scene_name = utf8
    [
     115, 99, 101, 110, 101, 25112, 26007]"   \<comment> \<open>the scene\<close>

definition scene1_text :: "nat \<Rightarrow> string" where
  "scene1_text k = utf8 ((
    [
     [
     21363, 26102, 25112, 30053, 28216, 25103, 30340, 25805, 20316, 24182, 19981, 22797, 26434,
     65292, 32769, 24180, 38388, 20415, 26377, 22235, 21477, 31461, 35875, 65306, 10, 9, 9, 9,
     24037, 31243, 36710, 65292, 36896, 22522, 22320, 65307, 10, 9, 9, 9, 22522, 22320, 21448,
     20135, 24037, 31243, 36710, 12290, 10, 9, 9, 9, 24037, 31243, 36710, 65292, 36896, 20853,
     33829, 65292, 10, 9, 9, 9, 20853, 33829, 20135, 20853, 27426, 20048, 22810, 65281],

     [
     21548, 35828, 24037, 31243, 36710, 36824, 21487, 20197, 36896, 22320, 22561, 21644, 28846,
     21488, 65292, 25105, 20063, 35201, 35797, 35797, 12290],

     [
     36896, 23436, 22522, 22320, 24212, 35813, 20808, 23433, 25490, 24037, 31243, 36710, 21435,
     37319, 38598, 26230, 20307, 30719, 21644, 29123, 27668, 30719, 65292, 36825, 26159, 19968,
     20999, 29983, 20135, 24314, 36896, 30340, 22522, 30784, 12290, 27492, 22806, 24314, 36896,
     27665, 25151, 21487, 20197, 25552, 21319, 27963, 21160, 21333, 20301, 19978, 38480, 12290, 10,
     21152, 27833, 65281],

     [
     25105, 21482, 24819, 21333, 25163, 25805, 20316, 65292, 25302, 21160, 35270, 21475, 32, 21644,
     32, 36873, 20013, 22810, 20010, 21333, 20301, 32, 22914, 20309, 25805, 20316, 21602, 65311],

     [
     9, 9, 25302, 21160, 22320, 38754, 23601, 21487, 20197, 31227, 21160, 35270, 21475, 65292,
     27492, 22806, 35774, 32622, 65288, 40831, 36718, 22270, 26631, 65289, 30028, 38754, 36824,
     26377, 35270, 21475, 38236, 22836, 25237, 24433, 20999, 25442, 12289, 25918, 22823, 12289,
     32553, 23567, 25353, 38062, 12290, 24403, 28982, 20063, 25903, 25345, 21452, 25351, 32553,
     25918, 35270, 21475, 12290, 10, 9, 9, 20808, 28857, 20987, 21491, 36793, 8220, 26694, 36873,
     8221, 25353, 38062, 65292, 28982, 21518, 22312, 23631, 24149, 20013, 25302, 21160, 65292,
     21363, 21487, 26694, 36873, 22810, 20010, 21333, 20301, 12290, 22312, 35774, 32622, 65288,
     40831, 36718, 22270, 26631, 65289, 30028, 38754, 20013, 21487, 20197, 20999, 25442, 33777,
     24418, 26694, 36873, 25110, 26041, 24418, 26694, 36873, 12290, 10, 9, 9, 20840, 31243, 21482,
     35201, 21333, 25163, 25569, 25345, 25163, 26426, 21333, 25351, 25805, 20316, 21363, 21487,
     12290, 10],

     [
     21482, 29992, 19968, 21482, 25163, 23601, 33021, 29609, 30340, 82, 84, 83, 21363, 26102, 25112,
     30053, 28216, 25103, 65292, 37027, 23682, 19981, 26159, 36319, 21047, 30701, 35270, 39057,
     19968, 26679, 36731, 26494, 65311, 25105, 19968, 23450, 35201, 20307, 39564, 19968, 19979,
     65281],

     [
     36208, 20320, 33]
    ] :: nat list list) ! k)"

section \<open>Components\<close>

record PlayerConn =
  pc_connid :: u64
  msgLastMsg :: MsgPlotDialogue
  gas :: u32
  mineral :: u32

record DefenceCompoent =
  m_hp :: int
  m_i32HpMax :: int
  m_mapHurt :: "(u64 \<times> int) list"

record PosComponent =
  pos_x :: f32
  pos_z :: f32
  m_eulerAnglesY :: int

record AoiComponent =
  viewRange :: int
  view_self :: "entity_id_t list"
  view_other :: "entity_id_t list"

datatype component =
    C_PlayerConn PlayerConn
  | C_PlayerNickName string
  | C_Resource ObjectType int
  | C_OType ObjectType
  | C_UnitConfig UnitConfig
  | C_Defence DefenceCompoent
  | C_Pos PosComponent
  | C_Building int
  | C_TempObstacle u32
  | C_Aoi AoiComponent

datatype comp_type =
  T_PlayerConn | T_PlayerNickName | T_Resource | T_OType | T_UnitConfig | T_Defence | T_Pos | T_Building | T_TempObstacle | T_Aoi

fun comp_type_of :: "component \<Rightarrow> comp_type" where
  "comp_type_of (C_PlayerConn _) = T_PlayerConn"
| "comp_type_of (C_PlayerNickName _) = T_PlayerNickName"
| "comp_type_of (C_Resource _ _) = T_Resource"
| "comp_type_of (C_OType _) = T_OType"
| "comp_type_of (C_UnitConfig _) = T_UnitConfig"
| "comp_type_of (C_Defence _) = T_Defence"
| "comp_type_of (C_Pos _) = T_Pos"
| "comp_type_of (C_Building _) = T_Building"
| "comp_type_of (C_TempObstacle _) = T_TempObstacle"
| "comp_type_of (C_Aoi _) = T_Aoi"

text \<open>The casts of \<open>component<T>()\<close>: a component of another type read as \<open>T\<close> is undefined.\<close>

definition cast :: "(component \<Rightarrow> 'a option) \<Rightarrow> component option \<Rightarrow> 'a option result" where
  "cast f c = (case c of None \<Rightarrow> Inr None | Some x \<Rightarrow> (case f x of Some y \<Rightarrow> Inr (Some y) | None \<Rightarrow> Inl Bad_Access))"

definition of_conn :: "component \<Rightarrow> PlayerConn option" where
  "of_conn c = (case c of C_PlayerConn p \<Rightarrow> Some p | _ \<Rightarrow> None)"

definition of_nick :: "component \<Rightarrow> string option" where
  "of_nick c = (case c of C_PlayerNickName s \<Rightarrow> Some s | _ \<Rightarrow> None)"

definition of_resource :: "component \<Rightarrow> (ObjectType \<times> int) option" where
  "of_resource c = (case c of C_Resource t n \<Rightarrow> Some (t, n) | _ \<Rightarrow> None)"

definition of_otype :: "component \<Rightarrow> ObjectType option" where
  "of_otype c = (case c of C_OType t \<Rightarrow> Some t | _ \<Rightarrow> None)"

definition of_config :: "component \<Rightarrow> UnitConfig option" where
  "of_config c = (case c of C_UnitConfig u \<Rightarrow> Some u | _ \<Rightarrow> None)"

definition of_defence :: "component \<Rightarrow> DefenceCompoent option" where
  "of_defence c = (case c of C_Defence d \<Rightarrow> Some d | _ \<Rightarrow> None)"

definition of_pos :: "component \<Rightarrow> PosComponent option" where
  "of_pos c = (case c of C_Pos p \<Rightarrow> Some p | _ \<Rightarrow> None)"

definition of_building :: "component \<Rightarrow> int option" where
  "of_building c = (case c of C_Building n \<Rightarrow> Some n | _ \<Rightarrow> None)"

text \<open>\<open>BuildingComponent::compelete\<close>\<close>

definition compelete :: "int \<Rightarrow> bool" where
  "compelete process \<longleftrightarrow> process \<ge> 100"

text \<open>\<open>e.component<T>()\<close>, \<open>e.add<T>(...)\<close>, and an assignment through the pointer that \<open>component\<close> or \<open>add\<close>
  returned.\<close>

definition comp_get ::
  "(comp_type \<Rightarrow> nat) \<Rightarrow> comp_type \<Rightarrow> (component \<Rightarrow> 'a option) \<Rightarrow> entity_t \<Rightarrow> component entity_mgr_t \<Rightarrow> 'a option result"
where
  "comp_get cid t f e m = bind_result (ent_component (cid t) e m) (cast f)"

definition comp_add :: "(comp_type \<Rightarrow> nat) \<Rightarrow> component \<Rightarrow> entity_t \<Rightarrow> component entity_mgr_t \<Rightarrow> component entity_mgr_t result" where
  "comp_add cid c e m = (if ent_mgr e then ent_add (cid (comp_type_of c)) c (ent_id e) m else Inl Bad_Access)"

section \<open>Scenes\<close>

datatype task_func = Scene1_task

record scene_config_t =
  sc_id :: u32
  strCrowdPath :: string
  strSceneName :: string
  strHttpsMusic :: string
  sc_func :: task_func

text \<open>The iterator over the task of a scene: the segment of the task that runs next and the entity
  its coroutine holds; \<open>None\<close> before the task was started.\<close>

record scene_task =
  tk_pos :: nat
  tk_entity :: entity_t

record scene_t =
  sc_config :: scene_config_t
  sc_mgr :: "component entity_mgr_t"
  sc_entitys :: "entity_id_t list"
  connid2eid :: "(u64 \<times> entity_id_t) list"
  sc_tp :: nat
  sc_gen :: "scene_task option"

definition scene_new :: "scene_config_t \<Rightarrow> nat \<Rightarrow> scene_t" where
  "scene_new c now =
     \<lparr>sc_config = c, sc_mgr = mgr_new, sc_entitys = [], connid2eid = [], sc_tp = now, sc_gen = None\<rparr>"

definition create_entity :: "scene_t \<Rightarrow> (entity_t \<times> scene_t) result" where
  "create_entity s =
     bind_result (em_create (sc_mgr s)) (\<lambda>(i, m).
       Inr (em_get i, s\<lparr>sc_mgr := m, sc_entitys := (if i \<in> set (sc_entitys s) then sc_entitys s else sc_entitys s @ [i])\<rparr>))"

definition geteid_fromconnid :: "u64 \<Rightarrow> scene_t \<Rightarrow> entity_t" where
  "geteid_fromconnid connid s = (case map_of (connid2eid s) connid of Some i \<Rightarrow> em_get i | None \<Rightarrow> em_get 0)"

definition headName :: "(comp_type \<Rightarrow> nat) \<Rightarrow> entity_id_t \<Rightarrow> scene_t \<Rightarrow> string result" where
  "headName cid i s =
     (let e = em_get i; m = sc_mgr s in
      bind_result (comp_get cid T_PlayerNickName of_nick e m) (\<lambda>c1.
      bind_result (comp_get cid T_Resource of_resource e m) (\<lambda>c2.
      bind_result (comp_get cid T_OType of_otype e m) (\<lambda>c3.
        Inr (case c1 of
               Some nick \<Rightarrow> nick
             | None \<Rightarrow> if c2 \<noteq> None then txt_resource else if c3 = Some Effect then [] else txt_enemy)))))"

definition pack_addRoleRet :: "bool \<Rightarrow> (comp_type \<Rightarrow> nat) \<Rightarrow> entity_id_t \<Rightarrow> scene_t \<Rightarrow> MsgAddRoleRet result" where
  "pack_addRoleRet ndebug cid i s =
     (let e = em_get i; m = sc_mgr s in
      bind_result (comp_get cid T_UnitConfig of_config e m) (\<lambda>c1.
      bind_result (comp_get cid T_Defence of_defence e m) (\<lambda>c2.
      bind_result (comp_get cid T_OType of_otype e m) (\<lambda>c3.
        if \<not> ndebug \<and> \<not> (c1 \<noteq> None \<and> c2 \<noteq> None \<and> c3 \<noteq> None) then Inl Assert_Failed
        else bind_result (headName cid i s) (\<lambda>nick.
          case (c1, c3) of
            (Some config, Some t) \<Rightarrow>
              Inr \<lparr>ar_entitiId = i, ar_nickName = nick, ar_entityName = strName config, ar_prefabName = strPrefabName config,
                   ar_i32HpMax = (case c2 of Some d \<Rightarrow> m_i32HpMax d | None \<Rightarrow> 0), ar_type = t\<rparr>
          | _ \<Rightarrow> Inl Bad_Access)))))"

definition pack_notifyPos :: "(comp_type \<Rightarrow> nat) \<Rightarrow> entity_id_t \<Rightarrow> scene_t \<Rightarrow> MsgNotifyPos result" where
  "pack_notifyPos cid i s =
     (let e = em_get i; m = sc_mgr s in
      bind_result (comp_get cid T_Pos of_pos e m) (\<lambda>c1.
      bind_result (comp_get cid T_Defence of_defence e m) (\<lambda>c2.
        case c1 of
          None \<Rightarrow> Inl Bad_Access
        | Some p \<Rightarrow>
            Inr \<lparr>np_entityId = i, np_x = pos_x p, np_z = pos_z p, np_eulerAnglesY = m_eulerAnglesY p,
                 np_hp = (case c2 of Some d \<Rightarrow> m_hp d | None \<Rightarrow> 0)\<rparr>)))"


section \<open>Notifications\<close>

text \<open>\<open>write_notify(connid, msg)\<close> and \<open>write_data\<close> are a \<open>dispatch_pack(".gate", write, connid, pack(msg))\<close>:
  an output is the connection and the packet.\<close>

type_synonym scene_out = "u64 \<times> game_ntf"

definition npc1_say ::
  "(comp_type \<Rightarrow> nat) \<Rightarrow> game_t \<Rightarrow> string \<Rightarrow> string \<Rightarrow> string \<Rightarrow> string \<Rightarrow> string \<Rightarrow> string \<Rightarrow> bool \<Rightarrow> scene_t \<Rightarrow>
   (scene_t \<times> scene_out list) result"
where
  "npc1_say cid g player lAvatar lName rAvatar rName txt bShowQuit s =
     (let ntf = \<lparr>leftAvatar = lAvatar, leftName = lName, rightAvatar = rAvatar, rightName = rName,
                 dialogueText = txt, showExitSceneButton = False\<rparr>;
          connid = get_player_connid player g;
          e = geteid_fromconnid connid s
      in bind_result (comp_get cid T_PlayerConn of_conn e (sc_mgr s)) (\<lambda>p.
           case p of
             None \<Rightarrow> Inr (s, [(connid, Ntf_PlotDialogue ntf)])
           | Some c \<Rightarrow>
               bind_result (comp_add cid (C_PlayerConn (c\<lparr>msgLastMsg := ntf\<rparr>)) e (sc_mgr s)) (\<lambda>m.
                 Inr (s\<lparr>sc_mgr := m\<rparr>, [(connid, Ntf_PlotDialogue ntf)]))))"

definition play_sound :: "(comp_type \<Rightarrow> nat) \<Rightarrow> game_t \<Rightarrow> string \<Rightarrow> string \<Rightarrow> string \<Rightarrow> scene_t \<Rightarrow> scene_out list result" where
  "play_sound cid g player sound txt s =
     bind_result (entities_with_components [cid T_PlayerConn] (sc_entitys s) (sc_mgr s)) (\<lambda>eids.
       Inr [(get_player_connid player g, MsgPlaySound sound txt)])"

definition plotend :: "(comp_type \<Rightarrow> nat) \<Rightarrow> game_t \<Rightarrow> string \<Rightarrow> scene_t \<Rightarrow> scene_out list result" where
  "plotend cid g player s =
     bind_result (entities_with_components [cid T_PlayerConn] (sc_entitys s) (sc_mgr s)) (\<lambda>eids.
       Inr [(get_player_connid player g, MsgPlotEnd)])"

definition static_say :: "game_t \<Rightarrow> string \<Rightarrow> string \<Rightarrow> SayChannel \<Rightarrow> scene_out list" where
  "static_say g player content channel = [(get_player_connid player g, MsgSay content channel)]"

section \<open>The task of the training scene\<close>

definition f_lingyun_say :: "(comp_type \<Rightarrow> nat) \<Rightarrow> game_t \<Rightarrow> string \<Rightarrow> string \<Rightarrow> scene_t \<Rightarrow> (scene_t \<times> scene_out list) result" where
  "f_lingyun_say cid g player strMsg s =
     bind_result (npc1_say cid g player txt_lingyun_avatar txt_lingyun [] [] (''    '' @ strMsg) False s) (\<lambda>(s1, o1).
     bind_result (play_sound cid g player txt_button [] s1) (\<lambda>o2. Inr (s1, o1 @ o2)))"

definition f_user_say :: "(comp_type \<Rightarrow> nat) \<Rightarrow> game_t \<Rightarrow> string \<Rightarrow> string \<Rightarrow> bool \<Rightarrow> scene_t \<Rightarrow> (scene_t \<times> scene_out list) result" where
  "f_user_say cid g player msg bQuit s =
     bind_result (npc1_say cid g player [] [] txt_user_avatar (txt_user @ player) (''    '' @ msg) bQuit s) (\<lambda>(s1, o1).
     bind_result (play_sound cid g player txt_button [] s1) (\<lambda>o2. Inr (s1, o1 @ o2)))"

text \<open>The code between two \<open>WAIT_TYPE\<close>s: segments 0 to 6 speak, instructor and player in turn; segment 7 runs
  to the end of the task. \<open>e\<close> is the entity the task looked up when it started.\<close>

definition scene1_segment ::
  "bool \<Rightarrow> (comp_type \<Rightarrow> nat) \<Rightarrow> game_t \<Rightarrow> string \<Rightarrow> entity_t \<Rightarrow> nat \<Rightarrow> scene_t \<Rightarrow> (scene_t \<times> scene_out list) result"
where
  "scene1_segment ndebug cid g player e k s =
     (if k < 7 then
        (if even k then f_lingyun_say cid g player (scene1_text k) s else f_user_say cid g player (scene1_text k) False s)
      else
        bind_result (plotend cid g player s) (\<lambda>o1.
        bind_result (comp_get cid T_PlayerConn of_conn e (sc_mgr s)) (\<lambda>p.
          case p of
            None \<Rightarrow> Inl (if ndebug then Bad_Access else Assert_Failed)
          | Some c \<Rightarrow>
              bind_result (comp_add cid (C_PlayerConn (c\<lparr>mineral := mineral c + 100\<rparr>)) e (sc_mgr s)) (\<lambda>m.
                Inr (s\<lparr>sc_mgr := m\<rparr>, o1 @ static_say g player txt_welcome SYSTEM)))))"

text \<open>\<open>scene1_task(S, player).begin()\<close>: up to the first wait.\<close>

definition scene1_begin :: "bool \<Rightarrow> (comp_type \<Rightarrow> nat) \<Rightarrow> game_t \<Rightarrow> string \<Rightarrow> scene_t \<Rightarrow> (scene_t \<times> scene_out list) result" where
  "scene1_begin ndebug cid g player s =
     (let e = geteid_fromconnid (get_player_connid player g) s
      in bind_result (scene1_segment ndebug cid g player e 0 s) (\<lambda>(s1, outs).
           Inr (s1\<lparr>sc_gen := Some \<lparr>tk_pos = 1, tk_entity = e\<rparr>\<rparr>, outs)))"

text \<open>\<open>if (S->gen) ++S->gen;\<close>\<close>

definition gen_bool :: "scene_t \<Rightarrow> bool" where
  "gen_bool s \<longleftrightarrow> (case sc_gen s of None \<Rightarrow> False | Some t \<Rightarrow> tk_pos t < 8)"

definition gen_advance :: "bool \<Rightarrow> (comp_type \<Rightarrow> nat) \<Rightarrow> game_t \<Rightarrow> string \<Rightarrow> scene_t \<Rightarrow> (scene_t \<times> scene_out list) result" where
  "gen_advance ndebug cid g player s =
     (case sc_gen s of
        None \<Rightarrow> Inr (s, [])
      | Some t \<Rightarrow>
          if gen_bool s then
            bind_result (scene1_segment ndebug cid g player (tk_entity t) (tk_pos t) s) (\<lambda>(s1, outs).
              Inr (s1\<lparr>sc_gen := Some (t\<lparr>tk_pos := tk_pos t + 1\<rparr>)\<rparr>, outs))
          else Inr (s, []))"

section \<open>Handlers of the game\<close>

record scene_game =
  sg_game :: game_t
  scene_configs :: "(u32 \<times> scene_config_t) list"
  scene1_map :: "(string \<times> scene_t) list"

text \<open>What \<open>game_t::on_init\<close> stores.\<close>

definition train_config :: scene_config_t where
  "train_config =
     \<lparr>sc_id = scene_id TrainScene, strCrowdPath = ''all_tiles_tilecache.bin'', strSceneName = txt_scene_name,
      strHttpsMusic = ''https://www.rtsgame.online/music/Suno_Edge_of_Collapse.mp3'', sc_func = Scene1_task\<rparr>"

definition game_on_init :: "scene_game \<Rightarrow> scene_game" where
  "game_on_init G = G\<lparr>scene_configs := AList.update (scene_id TrainScene) train_config (scene_configs G)\<rparr>"

definition get_scene1 :: "nat \<Rightarrow> string \<Rightarrow> scene_config_t \<Rightarrow> scene_game \<Rightarrow> (bool \<times> scene_t) \<times> scene_game" where
  "get_scene1 now player c G =
     (case map_of (scene1_map G) player of
        Some s \<Rightarrow> ((False, s), G)
      | None \<Rightarrow> ((True, scene_new c now), G\<lparr>scene1_map := AList.update player (scene_new c now) (scene1_map G)\<rparr>))"

definition destroy_scene :: "scene_t \<Rightarrow> scene_t" where
  "destroy_scene s = s"

text \<open>The loop of \<open>enter_scene\<close> over the entities, here in the order of their creation; the code iterates an unordered set, and no theorem depends on the order.\<close>

fun show_entities :: "bool \<Rightarrow> (comp_type \<Rightarrow> nat) \<Rightarrow> u64 \<Rightarrow> scene_t \<Rightarrow> entity_id_t list \<Rightarrow> scene_out list result" where
  "show_entities ndebug cid connid s [] = Inr []"
| "show_entities ndebug cid connid s (eid # eids) =
     bind_result (pack_addRoleRet ndebug cid eid s) (\<lambda>role.
     bind_result (pack_notifyPos cid eid s) (\<lambda>pos.
     bind_result (comp_get cid T_Building of_building (em_get eid) (sc_mgr s)) (\<lambda>c.
     bind_result (show_entities ndebug cid connid s eids) (\<lambda>outs.
       Inr ([(connid, Ntf_AddRoleRet role), (connid, Ntf_NotifyPos pos)] @
            (case c of
               Some process \<Rightarrow>
                 if \<not> compelete process
                 then [(connid, MsgEntityDes eid (txt_progress @ int_to_string process @ ''%''))] else []
             | None \<Rightarrow> []) @ outs)))))"

text \<open>The components of a view port; \<open>config = {...}\<close> is assigned right after \<open>add<UnitConfigComponent>()\<close>.\<close>

definition dialogue_empty :: MsgPlotDialogue where
  "dialogue_empty =
     \<lparr>leftAvatar = [], leftName = [], rightAvatar = [], rightName = [], dialogueText = [], showExitSceneButton = False\<rparr>"

definition view_components :: "u64 \<Rightarrow> component list" where
  "view_components connid =
     [C_PlayerConn \<lparr>pc_connid = connid, msgLastMsg = dialogue_empty, gas = 0, mineral = 0\<rparr>,
      C_Pos \<lparr>pos_x = 0, pos_z = 0, m_eulerAnglesY = 0\<rparr>,
      C_OType ViewWindow,
      C_UnitConfig \<lparr>strName = [], strPrefabName = [], strChooseSound = []\<rparr>,
      C_UnitConfig \<lparr>strName = txt_view, strPrefabName = ''smoke'', strChooseSound = []\<rparr>,
      C_Aoi \<lparr>viewRange = 500, view_self = [], view_other = []\<rparr>]"

fun comp_add_all :: "(comp_type \<Rightarrow> nat) \<Rightarrow> component list \<Rightarrow> entity_t \<Rightarrow> component entity_mgr_t \<Rightarrow> component entity_mgr_t result" where
  "comp_add_all cid [] e m = Inr m"
| "comp_add_all cid (c # cs) e m = bind_result (comp_add cid c e m) (comp_add_all cid cs e)"

definition enter_scene :: "bool \<Rightarrow> (comp_type \<Rightarrow> nat) \<Rightarrow> u64 \<Rightarrow> scene_t \<Rightarrow> (scene_t \<times> scene_out list) result" where
  "enter_scene ndebug cid connid s =
     bind_result (show_entities ndebug cid connid s (sc_entitys s)) (\<lambda>outs.
     bind_result (create_entity s) (\<lambda>(viewe, s1).
     bind_result (comp_add_all cid (view_components connid) viewe (sc_mgr s1)) (\<lambda>m.
       Inr (s1\<lparr>sc_mgr := m, connid2eid := AList.update connid (ent_id viewe) (connid2eid s1)\<rparr>,
            (connid, MsgEnterSpace 1) # outs))))"

definition on_recv_enter :: "bool \<Rightarrow> (comp_type \<Rightarrow> nat) \<Rightarrow> nat \<Rightarrow> u64 \<Rightarrow> u32 \<Rightarrow> scene_game \<Rightarrow> (scene_game \<times> scene_out list) result" where
  "on_recv_enter ndebug cid now connid scid G =
     (case map_of (gm_players (sg_game G)) connid of
        None \<Rightarrow> Inl Out_Of_Range
      | Some name \<Rightarrow>
          (case map_of (scene_configs G) scid of
             None \<Rightarrow> Inl Out_Of_Range
           | Some c \<Rightarrow>
               let G0 = (case map_of (scene1_map G) name of
                           Some s \<Rightarrow> (if sc_id (sc_config s) \<noteq> scid
                                      then G\<lparr>scene1_map := AList.update name (destroy_scene s) (scene1_map G)\<rparr> else G)
                         | None \<Rightarrow> G)
               in case get_scene1 now name c G0 of
                    ((bNew, scene), G1) \<Rightarrow>
                      bind_result (enter_scene ndebug cid connid scene) (\<lambda>(s1, o1).
                      bind_result (if bNew then scene1_begin ndebug cid (sg_game G1) name s1 else Inr (s1, [])) (\<lambda>(s2, o2).
                        Inr (G1\<lparr>scene1_map := AList.update name s2 (scene1_map G1)\<rparr>, o1 @ o2)))))"

definition on_recv_plot_end :: "bool \<Rightarrow> (comp_type \<Rightarrow> nat) \<Rightarrow> u64 \<Rightarrow> scene_game \<Rightarrow> (scene_game \<times> scene_out list) result" where
  "on_recv_plot_end ndebug cid connid G =
     (case map_of (gm_players (sg_game G)) connid of
        None \<Rightarrow> Inl Out_Of_Range
      | Some name \<Rightarrow>
          (case map_of (scene1_map G) name of
             None \<Rightarrow> Inr (G, [])
           | Some s \<Rightarrow>
               bind_result (gen_advance ndebug cid (sg_game G) name s) (\<lambda>(s1, outs).
                 Inr (G\<lparr>scene1_map := AList.update name s1 (scene1_map G)\<rparr>, outs))))"

text \<open>\<open>catch(...)\<close>: an exception is swallowed. The handlers above throw before they change anything.\<close>

definition swallow :: "'s \<Rightarrow> ('s \<times> 'o list) result \<Rightarrow> ('s \<times> 'o list) result" where
  "swallow s r =
     (case r of Inl (Runtime_Error _) \<Rightarrow> Inr (s, []) | Inl Out_Of_Range \<Rightarrow> Inr (s, []) | _ \<Rightarrow> r)"

definition rpc_on_client ::
  "('d \<Rightarrow> mp_obj option) \<Rightarrow> bool \<Rightarrow> (comp_type \<Rightarrow> nat) \<Rightarrow> nat \<Rightarrow> u64 \<Rightarrow> 'd \<Rightarrow> scene_game \<Rightarrow> (scene_game \<times> scene_out list) result"
where
  "rpc_on_client dec ndebug cid now connid msg G =
     swallow G
       (bind_result (codec_unpack dec msg) (\<lambda>ob.
        bind_result (codec_head ob) (\<lambda>head.
          if hd_id head = msg_id Id_EnterSingleScene then
            bind_result (as_enter ob) (\<lambda>m. on_recv_enter ndebug cid now connid (es_id m) G)
          else if hd_id head = msg_id Id_PlotEnd then
            bind_result (as_plot_end ob) (\<lambda>m. on_recv_plot_end ndebug cid connid G)
          else Inr (G, []))))"


section \<open>Components of a scene\<close>

text \<open>A pool holds components of its own type only, so that the casts are right.\<close>

definition typed :: "(comp_type \<Rightarrow> nat) \<Rightarrow> component entity_mgr_t \<Rightarrow> bool" where
  "typed cid m \<longleftrightarrow> (\<forall>t k c. comp_at m (cid t, k) = Some c \<longrightarrow> comp_type_of c = t)"

definition live :: "component entity_mgr_t \<Rightarrow> entity_id_t \<Rightarrow> bool" where
  "live m i \<longleftrightarrow> unat (eid_idx i) < unat (index_counter m)"

lemma comp_type_projs [simp]:
  "comp_type_of c = T_PlayerConn \<longleftrightarrow> of_conn c \<noteq> None"
  "comp_type_of c = T_PlayerNickName \<longleftrightarrow> of_nick c \<noteq> None"
  "comp_type_of c = T_Resource \<longleftrightarrow> of_resource c \<noteq> None"
  "comp_type_of c = T_OType \<longleftrightarrow> of_otype c \<noteq> None"
  "comp_type_of c = T_UnitConfig \<longleftrightarrow> of_config c \<noteq> None"
  "comp_type_of c = T_Defence \<longleftrightarrow> of_defence c \<noteq> None"
  "comp_type_of c = T_Pos \<longleftrightarrow> of_pos c \<noteq> None"
  "comp_type_of c = T_Building \<longleftrightarrow> of_building c \<noteq> None"
  by (cases c; simp add: of_conn_def of_nick_def of_resource_def of_otype_def of_config_def of_defence_def of_pos_def of_building_def)+

lemma of_conn_Some [simp]: "of_conn c = Some p \<longleftrightarrow> c = C_PlayerConn p"
  by (cases c) (auto simp: of_conn_def)

lemma comp_get_ok:
  assumes "em_inv m" "typed cid m" "live m i" "\<And>c. comp_type_of c = t \<Longrightarrow> f c \<noteq> None"
  shows "comp_get cid t f (em_get i) m = Inr (Option.bind (comp_at m (cid t, eid_idx i)) f)"
proof -
  have "em_component (cid t) i m = Inr (comp_at m (cid t, eid_idx i))"
    using em_component_safe [OF assms(1)] assms(3) by (simp add: live_def)
  moreover have "f c \<noteq> None" if "comp_at m (cid t, eid_idx i) = Some c" for c
    using that assms(2,4) by (auto simp: typed_def)
  ultimately show ?thesis
    by (auto simp: comp_get_def ent_component_def em_get_def cast_def split: option.split)
qed

lemma comp_add_ok:
  assumes "em_inv m" "live m i" "inj cid"
  shows "\<exists>m'. comp_add cid c (em_get i) m = Inr m' \<and> em_inv m' \<and> free_list m' = free_list m \<and>
    index_counter m' = index_counter m \<and> comp_at m' = (comp_at m)((cid (comp_type_of c), eid_idx i) \<mapsto> c)"
proof -
  have i: "unat (eid_idx i) < unat (index_counter m)" using assms(2) by (simp add: live_def)
  obtain m' where m': "ent_add (cid (comp_type_of c)) c i m = Inr m'" "em_inv m'" "free_list m' = free_list m"
    "index_counter m' = index_counter m"
    using ent_add_ok [OF assms(1) i] by blast
  then show ?thesis
    using comp_at_add [OF assms(1) i m'(1)] by (auto simp: comp_add_def em_get_def)
qed

lemma typed_upd:
  "inj cid \<Longrightarrow> typed cid m \<Longrightarrow> comp_at m' = (comp_at m)((cid (comp_type_of c), k) \<mapsto> c) \<Longrightarrow> typed cid m'"
  by (auto simp: typed_def dest: injD)

lemma comp_add_all_ok:
  assumes "em_inv m" "live m i" "inj cid" "typed cid m"
  shows "\<exists>m'. comp_add_all cid cs (em_get i) m = Inr m' \<and> em_inv m' \<and> free_list m' = free_list m \<and>
    index_counter m' = index_counter m \<and> typed cid m' \<and>
    comp_at m' = comp_at m ++ map_of (rev (map (\<lambda>c. ((cid (comp_type_of c), eid_idx i), c)) cs))"
  using assms(1,2,4)
proof (induction cs arbitrary: m)
  case Nil
  then show ?case by simp
next
  case (Cons c cs)
  obtain m1 where m1: "comp_add cid c (em_get i) m = Inr m1" "em_inv m1" "free_list m1 = free_list m"
    "index_counter m1 = index_counter m" "comp_at m1 = (comp_at m)((cid (comp_type_of c), eid_idx i) \<mapsto> c)"
    using comp_add_ok [OF Cons.prems(1,2) assms(3)] by blast
  have "live m1 i" "typed cid m1"
    using Cons.prems m1 typed_upd [OF assms(3)] by (auto simp: live_def)
  from Cons.IH [OF m1(2) this] m1 show ?case by (auto simp: map_add_def fun_eq_iff split: option.split)
qed

text \<open>A fresh entity has no components.\<close>

lemma comp_at_create:
  assumes "em_inv m" "free_list m = []" "unat (index_counter m) + 1 < 2 ^ 32" "em_create m = Inr (i, m')"
  shows "comp_at m' = comp_at m" "i = entity_id (index_counter m) 1"
    "index_counter m' = index_counter m + 1" "free_list m' = []"
proof -
  have m': "i = entity_id (index_counter m) 1"
    "m' = m\<lparr>index_counter := index_counter m + 1,
       pools := map (map_option (\<lambda>p. p @ [None])) (pools m), entity_version := entity_version m @ [1]\<rparr>"
    using em_create_fresh [OF assms(1-3)] assms(4) by simp_all
  show "comp_at m' = comp_at m"
  proof
    fix k
    show "comp_at m' k = comp_at m k"
      by (auto simp: comp_at_def em_component_def m' nth_append split: option.split)
  qed
  show "i = entity_id (index_counter m) 1" "index_counter m' = index_counter m + 1" "free_list m' = []"
    using m' assms(2) by simp_all
qed


section \<open>The scene invariant\<close>

text \<open>The types every entity of a scene has: all are view ports.\<close>

definition view_types :: "comp_type set" where
  "view_types = {T_PlayerConn, T_Pos, T_OType, T_UnitConfig}"

definition mgr_ok :: "(comp_type \<Rightarrow> nat) \<Rightarrow> nat \<Rightarrow> component entity_mgr_t \<Rightarrow> bool" where
  "mgr_ok cid n m \<longleftrightarrow>
     em_inv m \<and> free_list m = [] \<and> unat (index_counter m) \<le> n \<and> typed cid m \<and>
     (\<forall>t k. t \<notin> insert T_Aoi view_types \<longrightarrow> comp_at m (cid t, k) = None) \<and>
     (\<forall>t \<in> view_types. \<forall>k. unat k < unat (index_counter m) \<longrightarrow> comp_at m (cid t, k) \<noteq> None)"

definition scene_refs :: "scene_t \<Rightarrow> entity_id_t set" where
  "scene_refs s =
     insert 0 (set (sc_entitys s) \<union> snd ` set (connid2eid s) \<union> (case sc_gen s of Some t \<Rightarrow> {ent_id (tk_entity t)} | None \<Rightarrow> {}))"

definition scene_ok :: "(comp_type \<Rightarrow> nat) \<Rightarrow> nat \<Rightarrow> scene_t \<Rightarrow> bool" where
  "scene_ok cid n s \<longleftrightarrow>
     mgr_ok cid n (sc_mgr s) \<and> (\<forall>i \<in> scene_refs s. live (sc_mgr s) i) \<and>
     (case sc_gen s of Some t \<Rightarrow> ent_mgr (tk_entity t) | None \<Rightarrow> True)"

lemma mgr_ok_new: "mgr_ok cid n mgr_new"
  by (auto simp: mgr_ok_def typed_def comp_at_def em_component_def) (simp_all add: mgr_new_def)

lemma mgr_ok_mono: "mgr_ok cid n m \<Longrightarrow> n \<le> n' \<Longrightarrow> mgr_ok cid n' m"
  by (auto simp: mgr_ok_def)

lemma mgr_ok_upd:
  assumes "inj cid" "mgr_ok cid n m" "live m i" "comp_type_of c \<in> insert T_Aoi view_types"
  shows "\<exists>m'. comp_add cid c (em_get i) m = Inr m' \<and> mgr_ok cid n m' \<and> live m' = live m \<and>
    comp_at m' = (comp_at m)((cid (comp_type_of c), eid_idx i) \<mapsto> c)"
proof -
  obtain m' where m': "comp_add cid c (em_get i) m = Inr m'" "em_inv m'" "free_list m' = free_list m"
    "index_counter m' = index_counter m" "comp_at m' = (comp_at m)((cid (comp_type_of c), eid_idx i) \<mapsto> c)"
    using comp_add_ok assms unfolding mgr_ok_def by blast
  moreover have "typed cid m'"
    using typed_upd [OF assms(1) _ m'(5)] assms(2) by (simp add: mgr_ok_def)
  moreover have "t \<noteq> comp_type_of c" if "t \<notin> insert T_Aoi view_types" for t
    using that assms(4) by auto
  ultimately show ?thesis
    using assms(1,2) by (auto simp: mgr_ok_def live_def fun_eq_iff dest: injD)
qed

text \<open>The search for all player connections, whose result nobody uses, stays inside the pools.\<close>

lemma search_ok:
  assumes "mgr_ok cid n m" "live m i"
  shows "\<exists>eids. entities_with_components [cid T_PlayerConn] is m = Inr eids"
proof -
  have "comp_at m (cid T_PlayerConn, eid_idx i) \<noteq> None"
    using assms by (auto simp: mgr_ok_def live_def view_types_def)
  then have "cid T_PlayerConn < length (pools m)"
    by (auto simp: comp_at_def em_component_def split: if_splits)
  then show ?thesis
    using has_components_eq [of m _ "[cid T_PlayerConn]"] assms(1)
    by (induction "is") (auto simp: mgr_ok_def)
qed

definition mineral_at :: "(comp_type \<Rightarrow> nat) \<Rightarrow> scene_t \<Rightarrow> entity_id_t \<Rightarrow> u32 option" where
  "mineral_at cid s i = map_option mineral (Option.bind (comp_at (sc_mgr s) (cid T_PlayerConn, eid_idx i)) of_conn)"


lemma geteid_ok:
  assumes "scene_ok cid n s"
  obtains i where "geteid_fromconnid c s = em_get i" "live (sc_mgr s) i" "i \<in> scene_refs s"
proof (cases "map_of (connid2eid s) c")
  case None
  then show ?thesis using assms that [of 0] by (auto simp: geteid_fromconnid_def scene_ok_def scene_refs_def)
next
  case (Some i)
  then have "i \<in> scene_refs s" by (force simp: scene_refs_def dest: map_of_SomeD)
  then show ?thesis using assms Some that [of i] by (auto simp: geteid_fromconnid_def scene_ok_def)
qed

lemma conn_at:
  assumes "mgr_ok cid n m" "live m i"
  obtains c where "comp_at m (cid T_PlayerConn, eid_idx i) = Some (C_PlayerConn c)"
    "comp_get cid T_PlayerConn of_conn (em_get i) m = Inr (Some c)"
proof -
  have "em_inv m" "typed cid m" and "comp_at m (cid T_PlayerConn, eid_idx i) \<noteq> None"
    using assms by (auto simp: mgr_ok_def live_def view_types_def)
  then obtain x where x: "comp_at m (cid T_PlayerConn, eid_idx i) = Some x" "comp_type_of x = T_PlayerConn"
    unfolding typed_def by blast
  then obtain c where "x = C_PlayerConn c" by auto
  with x that [of c] comp_get_ok [OF \<open>em_inv m\<close> \<open>typed cid m\<close> assms(2), of T_PlayerConn of_conn] show ?thesis by simp
qed

text \<open>Writing the connection component of a live entity keeps the invariant.\<close>

lemma scene_conn_upd:
  assumes "inj cid" "scene_ok cid n s" "live (sc_mgr s) i"
  obtains m where "comp_add cid (C_PlayerConn c) (em_get i) (sc_mgr s) = Inr m" "scene_ok cid n (s\<lparr>sc_mgr := m\<rparr>)"
    "comp_at m = (comp_at (sc_mgr s))((cid T_PlayerConn, eid_idx i) \<mapsto> C_PlayerConn c)"
proof -
  obtain m where m: "comp_add cid (C_PlayerConn c) (em_get i) (sc_mgr s) = Inr m" "mgr_ok cid n m" "live m = live (sc_mgr s)"
    "comp_at m = (comp_at (sc_mgr s))((cid T_PlayerConn, eid_idx i) \<mapsto> C_PlayerConn c)"
    using mgr_ok_upd [OF assms(1) _ assms(3), of n "C_PlayerConn c"] assms(2) by (auto simp: scene_ok_def view_types_def)
  then have "scene_ok cid n (s\<lparr>sc_mgr := m\<rparr>)"
    using assms(2) by (auto simp: scene_ok_def scene_refs_def)
  with m that show ?thesis by blast
qed

lemma npc1_say_ok:
  assumes "inj cid" "scene_ok cid n s"
  obtains m where
    "npc1_say cid g player la ln ra rn txt q s = Inr (s\<lparr>sc_mgr := m\<rparr>,
       [(get_player_connid player g,
         Ntf_PlotDialogue \<lparr>leftAvatar = la, leftName = ln, rightAvatar = ra, rightName = rn, dialogueText = txt, showExitSceneButton = False\<rparr>)])"
    "scene_ok cid n (s\<lparr>sc_mgr := m\<rparr>)" "mineral_at cid (s\<lparr>sc_mgr := m\<rparr>) = mineral_at cid s"
proof -
  let ?ntf = "\<lparr>leftAvatar = la, leftName = ln, rightAvatar = ra, rightName = rn, dialogueText = txt, showExitSceneButton = False\<rparr>"
  obtain i where i: "geteid_fromconnid (get_player_connid player g) s = em_get i" "live (sc_mgr s) i"
    using geteid_ok [OF assms(2)] by blast
  obtain c where c: "comp_at (sc_mgr s) (cid T_PlayerConn, eid_idx i) = Some (C_PlayerConn c)"
    "comp_get cid T_PlayerConn of_conn (em_get i) (sc_mgr s) = Inr (Some c)"
    using conn_at [of cid n "sc_mgr s" i] assms(2) i(2) by (auto simp: scene_ok_def)
  obtain m where m: "comp_add cid (C_PlayerConn (c\<lparr>msgLastMsg := ?ntf\<rparr>)) (em_get i) (sc_mgr s) = Inr m"
    "scene_ok cid n (s\<lparr>sc_mgr := m\<rparr>)"
    "comp_at m = (comp_at (sc_mgr s))((cid T_PlayerConn, eid_idx i) \<mapsto> C_PlayerConn (c\<lparr>msgLastMsg := ?ntf\<rparr>))"
    using scene_conn_upd [OF assms i(2)] by blast
  have "mineral_at cid (s\<lparr>sc_mgr := m\<rparr>) = mineral_at cid s"
    using c(1) m(3) by (auto simp: mineral_at_def fun_eq_iff of_conn_def)
  with i c m that show ?thesis by (simp add: npc1_say_def Let_def)
qed

definition scene1_dialogue :: "string \<Rightarrow> nat \<Rightarrow> MsgPlotDialogue" where
  "scene1_dialogue player k =
     (if even k
      then \<lparr>leftAvatar = txt_lingyun_avatar, leftName = txt_lingyun, rightAvatar = [], rightName = [],
            dialogueText = ''    '' @ scene1_text k, showExitSceneButton = False\<rparr>
      else \<lparr>leftAvatar = [], leftName = [], rightAvatar = txt_user_avatar, rightName = txt_user @ player,
            dialogueText = ''    '' @ scene1_text k, showExitSceneButton = False\<rparr>)"

text \<open>What the player sees of segment \<open>k\<close> of the task.\<close>

definition scene1_shown :: "string \<Rightarrow> nat \<Rightarrow> game_ntf list" where
  "scene1_shown player k =
     (if k < 7 then [Ntf_PlotDialogue (scene1_dialogue player k), MsgPlaySound txt_button []]
      else if k = 7 then [MsgPlotEnd, MsgSay txt_welcome SYSTEM] else [])"

lemma segment_ok:
  assumes "inj cid" "scene_ok cid n s" "live (sc_mgr s) i" "k < 8"
  obtains m where
    "scene1_segment ndebug cid g player (em_get i) k s =
       Inr (s\<lparr>sc_mgr := m\<rparr>, map (Pair (get_player_connid player g)) (scene1_shown player k))"
    "scene_ok cid n (s\<lparr>sc_mgr := m\<rparr>)"
    "mineral_at cid (s\<lparr>sc_mgr := m\<rparr>) i = map_option (\<lambda>x. if k = 7 then x + 100 else x) (mineral_at cid s i)"
proof (cases "k < 7")
  case True
  define d where "d = scene1_dialogue player k"
  have d: "\<lparr>leftAvatar = leftAvatar d, leftName = leftName d, rightAvatar = rightAvatar d, rightName = rightName d,
      dialogueText = dialogueText d, showExitSceneButton = False\<rparr> = d"
    by (simp add: d_def scene1_dialogue_def)
  obtain m where m: "npc1_say cid g player (leftAvatar d) (leftName d) (rightAvatar d) (rightName d) (dialogueText d) False s =
      Inr (s\<lparr>sc_mgr := m\<rparr>, [(get_player_connid player g, Ntf_PlotDialogue d)])"
    "scene_ok cid n (s\<lparr>sc_mgr := m\<rparr>)" "mineral_at cid (s\<lparr>sc_mgr := m\<rparr>) = mineral_at cid s"
    by (rule npc1_say_ok [OF assms(1,2), of g player "leftAvatar d" "leftName d" "rightAvatar d" "rightName d" "dialogueText d" False,
          unfolded d])
  obtain eids where "entities_with_components [cid T_PlayerConn] (sc_entitys s) m = Inr eids"
    using search_ok [of cid n m 0 "sc_entitys s"] m(2) by (auto simp: scene_ok_def scene_refs_def)
  then have sound: "play_sound cid g player txt_button [] (s\<lparr>sc_mgr := m\<rparr>) =
      Inr [(get_player_connid player g, MsgPlaySound txt_button [])]"
    by (simp add: play_sound_def)
  have "scene1_segment ndebug cid g player (em_get i) k s =
      Inr (s\<lparr>sc_mgr := m\<rparr>, map (Pair (get_player_connid player g)) (scene1_shown player k))"
  proof (cases "even k")
    case even: True
    with m(1) True sound show ?thesis
      by (simp add: scene1_segment_def f_lingyun_say_def d_def scene1_dialogue_def scene1_shown_def)
  next
    case odd: False
    with m(1) True sound show ?thesis
      by (simp add: scene1_segment_def f_user_say_def d_def scene1_dialogue_def scene1_shown_def)
  qed
  with m(2,3) True that show ?thesis by (simp add: option.map_ident)
next
  case False
  then have k: "k = 7" using assms(4) by simp
  have ok: "mgr_ok cid n (sc_mgr s)" using assms(2) by (simp add: scene_ok_def)
  obtain eids where e: "entities_with_components [cid T_PlayerConn] (sc_entitys s) (sc_mgr s) = Inr eids"
    using search_ok [OF ok assms(3)] by blast
  obtain c where c: "comp_at (sc_mgr s) (cid T_PlayerConn, eid_idx i) = Some (C_PlayerConn c)"
    "comp_get cid T_PlayerConn of_conn (em_get i) (sc_mgr s) = Inr (Some c)"
    using conn_at [OF ok assms(3)] by blast
  obtain m where m: "comp_add cid (C_PlayerConn (c\<lparr>mineral := mineral c + 100\<rparr>)) (em_get i) (sc_mgr s) = Inr m"
    "scene_ok cid n (s\<lparr>sc_mgr := m\<rparr>)"
    "comp_at m = (comp_at (sc_mgr s))((cid T_PlayerConn, eid_idx i) \<mapsto> C_PlayerConn (c\<lparr>mineral := mineral c + 100\<rparr>))"
    using scene_conn_upd [OF assms(1-3)] by blast
  have "mineral_at cid (s\<lparr>sc_mgr := m\<rparr>) i = map_option (\<lambda>x. x + 100) (mineral_at cid s i)"
    using c(1) m(3) by (simp add: mineral_at_def of_conn_def)
  with m e c that k show ?thesis
    by (simp add: scene1_segment_def plotend_def static_say_def scene1_shown_def)
qed


section \<open>Entering and going on\<close>

lemma role_ok:
  assumes "mgr_ok cid n (sc_mgr s)" "live (sc_mgr s) i"
  shows "pack_addRoleRet False cid i s = Inl Assert_Failed" "\<exists>role. pack_addRoleRet True cid i s = Inr role"
    "\<exists>pos. pack_notifyPos cid i s = Inr pos" "comp_get cid T_Building of_building (em_get i) (sc_mgr s) = Inr None"
proof -
  have inv: "em_inv (sc_mgr s)" "typed cid (sc_mgr s)" using assms(1) by (simp_all add: mgr_ok_def)
  note get = comp_get_ok [OF inv assms(2)]
  have none: "comp_at (sc_mgr s) (cid t, eid_idx i) = None" if "t \<in> {T_Defence, T_Building, T_PlayerNickName, T_Resource}" for t
    using that assms(1) by (auto simp: mgr_ok_def view_types_def)
  have some: "comp_at (sc_mgr s) (cid t, eid_idx i) \<noteq> None" if "t \<in> view_types" for t
    using that assms by (auto simp: mgr_ok_def live_def)
  have ty: "comp_type_of c = t" if "comp_at (sc_mgr s) (cid t, eid_idx i) = Some c" for t c
    using that inv(2) by (simp add: typed_def)
  obtain c1 c3 p where c: "comp_get cid T_UnitConfig of_config (em_get i) (sc_mgr s) = Inr (Some c1)"
    "comp_get cid T_OType of_otype (em_get i) (sc_mgr s) = Inr (Some c3)" "comp_get cid T_Pos of_pos (em_get i) (sc_mgr s) = Inr (Some p)"
    using get [of T_UnitConfig of_config] get [of T_OType of_otype] get [of T_Pos of_pos]
      some [of T_UnitConfig] some [of T_OType] some [of T_Pos] ty [of T_UnitConfig] ty [of T_OType] ty [of T_Pos]
    by (fastforce simp: view_types_def)
  have d: "comp_get cid T_Defence of_defence (em_get i) (sc_mgr s) = Inr None"
    "comp_get cid T_PlayerNickName of_nick (em_get i) (sc_mgr s) = Inr None"
    "comp_get cid T_Resource of_resource (em_get i) (sc_mgr s) = Inr None"
    using get [of T_Defence of_defence] get [of T_PlayerNickName of_nick] get [of T_Resource of_resource] none by simp_all
  show "comp_get cid T_Building of_building (em_get i) (sc_mgr s) = Inr None"
    using get [of T_Building of_building] none by simp
  show "pack_addRoleRet False cid i s = Inl Assert_Failed" "\<exists>role. pack_addRoleRet True cid i s = Inr role"
    "\<exists>pos. pack_notifyPos cid i s = Inr pos"
    using c d by (auto simp: pack_addRoleRet_def headName_def pack_notifyPos_def Let_def)
qed

lemma show_ok:
  assumes "mgr_ok cid n (sc_mgr s)" "\<forall>i \<in> set eids. live (sc_mgr s) i"
  shows "\<exists>outs. show_entities True cid connid s eids = Inr outs"
  using assms(2)
proof (induction eids)
  case (Cons i eids)
  then obtain outs where "show_entities True cid connid s eids = Inr outs" by auto
  with role_ok [OF assms(1), of i] Cons.prems show ?case by auto
qed simp

lemma show_assert:
  assumes "mgr_ok cid n (sc_mgr s)" "\<forall>i \<in> set eids. live (sc_mgr s) i" "eids \<noteq> []"
  shows "show_entities False cid connid s eids = Inl Assert_Failed"
  using assms role_ok(1) [OF assms(1)] by (cases eids) auto

lemma mgr_ok_view:
  assumes "inj cid" "mgr_ok cid n m" "n + 1 < 2 ^ 32"
  obtains i m1 m2 where "em_create m = Inr (i, m1)" "comp_add_all cid (view_components connid) (em_get i) m1 = Inr m2"
    "mgr_ok cid (n + 1) m2" "live m2 i" "\<And>j. live m j \<Longrightarrow> live m2 j"
    "comp_at m2 (cid T_PlayerConn, eid_idx i) =
       Some (C_PlayerConn \<lparr>pc_connid = connid, msgLastMsg = dialogue_empty, gas = 0, mineral = 0\<rparr>)"
proof -
  have m: "em_inv m" "free_list m = []" "unat (index_counter m) + 1 < 2 ^ 32" "typed cid m"
    using assms by (auto simp: mgr_ok_def)
  obtain i m1 where c: "em_create m = Inr (i, m1)" using em_create_fresh [OF m(1-3)] by blast
  note create = comp_at_create [OF m(1-3) c]
  have n1: "unat (index_counter m1) = unat (index_counter m) + 1"
    using create(3) m(3) by (simp add: unat_word_ariths)
  have m1: "em_inv m1" "typed cid m1" "live m1 i"
    using em_inv_create [OF m(1) c m(3)] m(4) create n1 by (auto simp: typed_def live_def)
  obtain m2 where m2: "comp_add_all cid (view_components connid) (em_get i) m1 = Inr m2" "em_inv m2" "free_list m2 = free_list m1"
    "index_counter m2 = index_counter m1" "typed cid m2"
    "comp_at m2 = comp_at m1 ++ map_of (rev (map (\<lambda>c. ((cid (comp_type_of c), eid_idx i), c)) (view_components connid)))"
    using comp_add_all_ok [OF m1(1,3) assms(1) m1(2)] by blast
  have at: "comp_at m2 (cid t, k) =
      (if k = eid_idx i \<and> t \<in> insert T_Aoi view_types then
         map_of (rev (map (\<lambda>c. (comp_type_of c, c)) (view_components connid))) t
       else comp_at m (cid t, k))" for t k
    using create(1) assms(1)
    by (cases t) (auto simp: m2(6) map_add_def view_components_def view_types_def inj_eq)
  have "comp_at m2 (cid t, k) \<noteq> None" if "t \<in> view_types" "unat k < unat (index_counter m2)" for t k
  proof (cases "k = eid_idx i")
    case True
    then show ?thesis using that by (auto simp: at view_types_def view_components_def)
  next
    case False
    then have "unat k \<noteq> unat (index_counter m)" using create(2) by (auto simp: word_unat_eq_iff)
    then have "unat k < unat (index_counter m)" using that(2) m2(4) n1 by simp
    then show ?thesis using that assms(2) False by (auto simp: at mgr_ok_def)
  qed
  moreover have "comp_at m2 (cid t, k) = None" if "t \<notin> insert T_Aoi view_types" for t k
    using that assms(2) by (simp add: at mgr_ok_def)
  ultimately have "mgr_ok cid (n + 1) m2"
    using m2 create n1 assms(2) by (auto simp: mgr_ok_def)
  moreover have "live m2 i" "\<And>j. live m j \<Longrightarrow> live m2 j"
    using m1(3) m2(4) n1 by (auto simp: live_def)
  ultimately show ?thesis
    using that [OF c m2(1)] by (simp add: at view_types_def view_components_def)
qed


text \<open>A scene before anybody entered it has no entity yet.\<close>

definition scene_pre :: "(comp_type \<Rightarrow> nat) \<Rightarrow> nat \<Rightarrow> scene_t \<Rightarrow> bool" where
  "scene_pre cid n s \<longleftrightarrow>
     mgr_ok cid n (sc_mgr s) \<and> (\<forall>i \<in> scene_refs s - {0}. live (sc_mgr s) i) \<and>
     (case sc_gen s of Some t \<Rightarrow> ent_mgr (tk_entity t) | None \<Rightarrow> True)"

lemma scene_ok_pre: "scene_ok cid n s \<Longrightarrow> scene_pre cid n s"
  by (auto simp: scene_ok_def scene_pre_def)

lemma scene_pre_new: "scene_pre cid n (scene_new c now)"
  by (auto simp: scene_pre_def scene_new_def scene_refs_def mgr_ok_new)

lemma live_0: "live m i \<Longrightarrow> live m 0"
  by (simp add: live_def eid_idx_def)

lemma snd_update: "snd ` set (AList.update k v al) \<subseteq> insert v (snd ` set al)"
  by (induction al) auto

lemma enter_ok:
  assumes "inj cid" "scene_pre cid n s" "n + 1 < 2 ^ 32" "show_entities ndebug cid connid s (sc_entitys s) = Inr outs"
  obtains s' i where "enter_scene ndebug cid connid s = Inr (s', (connid, MsgEnterSpace 1) # outs)" "scene_ok cid (n + 1) s'"
    "geteid_fromconnid connid s' = em_get i" "live (sc_mgr s') i" "mineral_at cid s' i = Some 0"
    "sc_gen s' = sc_gen s" "sc_entitys s' \<noteq> []"
proof -
  obtain i m1 m2 where m: "em_create (sc_mgr s) = Inr (i, m1)" "comp_add_all cid (view_components connid) (em_get i) m1 = Inr m2"
    "mgr_ok cid (n + 1) m2" "live m2 i" "\<And>j. live (sc_mgr s) j \<Longrightarrow> live m2 j"
    "comp_at m2 (cid T_PlayerConn, eid_idx i) =
       Some (C_PlayerConn \<lparr>pc_connid = connid, msgLastMsg = dialogue_empty, gas = 0, mineral = 0\<rparr>)"
    using mgr_ok_view [OF assms(1) _ assms(3), of "sc_mgr s" connid] assms(2) by (auto simp: scene_pre_def)
  let ?ents = "if i \<in> set (sc_entitys s) then sc_entitys s else sc_entitys s @ [i]"
  define s' where "s' = s\<lparr>sc_mgr := m2, sc_entitys := ?ents, connid2eid := AList.update connid i (connid2eid s)\<rparr>"
  have "scene_refs s' \<subseteq> insert 0 (insert i (scene_refs s))"
    using snd_update [of connid i "connid2eid s"] by (auto simp: s'_def scene_refs_def split: option.splits)
  moreover have "live m2 j" if "j \<in> insert 0 (insert i (scene_refs s))" for j
    using that m(4,5) live_0 [OF m(4)] assms(2) by (cases "j = 0") (auto simp: scene_pre_def)
  ultimately have "scene_ok cid (n + 1) s'"
    using m(3) assms(2) by (auto simp: scene_ok_def scene_pre_def s'_def)
  moreover have "enter_scene ndebug cid connid s = Inr (s', (connid, MsgEnterSpace 1) # outs)"
    using assms(4) m(1,2) by (simp add: enter_scene_def create_entity_def em_get_def s'_def)
  moreover have "geteid_fromconnid connid s' = em_get i" "live (sc_mgr s') i" "mineral_at cid s' i = Some 0"
    "sc_gen s' = sc_gen s" "sc_entitys s' \<noteq> []"
    using m(4,6) by (auto simp: s'_def geteid_fromconnid_def update_conv' mineral_at_def of_conn_def)
  ultimately show ?thesis using that by blast
qed


lemma advance_ok:
  assumes "inj cid" "scene_ok cid n s" "sc_gen s = Some \<lparr>tk_pos = k, tk_entity = em_get i\<rparr>"
  obtains s' where
    "gen_advance ndebug cid g player s = Inr (s', map (Pair (get_player_connid player g)) (scene1_shown player k))"
    "scene_ok cid n s'" "sc_gen s' = Some \<lparr>tk_pos = (if k < 8 then k + 1 else k), tk_entity = em_get i\<rparr>"
    "mineral_at cid s' i = map_option (\<lambda>x. if k = 7 then x + 100 else x) (mineral_at cid s i)" "sc_entitys s' = sc_entitys s"
    "geteid_fromconnid c s' = geteid_fromconnid c s"
proof (cases "k < 8")
  case True
  have "live (sc_mgr s) i" using assms(2,3) by (auto simp: scene_ok_def scene_refs_def em_get_def)
  then obtain m where m: "scene1_segment ndebug cid g player (em_get i) k s =
       Inr (s\<lparr>sc_mgr := m\<rparr>, map (Pair (get_player_connid player g)) (scene1_shown player k))"
    "scene_ok cid n (s\<lparr>sc_mgr := m\<rparr>)"
    "mineral_at cid (s\<lparr>sc_mgr := m\<rparr>) i = map_option (\<lambda>x. if k = 7 then x + 100 else x) (mineral_at cid s i)"
    using segment_ok [OF assms(1,2) _ True] by blast
  let ?s = "s\<lparr>sc_mgr := m, sc_gen := Some \<lparr>tk_pos = k + 1, tk_entity = em_get i\<rparr>\<rparr>"
  have "gen_advance ndebug cid g player s = Inr (?s, map (Pair (get_player_connid player g)) (scene1_shown player k))"
    using assms(3) True m(1) by (simp add: gen_advance_def gen_bool_def)
  moreover have "scene_ok cid n ?s"
    using m(2) assms(3) by (auto simp: scene_ok_def scene_refs_def)
  moreover have "mineral_at cid ?s i = map_option (\<lambda>x. if k = 7 then x + 100 else x) (mineral_at cid s i)"
    using m(3) by (simp add: mineral_at_def)
  ultimately show ?thesis using that [of ?s] True by (simp add: geteid_fromconnid_def)
next
  case False
  then show ?thesis
    using that [of s] assms by (simp add: gen_advance_def gen_bool_def scene1_shown_def option.map_ident)
qed

lemma begin_ok:
  assumes "inj cid" "scene_ok cid n s" "geteid_fromconnid (get_player_connid player g) s = em_get i"
  obtains s' where
    "scene1_begin ndebug cid g player s = Inr (s', map (Pair (get_player_connid player g)) (scene1_shown player 0))"
    "scene_ok cid n s'" "sc_gen s' = Some \<lparr>tk_pos = 1, tk_entity = em_get i\<rparr>" "mineral_at cid s' i = mineral_at cid s i"
    "sc_entitys s' = sc_entitys s" "geteid_fromconnid c s' = geteid_fromconnid c s"
proof -
  have i: "live (sc_mgr s) i" "i \<in> scene_refs s"
    using geteid_ok [OF assms(2), of "get_player_connid player g"] assms(3) by (auto simp: em_get_def)
  have z: "(0::nat) < 8" by simp
  obtain m where m: "scene1_segment ndebug cid g player (em_get i) 0 s =
       Inr (s\<lparr>sc_mgr := m\<rparr>, map (Pair (get_player_connid player g)) (scene1_shown player 0))"
    "scene_ok cid n (s\<lparr>sc_mgr := m\<rparr>)"
    "mineral_at cid (s\<lparr>sc_mgr := m\<rparr>) i = map_option (\<lambda>x. if (0::nat) = 7 then x + 100 else x) (mineral_at cid s i)"
    by (rule segment_ok [OF assms(1,2) i(1) z])
  let ?s = "s\<lparr>sc_mgr := m, sc_gen := Some \<lparr>tk_pos = 1, tk_entity = em_get i\<rparr>\<rparr>"
  have "scene1_begin ndebug cid g player s = Inr (?s, map (Pair (get_player_connid player g)) (scene1_shown player 0))"
    using assms(3) m(1) by (simp add: scene1_begin_def Let_def)
  moreover have "live m i" using m(2) i(2) by (auto simp: scene_ok_def scene_refs_def)
  then have "scene_ok cid n ?s"
    using m(2) by (auto simp: scene_ok_def scene_refs_def em_get_def)
  moreover have "mineral_at cid ?s i = mineral_at cid s i"
    using m(3) by (simp add: mineral_at_def option.map_ident)
  ultimately show ?thesis using that [of ?s] by (simp add: geteid_fromconnid_def)
qed


section \<open>Runs of the game\<close>

datatype scene_ev = Ev_game game_ev | Ev_enter nat u64 u32 | Ev_plot u64

definition scene_step :: "bool \<Rightarrow> (comp_type \<Rightarrow> nat) \<Rightarrow> scene_ev \<Rightarrow> scene_game \<Rightarrow> (scene_game \<times> scene_out list) result" where
  "scene_step ndebug cid ev G =
     (case ev of
        Ev_game e \<Rightarrow> Inr (G\<lparr>sg_game := game_step (sg_game G) e\<rparr>, [])
      | Ev_enter now connid scid \<Rightarrow> swallow G (on_recv_enter ndebug cid now connid scid G)
      | Ev_plot connid \<Rightarrow> swallow G (on_recv_plot_end ndebug cid connid G))"

fun scene_run :: "bool \<Rightarrow> (comp_type \<Rightarrow> nat) \<Rightarrow> scene_ev list \<Rightarrow> scene_game \<Rightarrow> (scene_game \<times> scene_out list) result" where
  "scene_run ndebug cid [] G = Inr (G, [])"
| "scene_run ndebug cid (ev # evs) G =
     bind_result (scene_step ndebug cid ev G) (\<lambda>(G1, o1).
     bind_result (scene_run ndebug cid evs G1) (\<lambda>(G2, o2). Inr (G2, o1 @ o2)))"

text \<open>Every scene of the table was entered and its task started.\<close>

definition started :: "(comp_type \<Rightarrow> nat) \<Rightarrow> nat \<Rightarrow> scene_t \<Rightarrow> bool" where
  "started cid n s \<longleftrightarrow> scene_ok cid n s \<and> (\<exists>k i. sc_gen s = Some \<lparr>tk_pos = k, tk_entity = em_get i\<rparr>) \<and> sc_entitys s \<noteq> []"

definition scenes_ok :: "(comp_type \<Rightarrow> nat) \<Rightarrow> nat \<Rightarrow> scene_game \<Rightarrow> bool" where
  "scenes_ok cid n G \<longleftrightarrow> (\<forall>name s. map_of (scene1_map G) name = Some s \<longrightarrow> started cid n s)"

lemma started_mono: "started cid n s \<Longrightarrow> started cid (Suc n) s"
  by (auto simp: started_def scene_ok_def intro: mgr_ok_mono)

lemma scenes_ok_mono: "scenes_ok cid n G \<Longrightarrow> scenes_ok cid (Suc n) G"
  by (auto simp: scenes_ok_def intro: started_mono)

lemma scenes_ok_update:
  "scenes_ok cid n G \<Longrightarrow> started cid n s \<Longrightarrow> scenes_ok cid n (G\<lparr>scene1_map := AList.update name s (scene1_map G)\<rparr>)"
  by (auto simp: scenes_ok_def update_conv')

text \<open>\<open>destroy_scene\<close> does nothing.\<close>

lemma update_same: "map_of al k = Some v \<Longrightarrow> AList.update k v al = al"
  by (induction al) auto

lemma enter_unfold:
  "on_recv_enter ndebug cid now connid scid G =
     (case map_of (gm_players (sg_game G)) connid of
        None \<Rightarrow> Inl Out_Of_Range
      | Some name \<Rightarrow>
          (case map_of (scene_configs G) scid of
             None \<Rightarrow> Inl Out_Of_Range
           | Some c \<Rightarrow>
               (case map_of (scene1_map G) name of
                  Some s \<Rightarrow>
                    bind_result (enter_scene ndebug cid connid s) (\<lambda>(s1, o1).
                      Inr (G\<lparr>scene1_map := AList.update name s1 (scene1_map G)\<rparr>, o1))
                | None \<Rightarrow>
                    bind_result (enter_scene ndebug cid connid (scene_new c now)) (\<lambda>(s1, o1).
                    bind_result (scene1_begin ndebug cid (sg_game G) name s1) (\<lambda>(s2, o2).
                      Inr (G\<lparr>scene1_map := AList.update name s2 (AList.update name (scene_new c now) (scene1_map G))\<rparr>, o1 @ o2))))))"
  by (auto simp: on_recv_enter_def get_scene1_def destroy_scene_def update_same bind_result_def Let_def
      split: option.split sum.split)

lemma reenter_fails:
  assumes "scenes_ok cid n G" "map_of (gm_players (sg_game G)) connid = Some name" "map_of (scene_configs G) scid = Some c"
    "map_of (scene1_map G) name = Some s"
  shows "on_recv_enter False cid now connid scid G = Inl Assert_Failed"
proof -
  have s: "started cid n s" using assms(1,4) by (simp add: scenes_ok_def)
  then have "show_entities False cid connid s (sc_entitys s) = Inl Assert_Failed"
    by (intro show_assert [of cid n]) (auto simp: started_def scene_ok_def scene_refs_def)
  then show ?thesis using assms by (simp add: enter_unfold enter_scene_def)
qed

lemma first_enter_ok:
  assumes "inj cid" "n + 1 < 2 ^ 32" "map_of (gm_players (sg_game G)) connid = Some name"
    "map_of (scene_configs G) scid = Some c" "map_of (scene1_map G) name = None"
  obtains s i where
    "on_recv_enter ndebug cid now connid scid G =
       Inr (G\<lparr>scene1_map := AList.update name s (AList.update name (scene_new c now) (scene1_map G))\<rparr>,
            (connid, MsgEnterSpace 1) # map (Pair (get_player_connid name (sg_game G))) (scene1_shown name 0))"
    "started cid (n + 1) s" "sc_gen s = Some \<lparr>tk_pos = 1, tk_entity = em_get i\<rparr>"
    "get_player_connid name (sg_game G) = connid \<Longrightarrow> geteid_fromconnid connid s = em_get i \<and> mineral_at cid s i = Some 0"
proof -
  have new: "show_entities ndebug cid connid (scene_new c now) (sc_entitys (scene_new c now)) = Inr []"
    by (simp add: scene_new_def)
  obtain s1 j where s1: "enter_scene ndebug cid connid (scene_new c now) = Inr (s1, [(connid, MsgEnterSpace 1)])"
    "scene_ok cid (n + 1) s1" "geteid_fromconnid connid s1 = em_get j" "mineral_at cid s1 j = Some 0" "sc_entitys s1 \<noteq> []"
    by (rule enter_ok [OF assms(1) scene_pre_new assms(2) new])
  obtain i where i: "geteid_fromconnid (get_player_connid name (sg_game G)) s1 = em_get i"
    using geteid_ok [OF s1(2)] by blast
  obtain s where s: "scene1_begin ndebug cid (sg_game G) name s1 =
      Inr (s, map (Pair (get_player_connid name (sg_game G))) (scene1_shown name 0))"
    "scene_ok cid (n + 1) s" "sc_gen s = Some \<lparr>tk_pos = 1, tk_entity = em_get i\<rparr>" "mineral_at cid s i = mineral_at cid s1 i"
    "sc_entitys s = sc_entitys s1" "geteid_fromconnid connid s = geteid_fromconnid connid s1"
    by (rule begin_ok [OF assms(1) s1(2) i])
  have "started cid (n + 1) s" using s s1(5) by (auto simp: started_def)
  moreover have "geteid_fromconnid connid s = em_get i \<and> mineral_at cid s i = Some 0" if "get_player_connid name (sg_game G) = connid"
    using that i s(4,6) s1(3,4) by (auto simp: em_get_def)
  ultimately show ?thesis
    using that [OF _ _ s(3)] assms s1(1) s(1) by (auto simp: enter_unfold)
qed


lemma again_enter_ok:
  assumes "inj cid" "n + 1 < 2 ^ 32" "started cid n s"
  obtains s' outs where "enter_scene True cid connid s = Inr (s', outs)" "started cid (n + 1) s'"
proof -
  have ok: "scene_ok cid n s" using assms(3) by (simp add: started_def)
  obtain outs where o: "show_entities True cid connid s (sc_entitys s) = Inr outs"
    using show_ok [of cid n s "sc_entitys s" connid] ok by (auto simp: scene_ok_def scene_refs_def)
  obtain s' where "enter_scene True cid connid s = Inr (s', (connid, MsgEnterSpace 1) # outs)"
    "scene_ok cid (n + 1) s'" "sc_gen s' = sc_gen s" "sc_entitys s' \<noteq> []"
    by (rule enter_ok [OF assms(1) scene_ok_pre [OF ok] assms(2) o])
  with that assms(3) show ?thesis by (auto simp: started_def)
qed

lemma plot_step_safe:
  assumes "inj cid" "scenes_ok cid n G"
  shows "\<exists>G' outs. scene_step ndebug cid (Ev_plot connid) G = Inr (G', outs) \<and> scenes_ok cid (n + 1) G'"
proof (cases "map_of (gm_players (sg_game G)) connid")
  case None
  then show ?thesis using scenes_ok_mono [OF assms(2)] by (simp add: scene_step_def on_recv_plot_end_def swallow_def)
next
  case (Some name)
  note up = scenes_ok_mono [OF assms(2)]
  show ?thesis
  proof (cases "map_of (scene1_map G) name")
    case None
    then show ?thesis using up Some by (simp add: scene_step_def on_recv_plot_end_def swallow_def)
  next
    case s: (Some s)
    then obtain k i where st: "scene_ok cid n s" "sc_gen s = Some \<lparr>tk_pos = k, tk_entity = em_get i\<rparr>" "sc_entitys s \<noteq> []"
      using assms(2) unfolding scenes_ok_def started_def by blast
    obtain s' where "gen_advance ndebug cid (sg_game G) name s =
        Inr (s', map (Pair (get_player_connid name (sg_game G))) (scene1_shown name k))"
      "scene_ok cid n s'" "sc_gen s' = Some \<lparr>tk_pos = (if k < 8 then k + 1 else k), tk_entity = em_get i\<rparr>" "sc_entitys s' = sc_entitys s"
      by (rule advance_ok [OF assms(1) st(1,2)])
    then have "gen_advance ndebug cid (sg_game G) name s =
        Inr (s', map (Pair (get_player_connid name (sg_game G))) (scene1_shown name k))" "started cid (Suc n) s'"
      using st(3) started_mono [of cid n s'] by (auto simp: started_def)
    then show ?thesis
      using Some s scenes_ok_update [OF up] by (simp add: scene_step_def on_recv_plot_end_def swallow_def)
  qed
qed

lemma again_step_safe:
  assumes "inj cid" "n + 1 < 2 ^ 32" "scenes_ok cid n G" "map_of (gm_players (sg_game G)) connid = Some name"
    "map_of (scene_configs G) scid = Some c" "map_of (scene1_map G) name = Some s"
  shows "case scene_step ndebug cid (Ev_enter now connid scid) G of
    Inl e \<Rightarrow> \<not> ndebug \<and> e = Assert_Failed | Inr (G', _) \<Rightarrow> scenes_ok cid (n + 1) G'"
proof (cases ndebug)
  case False
  then show ?thesis
    using reenter_fails [OF assms(3-6)] by (simp add: scene_step_def swallow_def)
next
  case True
  have "started cid n s" using assms(3,6) by (simp add: scenes_ok_def)
  from again_enter_ok [OF assms(1,2) this, of connid] obtain s' outs
    where "enter_scene True cid connid s = Inr (s', outs)" "started cid (Suc n) s'" by auto
  then show ?thesis
    using True assms(4-6) scenes_ok_update [OF scenes_ok_mono [OF assms(3)]] by (simp add: scene_step_def swallow_def enter_unfold)
qed

lemma scene_step_safe:
  assumes "inj cid" "n + 1 < 2 ^ 32" "scenes_ok cid n G"
  shows "case scene_step ndebug cid ev G of Inl e \<Rightarrow> \<not> ndebug \<and> e = Assert_Failed | Inr (G', _) \<Rightarrow> scenes_ok cid (n + 1) G'"
proof (cases ev)
  case (Ev_game e)
  then show ?thesis using scenes_ok_mono [OF assms(3)] by (simp add: scene_step_def scenes_ok_def)
next
  case (Ev_plot connid)
  with plot_step_safe [OF assms(1,3), of ndebug connid] show ?thesis by auto
next
  case (Ev_enter now connid scid)
  note up = scenes_ok_mono [OF assms(3)]
  consider (bad) "map_of (gm_players (sg_game G)) connid = None \<or> map_of (scene_configs G) scid = None"
    | (new) name c where "map_of (gm_players (sg_game G)) connid = Some name" "map_of (scene_configs G) scid = Some c"
        "map_of (scene1_map G) name = None"
    | (old) name c s where "map_of (gm_players (sg_game G)) connid = Some name" "map_of (scene_configs G) scid = Some c"
        "map_of (scene1_map G) name = Some s"
    by fastforce
  then show ?thesis
  proof cases
    case bad
    then show ?thesis
      using up Ev_enter by (auto simp: scene_step_def swallow_def enter_unfold split: option.splits)
  next
    case new
    obtain s outs where "on_recv_enter ndebug cid now connid scid G =
        Inr (G\<lparr>scene1_map := AList.update name s (AList.update name (scene_new c now) (scene1_map G))\<rparr>, outs)" "started cid (n + 1) s"
      by (rule first_enter_ok [OF assms(1,2) new])
    then show ?thesis
      using Ev_enter up by (auto simp: scene_step_def swallow_def scenes_ok_def update_conv')
  next
    case old
    from again_step_safe [OF assms old] Ev_enter show ?thesis by simp
  qed
qed

lemma scene_run_safe:
  assumes "inj cid" "n + length evs < 2 ^ 32" "scenes_ok cid n G"
  shows "case scene_run ndebug cid evs G of
      Inl e \<Rightarrow> \<not> ndebug \<and> e = Assert_Failed
    | Inr (G', _) \<Rightarrow> scenes_ok cid (n + length evs) G'"
  using assms(2,3)
proof (induction evs arbitrary: n G)
  case (Cons ev evs)
  have n: "n + 1 < 2 ^ 32" "n + 1 + length evs < 2 ^ 32" using Cons.prems(1) by simp_all
  show ?case
    using scene_step_safe [OF assms(1) n(1) Cons.prems(2), of ndebug ev] Cons.IH [OF n(2)]
    by (fastforce simp: bind_result_def split: sum.splits prod.splits)
qed simp

text \<open>C21. Type and memory safety of the single player scenes: under every sequence of logins, disconnects, scene entries and
  plot steps, every component pool holds components of its own type, every stored entity id lies inside the pools and no access leaves
  them, no null component is dereferenced; the only failure is an \<open>assert\<close>, and none with \<open>NDEBUG\<close>.\<close>

theorem scene_memory_safe:
  assumes "inj cid" "length evs < 2 ^ 32" "scene1_map G = []"
  shows "case scene_run ndebug cid evs G of
      Inl e \<Rightarrow> \<not> ndebug \<and> e = Assert_Failed
    | Inr (G', _) \<Rightarrow> \<forall>name s. map_of (scene1_map G') name = Some s \<longrightarrow>
        em_inv (sc_mgr s) \<and> typed cid (sc_mgr s) \<and> (\<forall>i \<in> scene_refs s. live (sc_mgr s) i)"
proof -
  have "scenes_ok cid 0 G" using assms(3) by (simp add: scenes_ok_def)
  from scene_run_safe [OF assms(1) _ this, of evs ndebug] assms(2) show ?thesis
    by (auto simp: scenes_ok_def started_def scene_ok_def mgr_ok_def split: sum.splits)
qed

text \<open>C40. Entering a scene a second time fails: the view port of the first visit has no \<open>DefenceCompoent\<close>, which
  \<open>pack_addRoleRet\<close> asserts.\<close>

theorem reenter_scene_aborts:
  assumes "inj cid" "length evs < 2 ^ 32" "scene1_map G = []" "scene_run False cid evs G = Inr (G', outs)"
    "map_of (gm_players (sg_game G')) connid = Some name" "map_of (scene_configs G') scid = Some c"
    "map_of (scene1_map G') name = Some s"
  shows "scene_step False cid (Ev_enter now connid scid) G' = Inl Assert_Failed"
proof -
  have "scenes_ok cid 0 G" using assms(3) by (simp add: scenes_ok_def)
  from scene_run_safe [OF assms(1) _ this, of evs False] assms(2,4)
  have "scenes_ok cid (length evs) G'" by simp
  from reenter_fails [OF this assms(5-7)] show ?thesis by (simp add: scene_step_def swallow_def)
qed


section \<open>The plot\<close>

lemma plots_ok:
  assumes "inj cid" "map_of (gm_players (sg_game G)) connid = Some name" "get_player_connid name (sg_game G) = connid"
    "map_of (scene1_map G) name = Some s" "scene_ok cid n s" "sc_gen s = Some \<lparr>tk_pos = k, tk_entity = em_get i\<rparr>"
    "geteid_fromconnid connid s = em_get i" "mineral_at cid s i = Some x" "k \<le> 8"
  shows "\<exists>G' s'. scene_run ndebug cid (replicate j (Ev_plot connid)) G =
      Inr (G', map (Pair connid) (concat (map (scene1_shown name) [k..<k + j]))) \<and>
    map_of (scene1_map G') name = Some s' \<and> geteid_fromconnid connid s' = em_get i \<and>
    mineral_at cid s' i = Some (if k < 8 \<and> 8 \<le> k + j then x + 100 else x)"
  using assms(2-)
proof (induction j arbitrary: G s k x)
  case 0
  then show ?case by auto
next
  case (Suc j)
  obtain s1 where s1: "gen_advance ndebug cid (sg_game G) name s = Inr (s1, map (Pair connid) (scene1_shown name k))"
    "scene_ok cid n s1" "sc_gen s1 = Some \<lparr>tk_pos = (if k < 8 then k + 1 else k), tk_entity = em_get i\<rparr>"
    "mineral_at cid s1 i = map_option (\<lambda>x. if k = 7 then x + 100 else x) (mineral_at cid s i)"
    "geteid_fromconnid connid s1 = geteid_fromconnid connid s"
    by (rule advance_ok [OF assms(1) Suc.prems(4,5), of ndebug "sg_game G" name connid, unfolded Suc.prems(2)])
  let ?G = "G\<lparr>scene1_map := AList.update name s1 (scene1_map G)\<rparr>"
  have step: "scene_step ndebug cid (Ev_plot connid) G = Inr (?G, map (Pair connid) (scene1_shown name k))"
    using Suc.prems(1,3) s1(1) by (simp add: scene_step_def on_recv_plot_end_def swallow_def)
  define k' where "k' = (if k < 8 then k + 1 else k)"
  have late: "scene1_shown name q = []" if "8 \<le> q" for q using that by (simp add: scene1_shown_def)
  have out: "concat (map (scene1_shown name) [k..<k + Suc j]) = scene1_shown name k @ concat (map (scene1_shown name) [k'..<k' + j])"
  proof (cases "k < 8")
    case True
    then show ?thesis by (simp add: k'_def upt_conv_Cons del: upt_Suc)
  next
    case False
    then show ?thesis using late by (auto simp: k'_def concat_eq_Nil_conv)
  qed
  obtain G' s' where "scene_run ndebug cid (replicate j (Ev_plot connid)) ?G =
      Inr (G', map (Pair connid) (concat (map (scene1_shown name) [k'..<k' + j])))"
    "map_of (scene1_map G') name = Some s'" "geteid_fromconnid connid s' = em_get i"
    "mineral_at cid s' i = Some (if k' < 8 \<and> 8 \<le> k' + j then (if k = 7 then x + 100 else x) + 100 else (if k = 7 then x + 100 else x))"
    using Suc.IH [of ?G s1 k' "if k = 7 then x + 100 else x"] Suc.prems s1
    by (auto simp: k'_def update_conv' split: if_splits)
  moreover have "(if k' < 8 \<and> 8 \<le> k' + j then (if k = 7 then x + 100 else x) + 100 else (if k = 7 then x + 100 else x)) =
      (if k < 8 \<and> 8 \<le> k + Suc j then x + 100 else x)"
    by (auto simp: k'_def)
  ultimately show ?case
    using step out by (simp del: upt_Suc)
qed

text \<open>C22. The plot of the training scene: a logged-in player who enters the scene and then reports \<open>j\<close> ends of a dialogue sees
  the scene, the first dialogue and then one further dialogue per report, in the order of the script, each with its sound; the
  seventh report ends the plot with the welcome line and pays 100 minerals to the view port of the player, once; further reports do nothing.\<close>

theorem scene_plot_runs:
  assumes "inj cid" "map_of (gm_players (sg_game G)) connid = Some name" "map_of (name2id (sg_game G)) name = Some connid"
    "map_of (scene_configs G) scid = Some c" "map_of (scene1_map G) name = None"
  shows "\<exists>G' s e. scene_run ndebug cid (Ev_enter now connid scid # replicate j (Ev_plot connid)) G =
      Inr (G', map (Pair connid) (MsgEnterSpace 1 # concat (map (scene1_shown name) [0..<Suc j]))) \<and>
    map_of (scene1_map G') name = Some s \<and> geteid_fromconnid connid s = em_get e \<and>
    mineral_at cid s e = Some (if 7 \<le> j then 100 else 0)"
proof -
  have conn: "get_player_connid name (sg_game G) = connid" using assms(3) by (simp add: get_player_connid_def)
  have n: "0 + 1 < (2 ^ 32 :: nat)" by simp
  obtain s i where enter: "on_recv_enter ndebug cid now connid scid G =
       Inr (G\<lparr>scene1_map := AList.update name s (AList.update name (scene_new c now) (scene1_map G))\<rparr>,
            (connid, MsgEnterSpace 1) # map (Pair connid) (scene1_shown name 0))"
    and s: "started cid (0 + 1) s" "sc_gen s = Some \<lparr>tk_pos = 1, tk_entity = em_get i\<rparr>"
      "geteid_fromconnid connid s = em_get i \<and> mineral_at cid s i = Some 0"
    using first_enter_ok [OF assms(1) n assms(2,4,5), of ndebug now] conn by metis
  let ?G = "G\<lparr>scene1_map := AList.update name s (AList.update name (scene_new c now) (scene1_map G))\<rparr>"
  have "\<exists>G' s'. scene_run ndebug cid (replicate j (Ev_plot connid)) ?G =
      Inr (G', map (Pair connid) (concat (map (scene1_shown name) [1..<1 + j]))) \<and>
    map_of (scene1_map G') name = Some s' \<and> geteid_fromconnid connid s' = em_get i \<and>
    mineral_at cid s' i = Some (if (1::nat) < 8 \<and> 8 \<le> 1 + j then 0 + 100 else 0)"
    by (rule plots_ok [OF assms(1), of _ _ _ s 1]) (use assms conn s in \<open>auto simp: update_conv' started_def\<close>)
  then obtain G' s' where "scene_run ndebug cid (replicate j (Ev_plot connid)) ?G =
      Inr (G', map (Pair connid) (concat (map (scene1_shown name) [1..<1 + j])))"
    "map_of (scene1_map G') name = Some s'" "geteid_fromconnid connid s' = em_get i" "mineral_at cid s' i = Some (if 7 \<le> j then 100 else 0)"
    by auto
  moreover have "[0..<Suc j] = 0 # [1..<1 + j]" by (simp add: upt_conv_Cons del: upt_Suc)
  ultimately show ?thesis
    using enter by (auto simp: scene_step_def swallow_def simp del: upt_Suc)
qed


section \<open>Packets\<close>

text \<open>A packet reaches its handler: what a client packs as enter-scene or plot-end packet makes the game run the
  handler with the fields of the packet, packets with another id and data msgpack cannot read change nothing.\<close>

theorem on_client_dispatch:
  assumes "\<And>ob. dec (enc ob) = Some ob"
  shows "rpc_on_client dec ndebug cid now connid (enc (pack_enter \<lparr>es_head = head_of Id_EnterSingleScene, es_id = scid\<rparr>)) G =
      scene_step ndebug cid (Ev_enter now connid scid) G"
    and "rpc_on_client dec ndebug cid now connid (enc (pack_ntf MsgPlotEnd)) G = scene_step ndebug cid (Ev_plot connid) G"
    and "hd_id h \<notin> {msg_id Id_EnterSingleScene, msg_id Id_PlotEnd} \<Longrightarrow>
      rpc_on_client dec ndebug cid now connid (enc (MP_array (pack_head h # rest))) G = Inr (G, [])"
    and "dec junk = None \<Longrightarrow> rpc_on_client dec ndebug cid now connid junk G = Inr (G, [])"
  using assms
  by (simp_all add: rpc_on_client_def codec_unpack_def pack_enter_def as_enter_def as_plot_end_def member_def scene_step_def swallow_def
      head_of_def)

text \<open>An enter-scene packet without its scene id makes the game read a member that was never written.\<close>

theorem short_packet_indeterminate:
  assumes "\<And>ob. dec (enc ob) = Some ob"
  shows "rpc_on_client dec ndebug cid now connid (enc (MP_array [pack_head (head_of Id_EnterSingleScene)])) G = Inl Bad_Access"
  using assms
  by (simp add: rpc_on_client_def codec_unpack_def as_enter_def member_def swallow_def) (simp add: head_of_def)

section \<open>Concrete runs\<close>

definition cid_demo :: "comp_type \<Rightarrow> nat" where
  "cid_demo t =
     (case t of T_PlayerConn \<Rightarrow> 0 | T_Pos \<Rightarrow> 1 | T_OType \<Rightarrow> 2 | T_UnitConfig \<Rightarrow> 3 | T_Aoi \<Rightarrow> 4 | T_PlayerNickName \<Rightarrow> 5
      | T_Resource \<Rightarrow> 6 | T_Defence \<Rightarrow> 7 | T_Building \<Rightarrow> 8 | T_TempObstacle \<Rightarrow> 9)"

lemma inj_cid_demo: "inj cid_demo"
  by (auto simp: inj_def cid_demo_def split: comp_type.splits)

definition demo_game :: scene_game where
  "demo_game = game_on_init \<lparr>sg_game = \<lparr>gm_players = [(7, ''ann'')], name2id = [(''ann'', 7)]\<rparr>, scene_configs = [], scene1_map = []\<rparr>"

lemma demo_game_tables:
  "map_of (gm_players (sg_game demo_game)) 7 = Some ''ann''" "map_of (name2id (sg_game demo_game)) ''ann'' = Some 7"
  "map_of (scene_configs demo_game) 1 = Some train_config" "scene1_map demo_game = []"
  by (simp_all add: demo_game_def game_on_init_def scene_id_def)

theorem scene_plot_runs_witness:
  "\<exists>G' s e. scene_run False cid_demo (Ev_enter 0 7 1 # replicate 9 (Ev_plot 7)) demo_game =
      Inr (G', map (Pair 7) (MsgEnterSpace 1 # concat (map (scene1_shown ''ann'') [0..<Suc 9]))) \<and>
    map_of (scene1_map G') ''ann'' = Some s \<and> geteid_fromconnid 7 s = em_get e \<and> mineral_at cid_demo s e = Some 100"
  using scene_plot_runs [OF inj_cid_demo demo_game_tables(1,2,3), of False 0 9] demo_game_tables(4) by (simp del: upt_Suc)

theorem scene_memory_safe_witness:
  "case scene_run True cid_demo [Ev_enter 0 7 1, Ev_enter 0 7 1, Ev_plot 7] demo_game of
      Inl e \<Rightarrow> \<not> True \<and> e = Assert_Failed
    | Inr (G', _) \<Rightarrow> \<forall>name s. map_of (scene1_map G') name = Some s \<longrightarrow>
        em_inv (sc_mgr s) \<and> typed cid_demo (sc_mgr s) \<and> (\<forall>i \<in> scene_refs s. live (sc_mgr s) i)"
  by (rule scene_memory_safe [OF inj_cid_demo _ demo_game_tables(4)]) simp

lemma demo_entered:
  "\<exists>G' outs s. scene_run False cid_demo [Ev_enter 0 7 1] demo_game = Inr (G', outs) \<and>
     map_of (scene1_map G') ''ann'' = Some s \<and> sg_game G' = sg_game demo_game \<and> scene_configs G' = scene_configs demo_game"
proof -
  have n: "0 + 1 < (2 ^ 32 :: nat)" by simp
  have new: "map_of (scene1_map demo_game) ''ann'' = None" by (simp add: demo_game_tables)
  obtain s where "on_recv_enter False cid_demo 0 7 1 demo_game =
       Inr (demo_game\<lparr>scene1_map := AList.update ''ann'' s (AList.update ''ann'' (scene_new train_config 0) (scene1_map demo_game))\<rparr>,
            (7, MsgEnterSpace 1) # map (Pair (get_player_connid ''ann'' (sg_game demo_game))) (scene1_shown ''ann'' 0))"
    by (rule first_enter_ok [OF inj_cid_demo n demo_game_tables(1,3) new])
  then show ?thesis by (auto simp: scene_step_def swallow_def update_conv')
qed

theorem reenter_scene_aborts_witness:
  "\<exists>G' outs. scene_run False cid_demo [Ev_enter 0 7 1] demo_game = Inr (G', outs) \<and>
     scene_step False cid_demo (Ev_enter 5 7 1) G' = Inl Assert_Failed"
proof -
  obtain G' outs s where r: "scene_run False cid_demo [Ev_enter 0 7 1] demo_game = Inr (G', outs)"
    "map_of (scene1_map G') ''ann'' = Some s" "sg_game G' = sg_game demo_game" "scene_configs G' = scene_configs demo_game"
    using demo_entered by blast
  have "scene_step False cid_demo (Ev_enter 5 7 1) G' = Inl Assert_Failed"
    by (rule reenter_scene_aborts [OF inj_cid_demo _ demo_game_tables(4) r(1) _ _ r(2)]) (simp_all add: r demo_game_tables)
  with r(1) show ?thesis by blast
qed

theorem on_client_dispatch_witness:
  "rpc_on_client Some False cid_demo 0 7 (id (pack_ntf MsgPlotEnd)) demo_game = scene_step False cid_demo (Ev_plot 7) demo_game"
  by (rule on_client_dispatch(2)) simp

theorem short_packet_indeterminate_witness:
  "rpc_on_client Some True cid_demo 0 7 (id (MP_array [pack_head (head_of Id_EnterSingleScene)])) demo_game = Inl Bad_Access"
  by (rule short_packet_indeterminate) simp

end
