(* ===== verification/Game_Ws.thy ===== *)
theory Game_Ws
  imports Cqy_Ctx Game_Scene
begin

text \<open>
  The web socket server of the game demo (\<open>ws_server_t\<close> in \<open>example/game_demo.h\<close> and
  \<open>example/game_demo.cpp\<close>). Connections are
  objects of cinatra: a connection is a number, the frames it delivers are a list, and \<open>alive\<close> tells whether the weak
  pointer to it can still be locked.
\<close>

section \<open>Connections\<close>

datatype ws_frame =
    Frame_error | Frame_close | Frame_text string | Frame_binary string | Frame_ping | Frame_pong | Frame_other

record ws_server_t =
  ws_server :: bool
  ws_conns :: "(u64 \<times> nat) list"

text \<open>What the server sends to the gate, and what it does to a connection.\<close>

datatype ws_out = Pub gate_msg_type_t payload

datatype ws_act = Write_frame nat string | Close_conn nat

definition pub_conn_start :: "u64 \<Rightarrow> ws_out" where
  "pub_conn_start connid = Pub Ws_start (Pl_conn connid)"

definition pub_conn_read :: "u64 \<Rightarrow> string \<Rightarrow> ws_out" where
  "pub_conn_read connid msg = Pub Ws_msg (Pl_conn_data connid msg)"

definition pub_conn_stop :: "u64 \<Rightarrow> ws_out" where
  "pub_conn_stop connid = Pub Ws_stop (Pl_conn connid)"

text \<open>\<open>co_conn_read\<close> on the frames that arrive: what it publishes, and whether it has left its loop.\<close>

fun co_conn_read :: "u64 \<Rightarrow> ws_frame list \<Rightarrow> ws_out list \<times> bool" where
  "co_conn_read connid [] = ([], False)"
| "co_conn_read connid (Frame_error # fs) = ([], True)"
| "co_conn_read connid (Frame_close # fs) = ([], True)"
| "co_conn_read connid (Frame_text d # fs) = (case co_conn_read connid fs of (os, b) \<Rightarrow> (pub_conn_read connid d # os, b))"
| "co_conn_read connid (Frame_binary d # fs) = (case co_conn_read connid fs of (os, b) \<Rightarrow> (pub_conn_read connid d # os, b))"
| "co_conn_read connid (Frame_ping # fs) = co_conn_read connid fs"
| "co_conn_read connid (Frame_pong # fs) = co_conn_read connid fs"
| "co_conn_read connid (Frame_other # fs) = ([], True)"

text \<open>\<open>co_get_connid\<close>: the answer of the gate, or 0 when the call throws.\<close>

definition co_get_connid :: "u64 result \<Rightarrow> u64" where
  "co_get_connid r = (case r of Inr c \<Rightarrow> c | Inl _ \<Rightarrow> 0)"

text \<open>\<open>co_ws_handle\<close> up to the read loop and after it.\<close>

definition ws_handle_begin :: "u64 result \<Rightarrow> nat \<Rightarrow> ws_server_t \<Rightarrow> ws_server_t \<times> ws_out list" where
  "ws_handle_begin r con s =
     (let connid = co_get_connid r in
      if connid = 0 then (s, [])
      else (s\<lparr>ws_conns := AList.update connid con (ws_conns s)\<rparr>, [pub_conn_start connid]))"

definition ws_handle_end :: "u64 \<Rightarrow> ws_server_t \<Rightarrow> ws_server_t \<times> ws_out list" where
  "ws_handle_end connid s = (s\<lparr>ws_conns := AList.delete connid (ws_conns s)\<rparr>, [pub_conn_stop connid])"

definition co_ws_handle :: "u64 result \<Rightarrow> nat \<Rightarrow> ws_frame list \<Rightarrow> ws_server_t \<Rightarrow> ws_server_t \<times> ws_out list" where
  "co_ws_handle r con frames s =
     (let connid = co_get_connid r in
      if connid = 0 then (s, [])
      else case ws_handle_begin r con s of
             (s1, o1) \<Rightarrow>
               (case co_conn_read connid frames of
                  (o2, False) \<Rightarrow> (s1, o1 @ o2)
                | (o2, True) \<Rightarrow> (case ws_handle_end connid s1 of (s2, o3) \<Rightarrow> (s2, o1 @ o2 @ o3))))"

definition get_con :: "u64 \<Rightarrow> ws_server_t \<Rightarrow> nat option" where
  "get_con connid s = map_of (ws_conns s) connid"

definition co_conn_write :: "(nat \<Rightarrow> bool) \<Rightarrow> u64 \<Rightarrow> string \<Rightarrow> ws_server_t \<Rightarrow> ws_act list" where
  "co_conn_write alive connid data s =
     (case get_con connid s of
        None \<Rightarrow> []
      | Some con \<Rightarrow> if alive con then [Write_frame con data] else [])"

text \<open>\<open>on_msg\<close>: writes are started with \<open>async_call\<close>; \<open>unpack\<close> throws on another shape, which is swallowed.\<close>

definition ws_on_msg :: "(nat \<Rightarrow> bool) \<Rightarrow> gate_msg_type_t \<Rightarrow> payload \<Rightarrow> ws_server_t \<Rightarrow> ws_act list" where
  "ws_on_msg alive t pl s =
     (case (t, pl) of
        (Gm_write, Pl_conn_data connid str) \<Rightarrow> co_conn_write alive connid str s
      | (Gm_close, Pl_conn connid) \<Rightarrow>
          (case get_con connid s of
             None \<Rightarrow> []
           | Some con \<Rightarrow> if alive con then [Close_conn con] else [])
      | _ \<Rightarrow> [])"

section \<open>The frames of a connection\<close>

definition frame_ends :: "ws_frame \<Rightarrow> bool" where
  "frame_ends f \<longleftrightarrow> f \<in> {Frame_error, Frame_close, Frame_other}"

fun frame_data :: "ws_frame \<Rightarrow> string list" where
  "frame_data (Frame_text d) = [d]"
| "frame_data (Frame_binary d) = [d]"
| "frame_data _ = []"

lemma conn_read_eq:
  "co_conn_read connid fs =
     (map (pub_conn_read connid) (concat (map frame_data (takeWhile (\<lambda>f. \<not> frame_ends f) fs))), \<exists>f \<in> set fs. frame_ends f)"
  by (induction connid fs rule: co_conn_read.induct) (auto simp: frame_ends_def split: prod.split)

lemma delete_after_update [simp]: "AList.delete k (AList.update k v al) = AList.delete k al"
  by (induction al) auto

lemma co_ws_handle_eq:
  "connid \<noteq> 0 \<Longrightarrow> co_ws_handle (Inr connid) con frames s =
     (s\<lparr>ws_conns := (if \<exists>f \<in> set frames. frame_ends f then AList.delete connid (ws_conns s)
                     else AList.update connid con (ws_conns s))\<rparr>,
      [pub_conn_start connid] @
      map (pub_conn_read connid) (concat (map frame_data (takeWhile (\<lambda>f. \<not> frame_ends f) frames))) @
      (if \<exists>f \<in> set frames. frame_ends f then [pub_conn_stop connid] else []))"
  by (simp add: co_ws_handle_def co_get_connid_def ws_handle_begin_def ws_handle_end_def conn_read_eq)

text \<open>A web socket connection: the gate hears of its start, then of the data frames in order up to the first
  frame that ends it, then of its end; afterwards the server has forgotten the connection, and no other one was touched.\<close>

theorem ws_session:
  assumes "r = Inr connid" "connid \<noteq> 0"
  shows "co_ws_handle r con frames s =
     (s\<lparr>ws_conns := (if \<exists>f \<in> set frames. frame_ends f then AList.delete connid (ws_conns s)
                     else AList.update connid con (ws_conns s))\<rparr>,
      [pub_conn_start connid] @
      map (pub_conn_read connid) (concat (map frame_data (takeWhile (\<lambda>f. \<not> frame_ends f) frames))) @
      (if \<exists>f \<in> set frames. frame_ends f then [pub_conn_stop connid] else []))"
  unfolding assms(1) by (rule co_ws_handle_eq [OF assms(2)])

theorem ws_session_witness:
  "co_ws_handle (Inr 3) 0 [Frame_text ''a'', Frame_ping, Frame_binary ''b'', Frame_close, Frame_text ''c''] \<lparr>ws_server = True, ws_conns = [(1, 9)]\<rparr> =
     (\<lparr>ws_server = True, ws_conns = [(1, 9)]\<rparr>,
      [pub_conn_start 3, pub_conn_read 3 ''a'', pub_conn_read 3 ''b'', pub_conn_stop 3])"
  using ws_session [of "Inr 3" 3 0 "[Frame_text ''a'', Frame_ping, Frame_binary ''b'', Frame_close, Frame_text ''c'']"]
  by (simp add: frame_ends_def)

section \<open>From the game to the client\<close>

text \<open>\<open>pack\<close> is \<open>msg_code_t::pack\<close> of the packet of the gate; the gate sends it to the context that owns the connection.\<close>

definition gate_to_ws :: "(mp_obj \<Rightarrow> string) \<Rightarrow> demo_out \<Rightarrow> (u32 \<times> gate_msg_type_t \<times> payload) list" where
  "gate_to_ws enc out =
     (case out of
        Out_ctx to t connid (Some m) \<Rightarrow> [(to, t, Pl_conn_data connid (codec_pack enc (pack_client m)))]
      | Out_ctx to t connid None \<Rightarrow> [(to, t, Pl_conn connid)]
      | _ \<Rightarrow> [])"

text \<open>A notification of the game reaches the client: what the game sends to the gate for a connection is put into
  one \<open>MsgFromGame\<close> packet with the next sequence number of that connection, sent to the server that owns the connection
  and written to its socket; the client reads the notification back.\<close>

theorem notification_reaches_client:
  assumes "map_of (gt_players g) connid = Some p" "game_id g \<noteq> world_id g"
    "map_of (ws_conns s) connid = Some con" "alive con" "\<And>ob. dec (enc ob) = Some ob"
  shows "\<exists>g' data. gate_on_msg (game_id g) Gm_write (Pl_conn_data connid (codec_pack enc (pack_ntf ntf))) g =
      ([], g', [Out_ctx (gp_from p) Gm_write connid (Some (From_game (codec_pack enc (pack_ntf ntf)) (gp_recv_sign p + 1)))]) \<and>
    gate_to_ws enc (Out_ctx (gp_from p) Gm_write connid (Some (From_game (codec_pack enc (pack_ntf ntf)) (gp_recv_sign p + 1)))) =
      [(gp_from p, Gm_write, Pl_conn_data connid data)] \<and>
    ws_on_msg alive Gm_write (Pl_conn_data connid data) s = [Write_frame con data] \<and>
    codec_unpack dec data =
      Inr (MP_array [pack_head \<lparr>hd_id = 41, hd_sn = gp_recv_sign p + 1, hd_rpcSnId = 0\<rparr>, MP_bin (codec_pack enc (pack_ntf ntf))]) \<and>
    codec_unpack dec (codec_pack enc (pack_ntf ntf)) = Inr (pack_ntf ntf) \<and>
    map_option gp_recv_sign (map_of (gt_players g') connid) = Some (gp_recv_sign p + 1)"
  using assms
  by (simp add: gate_on_msg_def relay_def write_rsp_def gate_to_ws_def ws_on_msg_def co_conn_write_def get_con_def codec_pack_def
      codec_unpack_def head_of_def msg_id_def update_conv' Let_def)


theorem notification_reaches_client_witness:
  "\<exists>g' data. gate_on_msg 3 Gm_write (Pl_conn_data 7 (codec_pack enc_demo (pack_ntf MsgPlotEnd))) gate_one =
      ([], g', [Out_ctx 9 Gm_write 7 (Some (From_game (codec_pack enc_demo (pack_ntf MsgPlotEnd)) 1))]) \<and>
    ws_on_msg (\<lambda>_. True) Gm_write (Pl_conn_data 7 data) \<lparr>ws_server = True, ws_conns = [(7, 1)]\<rparr> = [Write_frame 1 data]"
  using notification_reaches_client [of gate_one 7 _ "\<lparr>ws_server = True, ws_conns = [(7, 1)]\<rparr>" 1 "\<lambda>_. True" dec_demo enc_demo MsgPlotEnd]
  by (auto simp: dec_enc_demo gate_one_def on_conn_start_def)

end
