(* ===== verification/Game_App.thy ===== *)
theory Game_App
  imports Game_Ws Cqy_Algo
begin

text \<open>
  The contexts of the game demo in an application: the \<open>on_init\<close> functions of \<open>ws_server_t\<close>, \<open>gate_t\<close>,
  \<open>world_t\<close> and \<open>game_t\<close> and \<open>main\<close> of \<open>example/game_demo.cpp\<close>. The gate creates the other three while it is
  itself being created. The object of a context carries the state of its class.
\<close>

section \<open>The classes\<close>

datatype demo_obj = Obj_ws ws_server_t | Obj_gate gate_t | Obj_world world_t | Obj_game scene_game

datatype demo_func =
  Rpc_get_allocid | Rpc_on_conn_start | Rpc_on_msg | Rpc_on_conn_stop | Rpc_player_login | Rpc_add_player | Rpc_on_client

type_synonym demo_app = "(demo_obj, demo_func) cqy_app_t"

definition ws_new :: ws_server_t where
  "ws_new = \<lparr>ws_server = False, ws_conns = []\<rparr>"

definition gate_new :: gate_t where
  "gate_new = \<lparr>conn_alloc = 0, gt_players = [], world_id = 0, game_id = 0\<rparr>"

definition world_new :: world_t where
  "world_new = \<lparr>logins = [], name2conid = []\<rparr>"

definition game_obj_new :: scene_game where
  "game_obj_new = \<lparr>sg_game = game_new, scene_configs = [], scene1_map = []\<rparr>"

definition set_user :: "nat \<Rightarrow> demo_obj \<Rightarrow> demo_app \<Rightarrow> demo_app" where
  "set_user p u = upd_obj p (\<lambda>c. c\<lparr>cx_user := u\<rparr>)"

section \<open>\<open>on_init\<close>\<close>

text \<open>What the HTTP server does: \<open>init_ssl\<close> or another call throws, \<open>async_start\<close> fails at once, or the server runs.\<close>

datatype ws_io = Io_throws | Io_start_failed | Io_running

text \<open>The parameter \<open>thread,port,cert_path,key_path,passwd\<close>.\<close>

definition ws_params :: "string \<Rightarrow> (int \<times> int \<times> string \<times> string \<times> string) option" where
  "ws_params param =
     (case algo_split param '','' of
        [thread, port, cert, key, pwd] \<Rightarrow>
          (case (algo_to_n 0 (2 ^ 64 - 1) thread, algo_to_n 0 (2 ^ 16 - 1) port) of
             (Some n, Some k) \<Rightarrow> Some (n, k, cert, key, pwd)
           | _ \<Rightarrow> None)
      | _ \<Rightarrow> None)"

definition ws_on_init :: "ws_io \<Rightarrow> ws_server_t \<Rightarrow> (demo_obj, demo_func) ctx_on_init" where
  "ws_on_init io s p param a =
     (case ctx_register_name p ''ws_server'' a of
        (Inl e, a1) \<Rightarrow> (Inl e, a1)
      | (Inr _, a1) \<Rightarrow>
          (case ws_params param of
             None \<Rightarrow> (Inr False, a1)
           | Some _ \<Rightarrow> (Inr (io = Io_running), set_user p (Obj_ws (s\<lparr>ws_server := True\<rparr>)) a1)))"

definition gate_on_init :: "bool \<Rightarrow> (demo_obj, demo_func) ctx_on_init \<Rightarrow> gate_t \<Rightarrow> (demo_obj, demo_func) ctx_on_init" where
  "gate_on_init ndebug init g p param a =
     (case ctx_register_name p ''gate'' a of
        (Inl e, a1) \<Rightarrow> (Inl e, a1)
      | (Inr _, a1) \<Rightarrow>
          let a2 = register_rpc_func p ''gate_t::on_conn_stop'' False Rpc_on_conn_stop ''on_conn_stop''
                     (register_rpc_func p ''gate_t::on_conn_msg'' False Rpc_on_msg ''on_msg''
                       (register_rpc_func p ''gate_t::on_conn_start'' False Rpc_on_conn_start ''on_conn_start''
                         (register_rpc_func p ''gate_t::rpc_get_allocid'' True Rpc_get_allocid ''get_allocid'' a1)))
          in case create_ctx init ''ws_server'' param a2 of
               (Inl e, a3) \<Rightarrow> (Inl e, a3)
             | (Inr _, a3) \<Rightarrow>
                 (case create_ctx init ''world'' [] a3 of
                    (Inl e, a4) \<Rightarrow> (Inl e, a4)
                  | (Inr wid, a4) \<Rightarrow>
                      let a5 = set_user p (Obj_gate (g\<lparr>world_id := wid\<rparr>)) a4 in
                      if \<not> ndebug \<and> wid = 0 then (Inl Assert_Failed, a5)
                      else (case create_ctx init ''game'' [] a5 of
                              (Inl e, a6) \<Rightarrow> (Inl e, a6)
                            | (Inr gid, a6) \<Rightarrow>
                                let a7 = set_user p (Obj_gate (g\<lparr>world_id := wid, game_id := gid\<rparr>)) a6 in
                                if \<not> ndebug \<and> gid = 0 then (Inl Assert_Failed, a7) else (Inr True, a7))))"

definition world_on_init :: "(demo_obj, demo_func) ctx_on_init" where
  "world_on_init p param a =
     (case ctx_register_name p ''world'' a of
        (Inl e, a1) \<Rightarrow> (Inl e, a1)
      | (Inr _, a1) \<Rightarrow> (Inr True, register_rpc_func p ''world_t::rpc_player_login'' False Rpc_player_login ''player_login'' a1))"

definition game_ctx_on_init :: "scene_game \<Rightarrow> (demo_obj, demo_func) ctx_on_init" where
  "game_ctx_on_init G p param a =
     (case ctx_register_name p ''game'' a of
        (Inl e, a1) \<Rightarrow> (Inl e, a1)
      | (Inr _, a1) \<Rightarrow>
          (Inr True,
           set_user p (Obj_game (game_on_init G))
             (register_rpc_func p ''game_t::rpc_on_client'' False Rpc_on_client ''on_client''
               (register_rpc_func p ''game_t::rpc_add_player'' False Rpc_add_player ''add_player'' a1))))"

text \<open>The virtual call. \<open>n\<close> bounds how deep gates may create gates: the stack is finite, and \<open>main\<close> needs one gate.\<close>

fun demo_on_init :: "bool \<Rightarrow> ws_io \<Rightarrow> nat \<Rightarrow> (demo_obj, demo_func) ctx_on_init" where
  "demo_on_init ndebug io n p param a =
     (case cx_user (ap_objs a ! p) of
        Obj_ws s \<Rightarrow> ws_on_init io s p param a
      | Obj_world w \<Rightarrow> world_on_init p param a
      | Obj_game G \<Rightarrow> game_ctx_on_init G p param a
      | Obj_gate g \<Rightarrow>
          (case n of 0 \<Rightarrow> (Inl Bad_Access, a) | Suc m \<Rightarrow> gate_on_init ndebug (demo_on_init ndebug io m) g p param a))"

section \<open>\<open>main\<close>\<close>

definition demo_reg :: "demo_app \<Rightarrow> demo_app" where
  "demo_reg a =
     reg_ctx ''game_t'' (Obj_game game_obj_new) ''game'' (reg_ctx ''world_t'' (Obj_world world_new) ''world''
       (reg_ctx ''gate_t'' (Obj_gate gate_new) ''gate'' (reg_ctx ''ws_server_t'' (Obj_ws ws_new) ''ws_server'' a)))"

text \<open>The bootstrap line is written after the file was read.\<close>

definition set_bootstrap :: "demo_app \<Rightarrow> demo_app" where
  "set_bootstrap a = a\<lparr>ap_config := (ap_config a)\<lparr>cfg_bootstrap := ''gate 8,12348,server.crt,server.key,''\<rparr>\<rparr>"

definition demo_main :: "json_reader \<Rightarrow> string \<Rightarrow> u32 \<Rightarrow> bool \<Rightarrow> ws_io \<Rightarrow> nat \<Rightarrow> unit result \<times> demo_app" where
  "demo_main from_json cwd hw ndebug io n =
     (case load_config from_json cwd ''config_game.json'' (demo_reg (app_init (config_default hw))) of
        (Inl e, a) \<Rightarrow> (Inl e, a)
      | (Inr _, a) \<Rightarrow> app_start (demo_on_init ndebug io n) (set_bootstrap a))"

text \<open>The application before \<open>start()\<close>, when the file held \<open>cfg\<close>.\<close>

definition demo_loaded :: "config_t \<Rightarrow> demo_app" where
  "demo_loaded cfg = set_bootstrap (demo_reg (app_init cfg))"

lemma demo_main_loaded:
  "from_json (config_default hw) (path_append cwd ''config_game.json'') = (Inr (), cfg) \<Longrightarrow>
   demo_main from_json cwd hw ndebug io n = app_start (demo_on_init ndebug io n) (demo_loaded cfg)"
  by (simp add: demo_main_def load_config_def demo_loaded_def demo_reg_def reg_ctx_def app_init_def)


section \<open>The demo classes keep the contract of a context class\<close>

definition keeps :: "nat \<Rightarrow> demo_app \<Rightarrow> demo_app \<Rightarrow> bool" where
  "keeps k a b \<longleftrightarrow> app_inv b \<and> app_grows a b \<and> unat (allocid (ap_mgr b)) \<le> unat (allocid (ap_mgr a)) + k"

lemma keeps_refl: "app_inv a \<Longrightarrow> keeps k a a"
  by (simp add: keeps_def)

lemma keeps_trans: "keeps k a b \<Longrightarrow> keeps l b c \<Longrightarrow> keeps (k + l) a c"
  by (auto simp: keeps_def intro: app_grows_trans)

lemma keeps_mono: "keeps k a b \<Longrightarrow> k \<le> l \<Longrightarrow> keeps l a b"
  by (auto simp: keeps_def)

lemma keeps_inv: "keeps k a b \<Longrightarrow> app_inv b"
  by (simp add: keeps_def)

lemma keeps_upd:
  "keeps k a b \<Longrightarrow> (\<And>c. cx_id (f c) = cx_id c) \<Longrightarrow> keeps k a (upd_obj p f b)"
  using app_inv_upd_obj [of b f p] by (auto simp: keeps_def upd_obj_def intro: app_grows_trans)

lemma keeps_rpc: "keeps k a b \<Longrightarrow> keeps k a (register_rpc_func p fname muli f name b)"
  by (simp add: register_rpc_func_def keeps_upd)

lemma keeps_user: "keeps k a b \<Longrightarrow> keeps k a (set_user p u b)"
  by (simp add: set_user_def keeps_upd)

lemma keeps_name: "keeps k a b \<Longrightarrow> ctx_register_name p name b = (r, c) \<Longrightarrow> keeps k a c"
  using app_inv_register_name [of b name "getid p b"]
  by (auto simp: keeps_def ctx_register_name_def intro: app_grows_trans)
    (metis allocid_of_ops(3) snd_conv)

lemma keeps_create:
  assumes "ctx_class init room" "keeps k a b" "create_ctx init name param b = (r, c)"
    "unat (allocid (ap_mgr a)) + k + 1 + room < 2 ^ 24"
  shows "keeps (k + 1 + room) a c"
proof -
  have "unat (allocid (ap_mgr b)) + 1 + room < 2 ^ 24" using assms(2,4) by (simp add: keeps_def)
  then have "keeps (1 + room) b c"
    using ctx_class.create_keeps [OF assms(1) keeps_inv [OF assms(2)], of name param] assms(3) by (simp add: keeps_def)
  from keeps_trans [OF assms(2) this] show ?thesis by simp
qed

lemma keeps_gate:
  assumes "ctx_class init room" "app_inv a" "unat (allocid (ap_mgr a)) + 3 * (1 + room) < 2 ^ 24"
  shows "keeps (3 * (1 + room)) a (snd (gate_on_init ndebug init g p param a))"
proof -
  have k0: "keeps 0 a a" by (rule keeps_refl [OF assms(2)])
  obtain r1 a1 where n: "ctx_register_name p ''gate'' a = (r1, a1)" by fastforce
  note k1 = keeps_name [OF k0 n]
  define a2 where "a2 = register_rpc_func p ''gate_t::on_conn_stop'' False Rpc_on_conn_stop ''on_conn_stop''
     (register_rpc_func p ''gate_t::on_conn_msg'' False Rpc_on_msg ''on_msg''
       (register_rpc_func p ''gate_t::on_conn_start'' False Rpc_on_conn_start ''on_conn_start''
         (register_rpc_func p ''gate_t::rpc_get_allocid'' True Rpc_get_allocid ''get_allocid'' a1)))"
  have k2: "keeps 0 a a2" unfolding a2_def by (intro keeps_rpc k1)
  obtain r3 a3 where c3: "create_ctx init ''ws_server'' param a2 = (r3, a3)" by fastforce
  have k3: "keeps (1 + room) a a3" using keeps_create [OF assms(1) k2 c3] assms(3) by simp
  obtain r4 a4 where c4: "create_ctx init ''world'' [] a3 = (r4, a4)" by fastforce
  have k4: "keeps (2 * (1 + room)) a a4" by (rule keeps_mono [OF keeps_create [OF assms(1) k3 c4]]) (use assms(3) in auto)
  define a5 where "a5 w = set_user p (Obj_gate (g\<lparr>world_id := w\<rparr>)) a4" for w
  have k5: "keeps (2 * (1 + room)) a (a5 w)" for w unfolding a5_def by (rule keeps_user [OF k4])
  have k6: "keeps (3 * (1 + room)) a (snd (create_ctx init ''game'' [] (a5 w)))" for w
    by (rule keeps_mono [OF keeps_create [OF assms(1) k5 prod.collapse [symmetric]]]) (use assms(3) in auto)
  have k7: "keeps (3 * (1 + room)) a (set_user p u (snd (create_ctx init ''game'' [] (a5 w))))" for u w
    by (rule keeps_user [OF k6])
  note weak = keeps_mono [OF k1] keeps_mono [OF k2] keeps_mono [OF k3] keeps_mono [OF k4] keeps_mono [OF k5]
  show ?thesis
    using n c3 c4 weak k6 k7
    by (auto simp: gate_on_init_def a2_def [symmetric] a5_def [symmetric] Let_def split: sum.split prod.split)
      (metis snd_conv)+
qed

declare demo_on_init.simps [simp del]

fun demo_room :: "nat \<Rightarrow> nat" where
  "demo_room 0 = 0"
| "demo_room (Suc n) = 3 * (1 + demo_room n)"

lemma keeps_leaf:
  assumes "app_inv a"
  shows "keeps 0 a (snd (ws_on_init io s p param a))" "keeps 0 a (snd (world_on_init p param a))"
    "keeps 0 a (snd (game_ctx_on_init G p param a))"
proof -
  have n: "keeps 0 a (snd (ctx_register_name p name a))" for name
    by (rule keeps_name [OF keeps_refl [OF assms] prod.collapse [symmetric]])
  show "keeps 0 a (snd (ws_on_init io s p param a))" "keeps 0 a (snd (world_on_init p param a))"
    "keeps 0 a (snd (game_ctx_on_init G p param a))"
    using n by (auto simp: ws_on_init_def world_on_init_def game_ctx_on_init_def split: prod.split sum.split option.split
        intro: keeps_user keeps_rpc) (metis keeps_user keeps_rpc snd_conv)+
qed

interpretation demo: ctx_class "demo_on_init ndebug io n" "demo_room n"
proof (induction n)
  case 0
  show ?case
  proof
    fix a :: demo_app and p param
    assume "app_inv a"
    then have "keeps 0 a (snd (demo_on_init ndebug io 0 p param a))"
      using keeps_leaf keeps_refl by (simp add: demo_on_init.simps [of ndebug io 0] split: demo_obj.split)
    then show "app_inv (snd (demo_on_init ndebug io 0 p param a)) \<and> app_grows a (snd (demo_on_init ndebug io 0 p param a)) \<and>
        unat (allocid (ap_mgr (snd (demo_on_init ndebug io 0 p param a)))) \<le> unat (allocid (ap_mgr a)) + demo_room 0"
      by (simp add: keeps_def)
  qed
next
  case (Suc n)
  show ?case
  proof
    fix a :: demo_app and p param
    assume a: "app_inv a" "unat (allocid (ap_mgr a)) + demo_room (Suc n) < 2 ^ 24"
    have "keeps (demo_room (Suc n)) a (snd (demo_on_init ndebug io (Suc n) p param a))"
      using keeps_mono [OF keeps_leaf(1) [OF a(1)]] keeps_mono [OF keeps_leaf(2) [OF a(1)]] keeps_mono [OF keeps_leaf(3) [OF a(1)]]
        keeps_gate [OF Suc a(1)] a(2) by (simp add: demo_on_init.simps [of ndebug io "Suc n"] split: demo_obj.split)
    then show "app_inv (snd (demo_on_init ndebug io (Suc n) p param a)) \<and> app_grows a (snd (demo_on_init ndebug io (Suc n) p param a)) \<and>
        unat (allocid (ap_mgr (snd (demo_on_init ndebug io (Suc n) p param a)))) \<le> unat (allocid (ap_mgr a)) + demo_room (Suc n)"
      by (simp add: keeps_def)
  qed
qed


section \<open>Starting the demo\<close>

text \<open>A context whose mailbox is open and that has registered some functions, each with its \<open>muli\<close> flag.\<close>

definition offers :: "(demo_obj, demo_func) cqy_ctx_t \<Rightarrow> (string \<times> bool \<times> demo_func) list \<Rightarrow> bool" where
  "offers c fs \<longleftrightarrow> \<not> q_stop (cx_queue c) \<and> (\<forall>(nm, f) \<in> set fs. map_of (cx_router c) nm = Some f)"

lemma offers_user [simp]: "offers (c\<lparr>cx_user := u\<rparr>) fs = offers c fs"
  by (simp add: offers_def)

lemma demo_leaves:
  assumes "app_inv a" "unat (allocid (ap_mgr a)) + 1 + demo_room n < 2 ^ 24"
  shows "map_of (ap_creator a) ''ws_server'' = Some (Obj_ws s) \<Longrightarrow> names_of (ap_mgr a) ''ws_server'' = None \<Longrightarrow>
      \<exists>i c a'. create_ctx (demo_on_init ndebug io n) ''ws_server'' param a = (Inr i, a') \<and>
        grown (io = Io_running \<and> ws_params param \<noteq> None) ''ws_server'' c a a' \<and>
        (ws_params param \<noteq> None \<longrightarrow> cx_user c = Obj_ws (s\<lparr>ws_server := True\<rparr>)) \<and> offers c []"
    and "map_of (ap_creator a) ''world'' = Some (Obj_world w) \<Longrightarrow> names_of (ap_mgr a) ''world'' = None \<Longrightarrow>
      \<exists>c a'. create_ctx (demo_on_init ndebug io n) ''world'' [] a = (Inr (ctx_handle a), a') \<and> grown True ''world'' c a a' \<and>
        cx_user c = Obj_world w \<and> offers c [(''player_login'', False, Rpc_player_login)]"
    and "map_of (ap_creator a) ''game'' = Some (Obj_game G) \<Longrightarrow> names_of (ap_mgr a) ''game'' = None \<Longrightarrow>
      \<exists>c a'. create_ctx (demo_on_init ndebug io n) ''game'' [] a = (Inr (ctx_handle a), a') \<and>
        grown True ''game'' c a a' \<and> cx_user c = Obj_game (game_on_init G) \<and>
        offers c [(''add_player'', False, Rpc_add_player), (''on_client'', False, Rpc_on_client)]"
proof -
  let ?p = "length (ap_objs a)"
  let ?rpc = "\<lambda>nm F c. c\<lparr>cx_router := AList.update nm (False, F) (cx_router c)\<rparr>"
  have cc: "ctx_class (demo_on_init ndebug io n) (demo_room n)" by (rule demo.ctx_class_axioms)
  note leaf = create_leaf [OF cc assms]
  note init = demo_on_init.simps [of ndebug io n ?p]
  { assume ws: "map_of (ap_creator a) ''ws_server'' = Some (Obj_ws s)" "names_of (ap_mgr a) ''ws_server'' = None"
    let ?f = "if ws_params param = None then (\<lambda>c. c) else (\<lambda>c. c\<lparr>cx_user := Obj_ws (s\<lparr>ws_server := True\<rparr>)\<rparr>)"
    have e: "demo_on_init ndebug io n ?p param b =
        (case ctx_register_name ?p ''ws_server'' b of
           (Inl e, b1) \<Rightarrow> (Inl e, b1)
         | (Inr _, b1) \<Rightarrow> (Inr (io = Io_running \<and> ws_params param \<noteq> None), upd_obj ?p ?f b1))"
      if "cx_user (ap_objs b ! ?p) = Obj_ws s" for b
      using that by (auto simp: init ws_on_init_def set_user_def upd_obj_id split: prod.split sum.split option.split)
    have f: "cx_id (?f c) = cx_id c" for c by simp
    have "offers (?f ((ctx_new (Obj_ws s))\<lparr>cx_id := ctx_handle a\<rparr>)) []"
      "ws_params param \<noteq> None \<longrightarrow> cx_user (?f ((ctx_new (Obj_ws s))\<lparr>cx_id := ctx_handle a\<rparr>)) = Obj_ws (s\<lparr>ws_server := True\<rparr>)"
      by (simp_all add: offers_def ctx_new_def queue_init_def)
    then show "\<exists>i c a'. create_ctx (demo_on_init ndebug io n) ''ws_server'' param a = (Inr i, a') \<and>
        grown (io = Io_running \<and> ws_params param \<noteq> None) ''ws_server'' c a a' \<and>
        (ws_params param \<noteq> None \<longrightarrow> cx_user c = Obj_ws (s\<lparr>ws_server := True\<rparr>)) \<and> offers c []"
      using leaf [OF ws e f refl] by blast }
  { assume "map_of (ap_creator a) ''world'' = Some (Obj_world w)" "names_of (ap_mgr a) ''world'' = None"
    note l = leaf [OF this, where param = "[]" and ok = True and f = "?rpc ''player_login'' Rpc_player_login"]
    show "\<exists>c a'. create_ctx (demo_on_init ndebug io n) ''world'' [] a = (Inr (ctx_handle a), a') \<and> grown True ''world'' c a a' \<and>
        cx_user c = Obj_world w \<and> offers c [(''player_login'', False, Rpc_player_login)]"
      using l by (fastforce simp: init world_on_init_def register_rpc_func_def ctx_new_def offers_def queue_init_def split: prod.split sum.split) }
  { assume "map_of (ap_creator a) ''game'' = Some (Obj_game G)" "names_of (ap_mgr a) ''game'' = None"
    note l = leaf [OF this, where param = "[]" and ok = True
      and f = "\<lambda>c. (?rpc ''on_client'' Rpc_on_client (?rpc ''add_player'' Rpc_add_player c))\<lparr>cx_user := Obj_game (game_on_init G)\<rparr>"]
    show "\<exists>c a'. create_ctx (demo_on_init ndebug io n) ''game'' [] a = (Inr (ctx_handle a), a') \<and>
        grown True ''game'' c a a' \<and> cx_user c = Obj_game (game_on_init G) \<and>
        offers c [(''add_player'', False, Rpc_add_player), (''on_client'', False, Rpc_on_client)]"
      using l by (fastforce simp: init game_ctx_on_init_def register_rpc_func_def set_user_def upd_obj_twice ctx_new_def offers_def queue_init_def
          update_conv' split: prod.split sum.split) }
qed


lemma ctx_handle_cong:
  "ap_config b = ap_config a \<Longrightarrow> allocid (ap_mgr b) = allocid (ap_mgr a) \<Longrightarrow> ctx_handle b = ctx_handle a"
  by (simp add: ctx_handle_def)

text \<open>The registrations of the gate before it creates the others.\<close>

definition gate_router :: "(demo_obj, demo_func) cqy_ctx_t \<Rightarrow> (demo_obj, demo_func) cqy_ctx_t" where
  "gate_router c = c\<lparr>cx_router :=
     AList.update ''on_conn_stop'' (False, Rpc_on_conn_stop) (AList.update ''on_msg'' (False, Rpc_on_msg)
       (AList.update ''on_conn_start'' (False, Rpc_on_conn_start) (AList.update ''get_allocid'' (True, Rpc_get_allocid) (cx_router c))))\<rparr>"

definition demo_creators :: "demo_app \<Rightarrow> bool" where
  "demo_creators a \<longleftrightarrow>
     map_of (ap_creator a) ''gate'' = Some (Obj_gate gate_new) \<and> map_of (ap_creator a) ''ws_server'' = Some (Obj_ws ws_new) \<and>
     map_of (ap_creator a) ''world'' = Some (Obj_world world_new) \<and> map_of (ap_creator a) ''game'' = Some (Obj_game game_obj_new)"

lemma demo_creators_reg: "demo_creators (demo_reg a)"
  by (simp add: demo_creators_def demo_reg_def reg_ctx_def update_conv')

text \<open>What is left of \<open>on_init\<close> of a new gate then.\<close>

definition gate_rest :: "bool \<Rightarrow> (demo_obj, demo_func) ctx_on_init \<Rightarrow> (demo_obj, demo_func) ctx_on_init" where
  "gate_rest ndebug init p param a2 =
     (case create_ctx init ''ws_server'' param a2 of
        (Inl e, a3) \<Rightarrow> (Inl e, a3)
      | (Inr _, a3) \<Rightarrow>
          (case create_ctx init ''world'' [] a3 of
             (Inl e, a4) \<Rightarrow> (Inl e, a4)
           | (Inr wid, a4) \<Rightarrow>
               let a5 = set_user p (Obj_gate (gate_new\<lparr>world_id := wid\<rparr>)) a4 in
               if \<not> ndebug \<and> wid = 0 then (Inl Assert_Failed, a5)
               else (case create_ctx init ''game'' [] a5 of
                       (Inl e, a6) \<Rightarrow> (Inl e, a6)
                     | (Inr gid, a6) \<Rightarrow>
                         let a7 = set_user p (Obj_gate (gate_new\<lparr>world_id := wid, game_id := gid\<rparr>)) a6 in
                         if \<not> ndebug \<and> gid = 0 then (Inl Assert_Failed, a7) else (Inr True, a7))))"

text \<open>The application when the gate has registered its name and functions.\<close>

lemma gate_begins:
  assumes "app_inv a" "unat (allocid (ap_mgr a)) + 1 < 2 ^ 24" "demo_creators a" "names_of (ap_mgr a) ''gate'' = None"
  obtains a2 c where
    "\<And>init. gate_on_init ndebug init gate_new (length (ap_objs a)) param (create_pre (Obj_gate gate_new) a) =
      gate_rest ndebug init (length (ap_objs a)) param a2"
    "app_inv a2" "ap_config a2 = ap_config a" "ap_creator a2 = ap_creator a" "allocid (ap_mgr a2) = allocid (ap_mgr a) + 1"
    "names_of (ap_mgr a2) = (names_of (ap_mgr a))(''gate'' \<mapsto> ctx_handle a)" "get_ctx (ap_mgr a2) = get_ctx (ap_mgr a)"
    "ap_objs a2 = ap_objs a @ [c]" "cx_id c = ctx_handle a" "offers c [(''get_allocid'', True, Rpc_get_allocid)]" "ap_node a2 = ap_node a"
proof -
  let ?p = "length (ap_objs a)" and ?b = "create_pre (Obj_gate gate_new) a"
  note pre = app_inv_create_pre(1) [OF assms(1,2), of "Obj_gate gate_new"]
  have b: "ap_objs ?b = ap_objs a @ [(ctx_new (Obj_gate gate_new))\<lparr>cx_id := ctx_handle a\<rparr>]" "getid ?p ?b = ctx_handle a"
    "names_of (ap_mgr ?b) = names_of (ap_mgr a)" "get_ctx (ap_mgr ?b) = get_ctx (ap_mgr a)"
    "allocid (ap_mgr ?b) = allocid (ap_mgr a) + 1" "ap_creator ?b = ap_creator a" "ap_config ?b = ap_config a"
    by (auto simp: create_pre_def getid_def names_of_def get_ctx_def fun_eq_iff)
  have mb: "mgr_inv (ap_mgr ?b)" using pre by (simp add: app_inv_def)
  obtain m where m: "register_name ''gate'' (ctx_handle a) (ap_mgr ?b) = Inr m"
    using register_name_cases [OF mb, of "''gate''" "ctx_handle a"] b(3) assms(4) by auto
  let ?b1 = "?b\<lparr>ap_mgr := m\<rparr>"
  let ?a2 = "upd_obj ?p gate_router ?b1"
  have reg: "ctx_register_name ?p ''gate'' ?b = (Inr (), ?b1)"
    using m b(2) by (simp add: ctx_register_name_def app_register_name_def)
  have "app_inv ?b1" using app_inv_register_name(1) [OF pre, of "''gate''" "ctx_handle a"] m by (simp add: app_register_name_def)
  then have inv: "app_inv ?a2" by (rule app_inv_upd_obj(1)) (simp add: gate_router_def)
  have rpc: "register_rpc_func ?p ''gate_t::on_conn_stop'' False Rpc_on_conn_stop ''on_conn_stop''
     (register_rpc_func ?p ''gate_t::on_conn_msg'' False Rpc_on_msg ''on_msg''
       (register_rpc_func ?p ''gate_t::on_conn_start'' False Rpc_on_conn_start ''on_conn_start''
         (register_rpc_func ?p ''gate_t::rpc_get_allocid'' True Rpc_get_allocid ''get_allocid'' ?b1))) = ?a2"
    by (simp add: register_rpc_func_def upd_obj_twice gate_router_def [abs_def])
  have m': "get_ctx m = get_ctx (ap_mgr a)" "allocid m = allocid (ap_mgr a) + 1"
    using b(4,5) m by (auto simp: register_name_def get_ctx_def fun_eq_iff split: if_splits)
  show ?thesis
  proof (rule that)
    show "app_inv ?a2" by (rule inv)
    show "ap_objs ?a2 = ap_objs a @ [gate_router ((ctx_new (Obj_gate gate_new))\<lparr>cx_id := ctx_handle a\<rparr>)]"
      using b(1) by (simp add: upd_obj_last)
    show "names_of (ap_mgr ?a2) = (names_of (ap_mgr a))(''gate'' \<mapsto> ctx_handle a)"
      using names_of_register [OF mb m] b(3) by simp
    show "ap_config ?a2 = ap_config a" "ap_creator ?a2 = ap_creator a" "allocid (ap_mgr ?a2) = allocid (ap_mgr a) + 1"
      "get_ctx (ap_mgr ?a2) = get_ctx (ap_mgr a)"
      using b(6,7) m' by simp_all
    show "cx_id (gate_router ((ctx_new (Obj_gate gate_new))\<lparr>cx_id := ctx_handle a\<rparr>)) = ctx_handle a"
      "offers (gate_router ((ctx_new (Obj_gate gate_new))\<lparr>cx_id := ctx_handle a\<rparr>)) [(''get_allocid'', True, Rpc_get_allocid)]"
      by (simp_all add: gate_router_def offers_def ctx_new_def queue_init_def)
    show "ap_node ?a2 = ap_node a" by (simp add: create_pre_def)
  qed (simp only: gate_on_init_def gate_rest_def reg prod.case sum.case rpc Let_def)
qed


lemma unat_plus: "unat (x :: u32) + k < 2 ^ 24 \<Longrightarrow> unat (x + of_nat k) = unat x + k"
  by (simp add: unat_word_ariths unat_of_nat)

lemma set_user_simps [simp]:
  "ap_mgr (set_user p u a) = ap_mgr a" "ap_config (set_user p u a) = ap_config a" "ap_creator (set_user p u a) = ap_creator a"
  "length (ap_objs (set_user p u a)) = length (ap_objs a)"
  by (simp_all add: set_user_def)

lemma set_user_inv: "app_inv a \<Longrightarrow> app_inv (set_user p u a)"
  unfolding set_user_def by (rule app_inv_upd_obj(1)) simp_all

text \<open>What is there when \<open>on_init\<close> of the gate returns: the handles, names, registered contexts and objects of the four contexts.\<close>

definition booted :: "bool \<Rightarrow> demo_app \<Rightarrow> demo_app \<Rightarrow> u32 \<Rightarrow> u32 \<Rightarrow> u32 \<Rightarrow> bool" where
  "booted run a b h2 h3 h5 \<longleftrightarrow>
     distinct [ctx_handle a, h2, h3, h5] \<and> 0 \<notin> {ctx_handle a, h2, h3, h5} \<and>
     (\<forall>h \<in> {ctx_handle a, h2, h3, h5}. get_ctx (ap_mgr a) h = None) \<and> app_inv b \<and>
     names_of (ap_mgr b) = (names_of (ap_mgr a))(''gate'' \<mapsto> ctx_handle a, ''ws_server'' \<mapsto> h2, ''world'' \<mapsto> h3, ''game'' \<mapsto> h5) \<and>
     (let p = length (ap_objs a) in
      get_ctx (ap_mgr b) = ((if run then (get_ctx (ap_mgr a))(h2 \<mapsto> p + 1) else get_ctx (ap_mgr a))(h3 \<mapsto> p + 2))(h5 \<mapsto> p + 3) \<and>
      cx_id (ap_objs b ! p) = ctx_handle a \<and> cx_user (ap_objs b ! p) = Obj_gate (gate_new\<lparr>world_id := h3, game_id := h5\<rparr>) \<and>
      cx_user (ap_objs b ! (p + 2)) = Obj_world world_new \<and> cx_user (ap_objs b ! (p + 3)) = Obj_game (game_on_init game_obj_new) \<and>
      ap_node b = ap_node a \<and> ap_config b = ap_config a \<and> length (ap_objs b) = p + 4 \<and>
      offers (ap_objs b ! p) [(''get_allocid'', True, Rpc_get_allocid)] \<and>
      offers (ap_objs b ! (p + 1)) [] \<and> (run \<longrightarrow> cx_user (ap_objs b ! (p + 1)) = Obj_ws (ws_new\<lparr>ws_server := True\<rparr>)) \<and>
      offers (ap_objs b ! (p + 2)) [(''player_login'', False, Rpc_player_login)] \<and>
      offers (ap_objs b ! (p + 3)) [(''add_player'', False, Rpc_add_player), (''on_client'', False, Rpc_on_client)])"

lemma ctx_handle_zero: "unat (allocid (ap_mgr a)) + 1 < 2 ^ 24 \<Longrightarrow> ctx_handle a \<noteq> 0"
  by (rule ctx_handle_parts(3))

text \<open>Handles given out one after the other are new and distinct.\<close>

lemma four_handles:
  assumes "app_inv a" "unat (allocid (ap_mgr a)) + 4 < 2 ^ 24" "allocid (ap_mgr a2) = allocid (ap_mgr a) + 1"
    "allocid (ap_mgr a3) = allocid (ap_mgr a2) + 1" "allocid (ap_mgr a5) = allocid (ap_mgr a3) + 1"
  shows "distinct [ctx_handle a, ctx_handle a2, ctx_handle a3, ctx_handle a5] \<and> 0 \<notin> {ctx_handle a, ctx_handle a2, ctx_handle a3, ctx_handle a5} \<and>
    (\<forall>h \<in> {ctx_handle a, ctx_handle a2, ctx_handle a3, ctx_handle a5}. get_ctx (ap_mgr a) h = None)"
proof -
  define x where "x = allocid (ap_mgr a)"
  have un: "unat (x + 1) = unat x + 1" "unat (x + 1 + 1) = unat x + 2" "unat (x + 1 + 1 + 1) = unat x + 3"
    using unat_plus [of x 1] unat_plus [of x 2] unat_plus [of x 3] assms(2) by (simp_all add: add.assoc x_def)
  have num: "unat (handle_ctxid (cqy_handle (ctx_handle a))) = unat x + 1" "unat (handle_ctxid (cqy_handle (ctx_handle a2))) = unat x + 2"
    "unat (handle_ctxid (cqy_handle (ctx_handle a3))) = unat x + 3" "unat (handle_ctxid (cqy_handle (ctx_handle a5))) = unat x + 4"
    "ctx_handle a \<noteq> 0" "ctx_handle a2 \<noteq> 0" "ctx_handle a3 \<noteq> 0" "ctx_handle a5 \<noteq> 0"
    using ctx_handle_parts(2,3) [of a] ctx_handle_parts(2,3) [of a2] ctx_handle_parts(2,3) [of a3] ctx_handle_parts(2,3) [of a5]
      un assms(2-5) by (simp_all add: x_def)
  have "get_ctx (ap_mgr a) h = None" if "unat (handle_ctxid (cqy_handle h)) > unat x" for h
    using that assms(1) by (cases "get_ctx (ap_mgr a) h") (force simp: app_inv_def x_def)+
  then show ?thesis
    using num by auto
qed

text \<open>The three contexts the gate creates.\<close>

lemma gate_creates:
  fixes io :: ws_io and param :: string and ndebug :: bool and p n :: nat
  assumes "app_inv a2" "unat (allocid (ap_mgr a2)) + 3 + demo_room n < 2 ^ 24" "demo_creators a2"
    "\<forall>nm \<in> {''ws_server'', ''world'', ''game''}. names_of (ap_mgr a2) nm = None"
  defines "run \<equiv> io = Io_running \<and> ws_params param \<noteq> None" and "init \<equiv> demo_on_init ndebug io n"
  obtains c3 c4 c6 a3 a4 a5 a6 where
    "grown run ''ws_server'' c3 a2 a3" "grown True ''world'' c4 a3 a4" "grown True ''game'' c6 a5 a6"
    "run \<longrightarrow> cx_user c3 = Obj_ws (ws_new\<lparr>ws_server := True\<rparr>)" "cx_user c4 = Obj_world world_new" "cx_user c6 = Obj_game (game_on_init game_obj_new)"
    "offers c3 []" "offers c4 [(''player_login'', False, Rpc_player_login)]" "offers c6 [(''add_player'', False, Rpc_add_player), (''on_client'', False, Rpc_on_client)]"
    "a5 = set_user p (Obj_gate (gate_new\<lparr>world_id := ctx_handle a3\<rparr>)) a4"
    "gate_rest ndebug init p param a2 = (Inr True, set_user p (Obj_gate (gate_new\<lparr>world_id := ctx_handle a3, game_id := ctx_handle a5\<rparr>)) a6)"
proof -
  define x where "x = allocid (ap_mgr a2)"
  have un: "unat (x + 1) = unat x + 1" "unat (x + 1 + 1) = unat x + 2"
    using unat_plus [of x 1] unat_plus [of x 2] assms(2) by (simp_all add: add.assoc x_def)
  obtain j c3 a3 where c3: "create_ctx init ''ws_server'' param a2 = (Inr j, a3)" and g3: "grown run ''ws_server'' c3 a2 a3"
      and u3: "run \<longrightarrow> cx_user c3 = Obj_ws (ws_new\<lparr>ws_server := True\<rparr>)" "offers c3 []"
    using demo_leaves(1) [OF assms(1), of n ws_new ndebug io param] assms(2-4) by (auto simp: run_def init_def demo_creators_def)
  have h3: "allocid (ap_mgr a3) = x + 1" using g3 by (simp add: grown_def x_def)
  obtain c4 a4 where c4: "create_ctx init ''world'' [] a3 = (Inr (ctx_handle a3), a4)"
    and g4: "grown True ''world'' c4 a3 a4" "cx_user c4 = Obj_world world_new" "offers c4 [(''player_login'', False, Rpc_player_login)]"
    using demo_leaves(2) [of a3 n world_new ndebug io] un(1) h3 assms(2-4) g3 by (auto simp: init_def grown_def demo_creators_def x_def)
  define a5 where "a5 = set_user p (Obj_gate (gate_new\<lparr>world_id := ctx_handle a3\<rparr>)) a4"
  have h5: "allocid (ap_mgr a5) = x + 1 + 1" using g4 h3 by (simp add: grown_def a5_def)
  have i5: "app_inv a5" using g4 by (simp add: grown_def a5_def set_user_inv)
  obtain c6 a6 where c6: "create_ctx init ''game'' [] a5 = (Inr (ctx_handle a5), a6)"
    and g6: "grown True ''game'' c6 a5 a6" "cx_user c6 = Obj_game (game_on_init game_obj_new)"
      "offers c6 [(''add_player'', False, Rpc_add_player), (''on_client'', False, Rpc_on_client)]"
    using demo_leaves(3) [OF i5, of n game_obj_new ndebug io] un(2) h5 assms(2-4) g3 g4
    by (auto simp: init_def grown_def demo_creators_def a5_def x_def)
  have "ctx_handle a3 \<noteq> 0" "ctx_handle a5 \<noteq> 0"
    using ctx_handle_zero [of a3] ctx_handle_zero [of a5] h3 h5 un assms(2) by (simp_all add: x_def)
  with c3 c4 c6 have "gate_rest ndebug init p param a2 =
      (Inr True, set_user p (Obj_gate (gate_new\<lparr>world_id := ctx_handle a3, game_id := ctx_handle a5\<rparr>)) a6)"
    by (simp add: gate_rest_def a5_def [symmetric])
  from that [OF g3 g4(1) g6(1) u3(1) g4(2) g6(2) u3(2) g4(3) g6(3) a5_def this] show ?thesis .
qed

lemma gate_boots:
  assumes "app_inv a" "unat (allocid (ap_mgr a)) + 1 + demo_room (Suc n) < 2 ^ 24" "demo_creators a"
    "\<forall>nm \<in> {''gate'', ''ws_server'', ''world'', ''game''}. names_of (ap_mgr a) nm = None"
  shows "\<exists>b h2 h3 h5. demo_on_init ndebug io (Suc n) (length (ap_objs a)) param (create_pre (Obj_gate gate_new) a) = (Inr True, b) \<and>
    booted (io = Io_running \<and> ws_params param \<noteq> None) a b h2 h3 h5"
proof -
  let ?p = "length (ap_objs a)" and ?run = "io = Io_running \<and> ws_params param \<noteq> None"
  have one: "unat (allocid (ap_mgr a)) + 1 < 2 ^ 24" "names_of (ap_mgr a) ''gate'' = None" using assms(2,4) by simp_all
  from gate_begins [OF assms(1) one(1) assms(3) one(2), of ndebug param] obtain a2 c where
    go: "\<And>init. gate_on_init ndebug init gate_new ?p param (create_pre (Obj_gate gate_new) a) = gate_rest ndebug init ?p param a2"
    and a2: "app_inv a2" "ap_config a2 = ap_config a" "ap_creator a2 = ap_creator a" "allocid (ap_mgr a2) = allocid (ap_mgr a) + 1"
      "names_of (ap_mgr a2) = (names_of (ap_mgr a))(''gate'' \<mapsto> ctx_handle a)" "get_ctx (ap_mgr a2) = get_ctx (ap_mgr a)"
      "ap_objs a2 = ap_objs a @ [c]" "cx_id c = ctx_handle a" "offers c [(''get_allocid'', True, Rpc_get_allocid)]" "ap_node a2 = ap_node a" by blast
  have room: "unat (allocid (ap_mgr a2)) + 3 + demo_room n < 2 ^ 24"
    using unat_plus [of "allocid (ap_mgr a)" 1] a2(4) assms(2) by simp
  have dc: "demo_creators a2" "\<forall>nm \<in> {''ws_server'', ''world'', ''game''}. names_of (ap_mgr a2) nm = None"
    using assms(3,4) a2(3,5) by (simp_all add: demo_creators_def)
  obtain c3 c4 c6 a3 a4 a5 a6 where
    g3: "grown ?run ''ws_server'' c3 a2 a3" and g4: "grown True ''world'' c4 a3 a4" and g6: "grown True ''game'' c6 a5 a6"
    and u: "?run \<longrightarrow> cx_user c3 = Obj_ws (ws_new\<lparr>ws_server := True\<rparr>)" "cx_user c4 = Obj_world world_new" "cx_user c6 = Obj_game (game_on_init game_obj_new)"
      "offers c3 []" "offers c4 [(''player_login'', False, Rpc_player_login)]" "offers c6 [(''add_player'', False, Rpc_add_player), (''on_client'', False, Rpc_on_client)]"
    and a5: "a5 = set_user ?p (Obj_gate (gate_new\<lparr>world_id := ctx_handle a3\<rparr>)) a4"
    and rest: "gate_rest ndebug (demo_on_init ndebug io n) ?p param a2 =
      (Inr True, set_user ?p (Obj_gate (gate_new\<lparr>world_id := ctx_handle a3, game_id := ctx_handle a5\<rparr>)) a6)"
    by (rule gate_creates [OF a2(1) room dc, where io = io and param = param and p = ?p and ndebug = ndebug])
  define a7 where "a7 = set_user ?p (Obj_gate (gate_new\<lparr>world_id := ctx_handle a3, game_id := ctx_handle a5\<rparr>)) a6"
  have "allocid (ap_mgr a5) = allocid (ap_mgr a4)" by (simp add: a5)
  then have num: "allocid (ap_mgr a3) = allocid (ap_mgr a2) + 1" "allocid (ap_mgr a5) = allocid (ap_mgr a3) + 1"
    using g3 g4 by (simp_all only: grown_def)
  have h: "distinct [ctx_handle a, ctx_handle a2, ctx_handle a3, ctx_handle a5] \<and> 0 \<notin> {ctx_handle a, ctx_handle a2, ctx_handle a3, ctx_handle a5} \<and>
      (\<forall>h \<in> {ctx_handle a, ctx_handle a2, ctx_handle a3, ctx_handle a5}. get_ctx (ap_mgr a) h = None)"
    by (rule four_handles [OF assms(1) _ a2(4) num]) (use assms(2) in simp)
  have objs: "ap_objs a3 = ap_objs a @ [c, c3]" "ap_objs a5 = ap_objs a @ [c\<lparr>cx_user := Obj_gate (gate_new\<lparr>world_id := ctx_handle a3\<rparr>)\<rparr>, c3, c4]"
    "ap_objs a7 = ap_objs a @ [c\<lparr>cx_user := Obj_gate (gate_new\<lparr>world_id := ctx_handle a3, game_id := ctx_handle a5\<rparr>)\<rparr>, c3, c4, c6]"
    using a2(7) g3 g4 g6 by (auto simp: grown_def a5 a7_def set_user_def upd_obj_def)
  have "app_inv a7" using g6 by (simp add: grown_def a7_def set_user_inv)
  moreover have "ap_node a7 = ap_node a" "ap_config a7 = ap_config a"
    using g3 g4 g6 a2(2,10) by (simp_all add: grown_def a5 a7_def set_user_def)
  ultimately
  have "booted ?run a a7 (ctx_handle a2) (ctx_handle a3) (ctx_handle a5)"
    using h objs u a2(5-9) grown_get [OF g3] grown_get [OF g4] grown_get [OF g6] grown_names [OF g3] grown_names [OF g4] grown_names [OF g6]
    unfolding booted_def Let_def by (intro conjI) (auto simp: nth_append numeral_eq_Suc a5 a7_def)
  moreover have "cx_user (ap_objs (create_pre (Obj_gate gate_new) a) ! ?p) = Obj_gate gate_new"
    by (simp add: create_pre_def ctx_new_def)
  then have "demo_on_init ndebug io (Suc n) ?p param (create_pre (Obj_gate gate_new) a) = (Inr True, a7)"
    using rest by (simp add: demo_on_init.simps [of ndebug io "Suc n"] go a7_def)
  ultimately show ?thesis by blast
qed

lemma gate_created:
  assumes "app_inv a" "unat (allocid (ap_mgr a)) + 1 + demo_room (Suc n) < 2 ^ 24" "demo_creators a"
    "\<forall>nm \<in> {''gate'', ''ws_server'', ''world'', ''game''}. names_of (ap_mgr a) nm = None"
  obtains b h2 h3 h5 m where
    "create_ctx (demo_on_init ndebug io (Suc n)) ''gate'' param a = (Inr (ctx_handle a), b\<lparr>ap_mgr := m, ap_receivers := ap_receivers b @ [length (ap_objs a)]\<rparr>)"
    "booted (io = Io_running \<and> ws_params param \<noteq> None) a b h2 h3 h5" "mgr_inv m" "names_of m = names_of (ap_mgr b)"
    "get_ctx m = (get_ctx (ap_mgr b))(ctx_handle a \<mapsto> length (ap_objs a))"
proof -
  let ?p = "length (ap_objs a)"
  obtain b h2 h3 h5 where init: "demo_on_init ndebug io (Suc n) ?p param (create_pre (Obj_gate gate_new) a) = (Inr True, b)"
    and bt: "booted (io = Io_running \<and> ws_params param \<noteq> None) a b h2 h3 h5"
    using gate_boots [OF assms] by blast
  define m where "m = snd (add_ctx (ctx_handle a) ?p (ap_mgr b))"
  let ?a = "b\<lparr>ap_mgr := m, ap_receivers := ap_receivers b @ [?p]\<rparr>"
  have cr: "create_ctx (demo_on_init ndebug io (Suc n)) ''gate'' param a = (Inr (ctx_handle a), ?a)"
    using assms(3) init bt by (simp add: create_ctx_eq m_def demo_creators_def booted_def Let_def)
  have mi: "mgr_inv m" "names_of m = names_of (ap_mgr b)"
    using bt by (simp_all add: m_def mgr_inv_add_ctx booted_def app_inv_def) (simp add: add_ctx_def names_of_def)
  have gm: "get_ctx m = (get_ctx (ap_mgr b))(ctx_handle a \<mapsto> ?p)"
    using bt by (auto simp: m_def find_ctx_after_add fun_eq_iff booted_def Let_def)
  show ?thesis by (rule that [OF cr bt mi gm])
qed

text \<open>The demo starts: whatever the parameter and the outcome of the web server, creating \<open>gate\<close> in an application
  with the classes of \<open>main\<close> creates the world and the game as well; the gate, registered under its name, knows their ids, which
  are the ids their names stand for, both contexts are alive with their initial state, and the training scene is configured. The
  context of the web server exists exactly when its parameter has five usable fields and the server runs; its name is registered in any case.\<close>

theorem demo_boots:
  assumes "app_inv a" "unat (allocid (ap_mgr a)) + 1 + demo_room (Suc n) < 2 ^ 24" "demo_creators a"
    "\<forall>nm \<in> {''gate'', ''ws_server'', ''world'', ''game''}. names_of (ap_mgr a) nm = None"
  shows "\<exists>i a' p g q r.
     create_ctx (demo_on_init ndebug io (Suc n)) ''gate'' param a = (Inr i, a') \<and> i \<noteq> 0 \<and>
     find_name (ap_mgr a') ''gate'' = i \<and> get_ctx (ap_mgr a') i = Some p \<and> cx_user (ap_objs a' ! p) = Obj_gate g \<and>
     find_name (ap_mgr a') ''world'' = world_id g \<and> get_ctx (ap_mgr a') (world_id g) = Some q \<and>
     cx_user (ap_objs a' ! q) = Obj_world world_new \<and>
     find_name (ap_mgr a') ''game'' = game_id g \<and> get_ctx (ap_mgr a') (game_id g) = Some r \<and>
     cx_user (ap_objs a' ! r) = Obj_game (game_on_init game_obj_new) \<and> world_id g \<noteq> game_id g \<and>
     find_name (ap_mgr a') ''ws_server'' \<noteq> 0 \<and>
     (get_ctx (ap_mgr a') (find_name (ap_mgr a') ''ws_server'') \<noteq> None \<longleftrightarrow> io = Io_running \<and> ws_params param \<noteq> None)"
proof -
  obtain b h2 h3 h5 m where cr: "create_ctx (demo_on_init ndebug io (Suc n)) ''gate'' param a =
      (Inr (ctx_handle a), b\<lparr>ap_mgr := m, ap_receivers := ap_receivers b @ [length (ap_objs a)]\<rparr>)"
    and bt: "booted (io = Io_running \<and> ws_params param \<noteq> None) a b h2 h3 h5" and m: "mgr_inv m" "names_of m = names_of (ap_mgr b)"
      "get_ctx m = (get_ctx (ap_mgr b))(ctx_handle a \<mapsto> length (ap_objs a))"
    by (rule gate_created [OF assms, where ndebug = ndebug and io = io and param = param])
  show ?thesis
    using cr bt m(3) find_name_names_of [OF m(1)] by (auto simp: m(2) booted_def Let_def)
qed


lemma demo_loaded_facts:
  "app_inv (demo_loaded cfg)" "demo_creators (demo_loaded cfg)" "allocid (ap_mgr (demo_loaded cfg)) = 0" "names_of (ap_mgr (demo_loaded cfg)) nm = None"
  by (simp_all add: demo_loaded_def set_bootstrap_def demo_reg_def demo_creators_def reg_ctx_def update_conv' app_init_def app_inv_def Let_def get_ctx_def
      names_of_def) (simp_all add: ctx_mgr_init_def)

text \<open>The bootstrap line of \<open>main\<close> names the gate and gives the web server its five fields, the last one empty.\<close>

lemma main_bootstrap:
  "algo_split_one (cfg_bootstrap (ap_config (demo_loaded cfg))) '' '' = Inr (''gate'', ''8,12348,server.crt,server.key,'')"
  by (simp add: demo_loaded_def set_bootstrap_def split_one_char Let_def)

lemma main_ws_params: "ws_params ''8,12348,server.crt,server.key,'' = Some (8, 12348, ''server.crt'', ''server.key'', [])"
proof -
  have "algo_split ''8,12348,server.crt,server.key,'' '','' = [''8'', ''12348'', ''server.crt'', ''server.key'', []]" by code_simp
  moreover have "algo_to_n 0 (2 ^ 64 - 1) ''8'' = Some 8" "algo_to_n 0 (2 ^ 16 - 1) ''12348'' = Some 12348"
    by (simp_all add: algo_to_n_def from_chars_def Let_def is_digit_def digits_value_def)
  ultimately show ?thesis unfolding ws_params_def by simp
qed

theorem demo_boots_witness:
  "\<exists>i a' p g. create_ctx (demo_on_init False Io_running 1) ''gate'' ''8,12348,server.crt,server.key,'' (demo_loaded (two_nodes 1)) = (Inr i, a') \<and>
     find_name (ap_mgr a') ''gate'' = i \<and> get_ctx (ap_mgr a') i = Some p \<and> cx_user (ap_objs a' ! p) = Obj_gate g \<and>
     find_name (ap_mgr a') ''game'' = game_id g \<and>
     get_ctx (ap_mgr a') (find_name (ap_mgr a') ''ws_server'') \<noteq> None"
proof -
  have "unat (allocid (ap_mgr (demo_loaded (two_nodes 1)))) + 1 + demo_room (Suc 0) < 2 ^ 24"
    by (simp add: demo_loaded_facts)
  from demo_boots [OF demo_loaded_facts(1) this demo_loaded_facts(2), of False Io_running "''8,12348,server.crt,server.key,''"]
  show ?thesis unfolding main_ws_params One_nat_def using demo_loaded_facts(4) by (simp del: not_None_eq) blast
qed

end
