(* ===== verification/Game_Notify.thy ===== *)
theory Game_Notify
  imports Game_App "HOL-Library.Sublist"
begin

text \<open>
  How notifications travel through the demo: \<open>write_notify\<close>, \<open>broad_notify\<close> and \<open>write_data\<close> of world and game
  (\<open>example/game_demo.h\<close>) put a message into the mailbox of the gate, the gate's \<open>on_msg\<close> sends one message per connection to the web
  socket server, and its \<open>on_msg\<close> writes to the sockets. In the other direction, what a socket delivers is published to the gate. The handlers of \<open>Game_Login\<close> and \<open>Game_Ws\<close> run here on the contexts of an
  application, on the bytes of their messages. \<open>ser\<close> and \<open>deser\<close> are struct\_pack, \<open>enc\<close> and \<open>dec\<close> are msgpack.
\<close>

section \<open>Sending\<close>

definition write_pack :: "(payload \<Rightarrow> string) \<Rightarrow> nat \<Rightarrow> u32 \<Rightarrow> u8 \<Rightarrow> payload \<Rightarrow> demo_app \<Rightarrow> demo_app" where
  "write_pack ser p from t pl a = snd (dispatch_pack_id ser p from t pl a)"

definition write_data :: "(payload \<Rightarrow> string) \<Rightarrow> nat \<Rightarrow> u64 \<Rightarrow> string \<Rightarrow> demo_app \<Rightarrow> u32 result \<times> demo_app" where
  "write_data ser p connid data = dispatch_pack_name ser p ''.gate'' (gate_msg_number Gm_write) (Pl_conn_data connid data)"

definition write_notify ::
  "(payload \<Rightarrow> string) \<Rightarrow> (mp_obj \<Rightarrow> string) \<Rightarrow> nat \<Rightarrow> u64 \<Rightarrow> mp_obj \<Rightarrow> demo_app \<Rightarrow> u32 result \<times> demo_app" where
  "write_notify ser enc p connid arg =
     dispatch_pack_name ser p ''.gate'' (gate_msg_number Gm_write) (Pl_conn_data connid (codec_pack enc arg))"

definition broad_notify ::
  "(payload \<Rightarrow> string) \<Rightarrow> (mp_obj \<Rightarrow> string) \<Rightarrow> nat \<Rightarrow> mp_obj \<Rightarrow> demo_app \<Rightarrow> u32 result \<times> demo_app" where
  "broad_notify ser enc p arg = dispatch_pack_name ser p ''.gate'' (gate_msg_number Gm_broad) (Pl_data (codec_pack enc arg))"

section \<open>Receiving\<close>

text \<open>The comparisons of \<open>msg->type\<close> with the numbers of \<open>gate_msg_type_t\<close>, and \<open>unpack\<close> of the buffer, whose exceptions the handlers
  swallow.\<close>

definition demo_unpack :: "(string \<Rightarrow> string + payload) \<Rightarrow> string \<Rightarrow> (gate_msg_type_t \<times> payload) option" where
  "demo_unpack deser m =
     (case (find (\<lambda>t. gate_msg_number t = msg_type (get_msg m)) [Ws_start, Ws_msg, Ws_stop, Gm_write, Gm_close, Gm_broad], msg_buffer m) of
        (Some t, Inr data) \<Rightarrow> (case unpack deser data of Inr pl \<Rightarrow> Some (t, pl) | Inl _ \<Rightarrow> None)
      | _ \<Rightarrow> None)"

text \<open>What the gate sends goes out with \<open>write_pack\<close>.\<close>

definition gate_send :: "(payload \<Rightarrow> string) \<Rightarrow> (mp_obj \<Rightarrow> string) \<Rightarrow> nat \<Rightarrow> demo_out \<Rightarrow> demo_app \<Rightarrow> demo_app" where
  "gate_send ser enc p out = fold (\<lambda>(to, t, pl). write_pack ser p to (gate_msg_number t) pl) (gate_to_ws enc out)"

text \<open>\<open>gate_t::on_msg\<close> in the context \<open>p\<close>; the result also has the tasks it starts, except those whose \<open>unpack\<close> throws, which do nothing.\<close>

definition gate_handle ::
  "(payload \<Rightarrow> string) \<Rightarrow> (string \<Rightarrow> string + payload) \<Rightarrow> (mp_obj \<Rightarrow> string) \<Rightarrow> nat \<Rightarrow> string \<Rightarrow> demo_app \<Rightarrow> gate_task list \<times> demo_app" where
  "gate_handle ser deser enc p m a =
     (case (cx_user (ap_objs a ! p), demo_unpack deser m) of
        (Obj_gate g, Some (t, pl)) \<Rightarrow>
          (case gate_on_msg (msg_from (get_msg m)) t pl g of
             (tasks, g', outs) \<Rightarrow> (tasks, fold (gate_send ser enc p) outs (set_user p (Obj_gate g') a)))
      | _ \<Rightarrow> ([], a))"

text \<open>\<open>ws_server_t::on_msg\<close> in the context \<open>p\<close>.\<close>

definition ws_handle :: "(string \<Rightarrow> string + payload) \<Rightarrow> (nat \<Rightarrow> bool) \<Rightarrow> nat \<Rightarrow> string \<Rightarrow> demo_app \<Rightarrow> ws_act list" where
  "ws_handle deser alive p m a =
     (case (cx_user (ap_objs a ! p), demo_unpack deser m) of
        (Obj_ws s, Some (t, pl)) \<Rightarrow> ws_on_msg alive t pl s
      | _ \<Rightarrow> [])"

section \<open>Mailboxes\<close>

definition mbox :: "demo_app \<Rightarrow> nat \<Rightarrow> string list" where
  "mbox a q = q_items (cx_queue (ap_objs a ! q))"

text \<open>Sending only appends to mailboxes: registry, states, functions and ids stay, and so does whether a mailbox is closed.\<close>

definition posts :: "demo_app \<Rightarrow> demo_app \<Rightarrow> bool" where
  "posts a a' \<longleftrightarrow>
     ap_mgr a' = ap_mgr a \<and> ap_config a' = ap_config a \<and> length (ap_objs a') = length (ap_objs a) \<and>
     get_handle a' = get_handle a \<and>
     (\<forall>q < length (ap_objs a).
        cx_router (ap_objs a' ! q) = cx_router (ap_objs a ! q) \<and>
        cx_id (ap_objs a' ! q) = cx_id (ap_objs a ! q) \<and> cx_user (ap_objs a' ! q) = cx_user (ap_objs a ! q) \<and>
        q_stop (cx_queue (ap_objs a' ! q)) = q_stop (cx_queue (ap_objs a ! q)) \<and> prefix (mbox a q) (mbox a' q))"

text \<open>Addresses depend on the configured nodes only.\<close>

lemma get_handle_infos:
  fixes a a' :: demo_app
  assumes "self_nodeid (ap_node a') = self_nodeid (ap_node a)" "map nd_info (nodes (ap_node a')) = map nd_info (nodes (ap_node a))"
  shows "get_handle a' = get_handle a"
proof -
  have lt: "get_node_name (ap_node b) nm = Some k \<Longrightarrow> k < length (nodes (ap_node b))" for b :: demo_app and nm k
    by (auto simp: get_node_name_def get_node_def split: if_splits simp: index_of_Some_iff)
  have "get_node_name (ap_node a') = get_node_name (ap_node a)"
    using assms by (simp add: fun_eq_iff get_node_name_def get_node_def index_of_map [of "\<lambda>i. info_name i = _" nd_info, symmetric]
        index_of_map [of "\<lambda>i. info_nodeid i = _" nd_info, symmetric])
  moreover have "nd_info (nodes (ap_node a') ! k) = nd_info (nodes (ap_node a) ! k)" if "k < length (nodes (ap_node a))" for k
    using that assms(2) by (metis length_map nth_map)
  ultimately show ?thesis
    using lt [of a] by (fastforce simp: get_handle_eq Let_def fun_eq_iff intro!: map_option_cong)
qed

lemma posts_refl: "posts a a"
  by (simp add: posts_def)

lemma posts_trans: "posts a b \<Longrightarrow> posts b c \<Longrightarrow> posts a c"
  by (auto simp: posts_def intro: prefix_order.trans)

lemma posts_inv: "posts a a' \<Longrightarrow> app_inv a \<Longrightarrow> app_inv a'"
  by (auto simp: posts_def app_inv_def)

lemma posts_push: "posts a (node_push_msg q m a)"
  by (auto simp: posts_def mbox_def node_push_msg_def upd_obj_nth upd_obj_keeps_id q_push_def intro: get_handle_infos)

lemma posts_next_session: "posts a (snd (next_session p a))"
  by (auto simp: posts_def mbox_def next_session_def Let_def upd_obj_nth intro: get_handle_infos)

lemma posts_mq_push: "posts a (node_mq_push m a)"
proof -
  have "posts a (peer_push k m a)" for k
    by (auto simp: posts_def mbox_def intro!: get_handle_infos)
  then show ?thesis
    by (auto simp: node_mq_push_def Let_def posts_refl posts_push split: option.split)
qed

lemma posts_write_pack: "posts a (write_pack ser p i t pl a)"
  unfolding write_pack_def dispatch_pack_id_def dispatch_id_def
  by (simp add: split_beta Let_def posts_trans [OF posts_next_session posts_mq_push])

text \<open>A message to a context of this node: what is appended to its mailbox.\<close>

definition carries :: "string \<Rightarrow> u32 \<Rightarrow> gate_msg_type_t \<Rightarrow> string \<Rightarrow> bool" where
  "carries m from t data \<longleftrightarrow> msg_from (get_msg m) = from \<and> msg_type (get_msg m) = gate_msg_number t \<and> msg_buffer m = Inr data"

lemma carries_unpack: "carries m from t (ser pl) \<Longrightarrow> deser (ser pl) = Inr pl \<Longrightarrow> demo_unpack deser m = Some (t, pl)"
  by (cases t) (simp_all add: carries_def demo_unpack_def unpack_def gate_msg_number_def)

lemma dispatch_id_posts_one:
  assumes "app_inv a" "get_ctx (ap_mgr a) i = Some w" "\<not> q_stop (cx_queue (ap_objs a ! w))" "length data < 2 ^ 32"
  shows "\<exists>m. mbox (snd (dispatch_id p i (gate_msg_number t) data a)) w = mbox a w @ [m] \<and> carries m (getid p a) t data \<and>
    ap_node (snd (dispatch_id p i (gate_msg_number t) data a)) = ap_node a"
proof -
  let ?m = "msg_make (getid p a) i (cx_session (ap_objs a ! p) + 1) (gate_msg_number t) False data" and ?a = "snd (next_session p a)"
  have w: "w < length (ap_objs a)" "handle_node (cqy_handle i) = cfg_nodeid (ap_config a)"
    using assms(1,2) by (simp_all add: app_inv_def)
  then have "node_mq_push ?m ?a = node_push_msg w ?m ?a"
    using assms(2) by (intro node_mq_push_local [OF msg_parse_make [OF assms(4)]]) simp_all
  then have "snd (dispatch_id p i (gate_msg_number t) data a) = node_push_msg w ?m ?a"
    by (simp add: dispatch_id_def split_beta Let_def)
  moreover have "mbox (node_push_msg w ?m ?a) w = mbox a w @ [?m]"
    using node_push_msg_queue [of w ?a] w(1) assms(3) by (simp add: mbox_def)
  moreover have "carries ?m (getid p a) t data"
    using msg_buffer_make [OF assms(4)] by (simp add: carries_def)
  ultimately show ?thesis by (auto simp: node_push_msg_def)
qed

lemma write_pack_one:
  assumes "app_inv a" "get_ctx (ap_mgr a) i = Some w" "\<not> q_stop (cx_queue (ap_objs a ! w))" "length (ser pl) < 2 ^ 32"
  shows "\<exists>m. mbox (write_pack ser p i (gate_msg_number t) pl a) w = mbox a w @ [m] \<and> carries m (getid p a) t (ser pl)"
  using dispatch_id_posts_one [OF assms, of p t] by (auto simp: write_pack_def dispatch_pack_id_def)

text \<open>A message to the gate by name.\<close>

definition gate_named :: "demo_app \<Rightarrow> nat \<Rightarrow> bool" where
  "gate_named a q \<longleftrightarrow>
     (\<exists>h. get_handle a ''.gate'' = Inr (Some (h, ''gate'')) \<and> handle_node h = cfg_nodeid (ap_config a)) \<and>
     get_ctx (ap_mgr a) (find_name (ap_mgr a) ''gate'') = Some q \<and> \<not> q_stop (cx_queue (ap_objs a ! q))"

lemma app_inv_lt: "app_inv a \<Longrightarrow> get_ctx (ap_mgr a) i = Some p \<Longrightarrow> p < length (ap_objs a)"
  by (simp add: app_inv_def)

lemma gate_named_lt: "app_inv a \<Longrightarrow> gate_named a q \<Longrightarrow> q < length (ap_objs a)"
  using app_inv_lt [of a "find_name (ap_mgr a) ''gate''" q] by (simp add: gate_named_def)



lemma dispatch_gate:
  fixes ser :: "payload \<Rightarrow> string"
  assumes "app_inv a" "gate_named a q" "length (ser pl) < 2 ^ 32"
  shows "\<exists>m a'. dispatch_pack_name ser p ''.gate'' (gate_msg_number t) pl a = (Inr (cx_session (ap_objs a ! p) + 1), a') \<and>
    posts a a' \<and> mbox a' q = mbox a q @ [m] \<and> carries m (getid p a) t (ser pl) \<and> gate_named a' q"
proof -
  let ?i = "find_name (ap_mgr a) ''gate''" and ?t = "gate_msg_number t"
  obtain h where h: "get_handle a ''.gate'' = Inr (Some (h, ''gate''))" "handle_node h = cfg_nodeid (ap_config a)"
    using assms(2) by (auto simp: gate_named_def)
  then have "dispatch_pack_name ser p ''.gate'' ?t pl a = (Inr (cx_session (ap_objs a ! p) + 1), snd (dispatch_id p ?i ?t (ser pl) a))"
    by (simp add: dispatch_pack_name_def dispatch_name_def dispatch_id_def app_self_nodeid_def get_ctxid_def handle_node_def split_beta Let_def)
  moreover have po: "posts a (snd (dispatch_id p ?i ?t (ser pl) a))"
    using posts_write_pack [of a ser p ?i ?t pl] by (simp add: write_pack_def dispatch_pack_id_def)
  moreover obtain m where m: "mbox (snd (dispatch_id p ?i ?t (ser pl) a)) q = mbox a q @ [m]" "carries m (getid p a) t (ser pl)"
      "ap_node (snd (dispatch_id p ?i ?t (ser pl) a)) = ap_node a"
    using assms dispatch_id_posts_one [of a ?i q "ser pl" p t] by (auto simp: gate_named_def)
  moreover have "gate_named (snd (dispatch_id p ?i ?t (ser pl) a)) q"
    using po assms(2) gate_named_lt [OF assms(1,2)] by (simp add: gate_named_def posts_def)
  ultimately show ?thesis by auto
qed

section \<open>What the web socket server publishes\<close>

definition ws_publish :: "(payload \<Rightarrow> string) \<Rightarrow> nat \<Rightarrow> ws_out \<Rightarrow> demo_app \<Rightarrow> demo_app" where
  "ws_publish ser p out a = (case out of Pub t pl \<Rightarrow> snd (dispatch_pack_name ser p ''.gate'' (gate_msg_number t) pl a))"

fun out_short :: "(payload \<Rightarrow> string) \<Rightarrow> ws_out \<Rightarrow> bool" where
  "out_short ser (Pub t pl) \<longleftrightarrow> length (ser pl) < 2 ^ 32"

fun out_carried :: "(string \<Rightarrow> string + payload) \<Rightarrow> u32 \<Rightarrow> ws_out \<Rightarrow> string \<Rightarrow> bool" where
  "out_carried deser from (Pub t pl) m \<longleftrightarrow> msg_from (get_msg m) = from \<and> demo_unpack deser m = Some (t, pl)"

lemma published:
  assumes "app_inv a" "gate_named a q" "p < length (ap_objs a)" "\<And>x. deser (ser x) = Inr x" "\<forall>out \<in> set outs. out_short ser out"
  shows "\<exists>ms. mbox (fold (ws_publish ser p) outs a) q = mbox a q @ ms \<and> list_all2 (out_carried deser (getid p a)) outs ms"
  using assms
proof (induction outs arbitrary: a)
  case (Cons out outs)
  obtain t pl where out: "out = Pub t pl" by (cases out)
  obtain a1 m where a1: "ws_publish ser p out a = a1" "posts a a1" "mbox a1 q = mbox a q @ [m]" "carries m (getid p a) t (ser pl)" "gate_named a1 q"
    using dispatch_gate [OF Cons.prems(1,2), of ser pl p t] Cons.prems(5) by (auto simp: ws_publish_def out)
  have "out_carried deser (getid p a) out m"
    using carries_unpack [where ser = ser and deser = deser and pl = pl, OF a1(4)] a1(4) Cons.prems(4) by (simp add: out carries_def)
  moreover have "getid p a1 = getid p a" "p < length (ap_objs a1)"
    using a1(2) Cons.prems(3) by (simp_all add: posts_def getid_def)
  moreover from this Cons.IH [OF posts_inv [OF a1(2) Cons.prems(1)] a1(5)] Cons.prems(4,5) obtain ms
    where "mbox (fold (ws_publish ser p) outs a1) q = mbox a1 q @ ms" "list_all2 (out_carried deser (getid p a1)) outs ms" by auto
  ultimately show ?case using a1(1,3) by (intro exI [of _ "m # ms"]) simp
qed simp

section \<open>What the gate relays\<close>

text \<open>One packet per connection, each with the next sequence number of that connection.\<close>

definition relayed :: "string \<Rightarrow> u64 \<Rightarrow> gate_player \<Rightarrow> demo_out" where
  "relayed str c pl = Out_ctx (gp_from pl) Gm_write c (Some (From_world str (gp_recv_sign pl + 1)))"

lemma relay_all_world:
  assumes "distinct (map fst ps)" "\<forall>(c, pl) \<in> set ps. map_of (gt_players g) c = Some pl"
  shows "\<exists>g'. relay_all (world_id g) (map fst ps) str g = (g', map (\<lambda>(c, pl). relayed str c pl) ps)"
  using assms
proof (induction ps arbitrary: g)
  case (Cons x ps)
  obtain c pl where x: "x = (c, pl)" by force
  let ?g = "g\<lparr>gt_players := AList.update c (pl\<lparr>gp_recv_sign := gp_recv_sign pl + 1\<rparr>) (gt_players g)\<rparr>"
  have "relay (world_id g) c str g = (?g, [relayed str c pl])"
    using Cons.prems x by (simp add: relay_def write_rsp_def relayed_def Let_def)
  moreover have "\<forall>(d, q) \<in> set ps. map_of (gt_players ?g) d = Some q"
  proof clarify
    fix d q assume "(d, q) \<in> set ps"
    then have "d \<noteq> c" "map_of (gt_players g) d = Some q" using Cons.prems x by (force, fastforce)
    then show "map_of (gt_players ?g) d = Some q" by (simp add: update_conv')
  qed
  with Cons.IH [of ?g] Cons.prems x obtain g' where "relay_all (world_id ?g) (map fst ps) str ?g = (g', map (\<lambda>(c, pl). relayed str c pl) ps)"
    by auto
  ultimately show ?case using x by simp
qed simp

lemma gate_send_relayed:
  "gate_send ser enc p (relayed str c pl) a =
     write_pack ser p (gp_from pl) (gate_msg_number Gm_write) (Pl_conn_data c (codec_pack enc (pack_client (From_world str (gp_recv_sign pl + 1))))) a"
  by (simp add: gate_send_def relayed_def gate_to_ws_def)

lemma relayed_delivered:
  assumes "app_inv a" "p < length (ap_objs a)" "get_ctx (ap_mgr a) i = Some w" "\<not> q_stop (cx_queue (ap_objs a ! w))"
    "\<forall>(c, pl) \<in> set ps. gp_from pl = i \<and> length (ser (Pl_conn_data c (codec_pack enc (pack_client (From_world str (gp_recv_sign pl + 1)))))) < 2 ^ 32"
  shows "\<exists>ms. mbox (fold (gate_send ser enc p) (map (\<lambda>(c, pl). relayed str c pl) ps) a) w = mbox a w @ ms \<and>
    list_all2 (\<lambda>(c, pl) m. carries m (getid p a) Gm_write (ser (Pl_conn_data c (codec_pack enc (pack_client (From_world str (gp_recv_sign pl + 1))))))) ps ms"
  using assms
proof (induction ps arbitrary: a)
  case (Cons x ps)
  obtain c pl where x: "x = (c, pl)" by force
  let ?a = "gate_send ser enc p (relayed str c pl) a"
  have po: "posts a ?a" by (simp add: gate_send_relayed posts_write_pack)
  have w: "w < length (ap_objs a)" using Cons.prems(1,3) by (simp add: app_inv_def)
  have id: "getid p ?a = getid p a" using po Cons.prems(2) by (simp add: posts_def getid_def)
  obtain m where m: "mbox ?a w = mbox a w @ [m]"
      "carries m (getid p a) Gm_write (ser (Pl_conn_data c (codec_pack enc (pack_client (From_world str (gp_recv_sign pl + 1))))))"
    using write_pack_one [OF Cons.prems(1,3,4), of ser _ p Gm_write] Cons.prems(5) x unfolding gate_send_relayed by auto
  have "app_inv ?a" "p < length (ap_objs ?a)" "get_ctx (ap_mgr ?a) i = Some w" "\<not> q_stop (cx_queue (ap_objs ?a ! w))"
    using posts_inv [OF po Cons.prems(1)] po w Cons.prems(2-4) by (simp_all add: posts_def)
  from Cons.IH [OF this] Cons.prems(5) obtain ms where "mbox (fold (gate_send ser enc p) (map (\<lambda>(c, pl). relayed str c pl) ps) ?a) w = mbox ?a w @ ms"
      "list_all2 (\<lambda>(c, pl) m. carries m (getid p ?a) Gm_write (ser (Pl_conn_data c (codec_pack enc (pack_client (From_world str (gp_recv_sign pl + 1))))))) ps ms"
    by auto
  then show ?case using m x id by (intro exI [of _ "m # ms"]) simp
qed simp


lemma set_user_frame [simp]:
  "ap_mgr (set_user p u a) = ap_mgr a" "ap_config (set_user p u a) = ap_config a" "length (ap_objs (set_user p u a)) = length (ap_objs a)"
  "getid q (set_user p u a) = getid q a" "app_inv a \<Longrightarrow> app_inv (set_user p u a)"
  "q < length (ap_objs a) \<Longrightarrow> cx_queue (ap_objs (set_user p u a) ! q) = cx_queue (ap_objs a ! q)"
  "q < length (ap_objs a) \<Longrightarrow> mbox (set_user p u a) q = mbox a q"
  "q < length (ap_objs a) \<Longrightarrow> q \<noteq> p \<Longrightarrow> cx_user (ap_objs (set_user p u a) ! q) = cx_user (ap_objs a ! q)"
  by (simp_all add: set_user_def mbox_def upd_obj_nth upd_obj_keeps_id getid_def app_inv_upd_obj)

lemma fold_gate_send_posts: "posts a (fold (gate_send ser enc p) outs a)"
proof -
  have one: "posts b (gate_send ser enc p out b)" for out b
  proof (cases "gate_to_ws enc out")
    case (Cons x xs)
    then have "xs = []" by (simp add: gate_to_ws_def split: demo_out.splits option.splits)
    with Cons show ?thesis by (simp add: gate_send_def posts_write_pack split_beta)
  qed (simp add: gate_send_def posts_refl)
  show ?thesis
    by (induction outs arbitrary: a) (auto simp: posts_refl intro: posts_trans [OF one])
qed

text \<open>What the socket of a connection is given.\<close>

lemma ws_handle_write:
  assumes "cx_user (ap_objs a ! w) = Obj_ws s" "map_of (ws_conns s) c = Some con" "alive con"
    "carries m from Gm_write (ser (Pl_conn_data c data))" "deser (ser (Pl_conn_data c data)) = Inr (Pl_conn_data c data)"
  shows "ws_handle deser alive w m a = [Write_frame con data]"
  using assms carries_unpack [where ser = ser and deser = deser and pl = "Pl_conn_data c data", OF assms(4,5)] by (simp add: ws_handle_def ws_on_msg_def co_conn_write_def get_con_def)

section \<open>From end to end\<close>

text \<open>C31. \<open>write_notify\<close> of the game reaches the client through all mailboxes: the gate gets one message; its \<open>on_msg\<close> on these bytes
  appends one message to the mailbox of the web socket server that owns the connection; that server's \<open>on_msg\<close> writes one frame
  to the socket; and the frame decodes to a packet with the next sequence number of the connection and the notification, which decodes in turn.\<close>

theorem write_notify_end_to_end:
  assumes "app_inv a" "gate_named a q" "cx_user (ap_objs a ! q) = Obj_gate g" "getid p a = game_id g" "game_id g \<noteq> world_id g"
    and "map_of (gt_players g) connid = Some pl" "get_ctx (ap_mgr a) (gp_from pl) = Some w" "cx_user (ap_objs a ! w) = Obj_ws s"
    and "\<not> q_stop (cx_queue (ap_objs a ! w))" "map_of (ws_conns s) connid = Some con" "alive con"
    and "\<And>ob. dec (enc ob) = Some ob" "\<And>x. deser (ser x) = Inr x"
    and "str = codec_pack enc (pack_ntf ntf)" "data = codec_pack enc (pack_client (From_game str (gp_recv_sign pl + 1)))"
    and "length (ser (Pl_conn_data connid str)) < 2 ^ 32" "length (ser (Pl_conn_data connid data)) < 2 ^ 32"
  shows "\<exists>n a1 m1 a2 m2.
    write_notify ser enc p connid (pack_ntf ntf) a = (Inr n, a1) \<and> mbox a1 q = mbox a q @ [m1] \<and>
    gate_handle ser deser enc q m1 a1 = ([], a2) \<and> mbox a2 w = mbox a1 w @ [m2] \<and>
    ws_handle deser alive w m2 a2 = [Write_frame con data] \<and>
    codec_unpack dec data = Inr (pack_client (From_game str (gp_recv_sign pl + 1))) \<and> codec_unpack dec str = Inr (pack_ntf ntf)"
proof -
  obtain a1 m1 where a1: "write_notify ser enc p connid (pack_ntf ntf) a = (Inr (cx_session (ap_objs a ! p) + 1), a1)"
      "posts a a1" "mbox a1 q = mbox a q @ [m1]" "carries m1 (game_id g) Gm_write (ser (Pl_conn_data connid str))"
    using dispatch_gate [where ser = ser and pl = "Pl_conn_data connid str" and p = p and t = Gm_write, OF assms(1,2,16)] by (auto simp: write_notify_def assms(4,14))
  have lt: "q < length (ap_objs a)" "w < length (ap_objs a)"
    using gate_named_lt [OF assms(1,2)] app_inv_lt [OF assms(1,7)] by simp_all
  have ne: "w \<noteq> q" using assms(3,8) by auto
  let ?g = "g\<lparr>gt_players := AList.update connid (pl\<lparr>gp_recv_sign := gp_recv_sign pl + 1\<rparr>) (gt_players g)\<rparr>"
  let ?b = "set_user q (Obj_gate ?g) a1"
  let ?a2 = "write_pack ser q (gp_from pl) (gate_msg_number Gm_write) (Pl_conn_data connid data) ?b"
  have "gate_on_msg (game_id g) Gm_write (Pl_conn_data connid str) g = ([], ?g, [Out_ctx (gp_from pl) Gm_write connid (Some (From_game str (gp_recv_sign pl + 1)))])"
    using assms(5,6) by (simp add: gate_on_msg_def relay_def write_rsp_def Let_def)
  moreover have "demo_unpack deser m1 = Some (Gm_write, Pl_conn_data connid str)"
    by (rule carries_unpack [where ser = ser and deser = deser, OF a1(4) assms(13)])
  moreover have "msg_from (get_msg m1) = game_id g" "cx_user (ap_objs a1 ! q) = Obj_gate g"
    using a1(2,4) assms(3) lt by (simp_all add: carries_def posts_def)
  ultimately have gh: "gate_handle ser deser enc q m1 a1 = ([], ?a2)"
    by (simp add: gate_handle_def gate_send_def gate_to_ws_def assms(15))
  have b: "app_inv ?b" "get_ctx (ap_mgr ?b) (gp_from pl) = Some w" "\<not> q_stop (cx_queue (ap_objs ?b ! w))" "cx_user (ap_objs ?b ! w) = Obj_ws s"
    using posts_inv [OF a1(2) assms(1)] a1(2) assms(7-9) lt ne by (simp_all add: posts_def)
  obtain m2 where m2: "mbox ?a2 w = mbox ?b w @ [m2]" "carries m2 (getid q ?b) Gm_write (ser (Pl_conn_data connid data))"
    using write_pack_one [where ser = ser and p = q and t = Gm_write, OF b(1-3) assms(17)] by auto
  have "cx_user (ap_objs ?a2 ! w) = Obj_ws s" "mbox ?b w = mbox a1 w"
    using posts_write_pack [of ?b ser q "gp_from pl" "gate_msg_number Gm_write" "Pl_conn_data connid data"] b(4) lt a1(2) by (simp_all add: posts_def)
  then have "ws_handle deser alive w m2 ?a2 = [Write_frame con data]" "mbox ?a2 w = mbox a1 w @ [m2]"
    using ws_handle_write [where ser = ser and deser = deser and data = data and alive = alive and con = con, OF _ assms(10,11) m2(2) assms(13)] m2(1) by simp_all
  then show ?thesis
    using a1(1,3) gh assms(12,14,15) by (auto simp: codec_unpack_def codec_pack_def)
qed


text \<open>C32. \<open>broad_notify\<close> of the world reaches every connection: the gate's \<open>on_msg\<close> appends one message per connection to the mailbox of
  the web socket server, in the order of its table, and for each of them that is still open the server writes one frame, which decodes to a
  packet with the next sequence number of that connection and the data of the world.\<close>

theorem broad_notify_end_to_end:
  assumes "app_inv a" "gate_named a q" "cx_user (ap_objs a ! q) = Obj_gate g" "getid p a = world_id g" "distinct (map fst (gt_players g))"
    and "get_ctx (ap_mgr a) i = Some w" "cx_user (ap_objs a ! w) = Obj_ws s" "\<not> q_stop (cx_queue (ap_objs a ! w))"
    and "\<And>ob. dec (enc ob) = Some ob" "\<And>x. deser (ser x) = Inr x"
    and "str = codec_pack enc arg" "length (ser (Pl_data str)) < 2 ^ 32"
    and "\<forall>(c, pl) \<in> set (gt_players g).
      gp_from pl = i \<and> length (ser (Pl_conn_data c (codec_pack enc (pack_client (From_world str (gp_recv_sign pl + 1)))))) < 2 ^ 32"
  shows "\<exists>n a1 m1 a2 ms.
    broad_notify ser enc p arg a = (Inr n, a1) \<and> mbox a1 q = mbox a q @ [m1] \<and>
    gate_handle ser deser enc q m1 a1 = ([], a2) \<and> mbox a2 w = mbox a1 w @ ms \<and>
    list_all2 (\<lambda>(c, pl) m. \<forall>con. map_of (ws_conns s) c = Some con \<and> alive con \<longrightarrow>
        (\<exists>data. ws_handle deser alive w m a2 = [Write_frame con data] \<and>
           codec_unpack dec data = Inr (pack_client (From_world str (gp_recv_sign pl + 1))))) (gt_players g) ms"
proof -
  obtain a1 m1 where a1: "broad_notify ser enc p arg a = (Inr (cx_session (ap_objs a ! p) + 1), a1)"
      "posts a a1" "mbox a1 q = mbox a q @ [m1]" "carries m1 (world_id g) Gm_broad (ser (Pl_data str))"
    using dispatch_gate [where ser = ser and pl = "Pl_data str" and p = p and t = Gm_broad, OF assms(1,2,12)]
    by (auto simp: broad_notify_def assms(4,11))
  have lt: "q < length (ap_objs a)" "w < length (ap_objs a)"
    using gate_named_lt [OF assms(1,2)] app_inv_lt [OF assms(1,6)] by simp_all
  have ne: "w \<noteq> q" using assms(3,7) by auto
  have "\<forall>(c, pl) \<in> set (gt_players g). map_of (gt_players g) c = Some pl" using assms(5) by auto
  from relay_all_world [OF assms(5) this] obtain g' where
    g': "relay_all (world_id g) (map fst (gt_players g)) str g = (g', map (\<lambda>(c, pl). relayed str c pl) (gt_players g))" by blast
  let ?b = "set_user q (Obj_gate g') a1"
  let ?a2 = "fold (gate_send ser enc q) (map (\<lambda>(c, pl). relayed str c pl) (gt_players g)) ?b"
  have "demo_unpack deser m1 = Some (Gm_broad, Pl_data str)"
    by (rule carries_unpack [where ser = ser and deser = deser, OF a1(4) assms(10)])
  moreover have "msg_from (get_msg m1) = world_id g" "cx_user (ap_objs a1 ! q) = Obj_gate g"
    using a1(2,4) assms(3) lt by (simp_all add: carries_def posts_def)
  ultimately have gh: "gate_handle ser deser enc q m1 a1 = ([], ?a2)"
    by (simp add: gate_handle_def gate_on_msg_def g')
  have b: "app_inv ?b" "q < length (ap_objs ?b)" "get_ctx (ap_mgr ?b) i = Some w" "\<not> q_stop (cx_queue (ap_objs ?b ! w))"
      "cx_user (ap_objs ?b ! w) = Obj_ws s"
    using posts_inv [OF a1(2) assms(1)] a1(2) assms(6-8) lt ne by (simp_all add: posts_def)
  obtain ms where ms: "mbox ?a2 w = mbox ?b w @ ms"
      "list_all2 (\<lambda>(c, pl) m. carries m (getid q ?b) Gm_write
         (ser (Pl_conn_data c (codec_pack enc (pack_client (From_world str (gp_recv_sign pl + 1))))))) (gt_players g) ms"
    using relayed_delivered [OF b(1-4) assms(13)] by blast
  have ws: "cx_user (ap_objs ?a2 ! w) = Obj_ws s" "mbox ?b w = mbox a1 w"
    using fold_gate_send_posts [of ?b ser enc q "map (\<lambda>(c, pl). relayed str c pl) (gt_players g)"] b(5) lt a1(2) by (simp_all add: posts_def)
  have "list_all2 (\<lambda>(c, pl) m. \<forall>con. map_of (ws_conns s) c = Some con \<and> alive con \<longrightarrow>
        (\<exists>data. ws_handle deser alive w m ?a2 = [Write_frame con data] \<and>
           codec_unpack dec data = Inr (pack_client (From_world str (gp_recv_sign pl + 1))))) (gt_players g) ms"
    using ws_handle_write [where ser = ser and deser = deser, OF ws(1)] assms(9,10)
    by (intro list_all2_mono [OF ms(2)]) (auto simp: codec_unpack_def codec_pack_def)
  with a1(1,3) gh ms(1) ws(2) show ?thesis by auto
qed


text \<open>C30. The data of a client reaches the gate: for a web socket connection from its first frame to its last one, the mailbox of the gate gets
  the start of the connection, the data frames in order up to the frame that ends it, and its end, as messages of the web socket server that
  decode to exactly this; afterwards the server has forgotten the connection, and no other one was touched.\<close>

theorem ws_session_reaches_gate:
  assumes "app_inv a" "gate_named a q" "p < length (ap_objs a)" "r = Inr connid" "connid \<noteq> 0" "co_ws_handle r con frames s = (s', outs)"
    and "\<And>x. deser (ser x) = Inr x" "\<forall>out \<in> set outs. out_short ser out"
  shows "ws_conns s' = (if \<exists>f \<in> set frames. frame_ends f then AList.delete connid (ws_conns s) else AList.update connid con (ws_conns s)) \<and>
    (\<exists>ms. mbox (fold (ws_publish ser p) outs a) q = mbox a q @ ms \<and>
    list_all2 (out_carried deser (getid p a))
      ([pub_conn_start connid] @ map (pub_conn_read connid) (concat (map frame_data (takeWhile (\<lambda>f. \<not> frame_ends f) frames))) @
       (if \<exists>f \<in> set frames. frame_ends f then [pub_conn_stop connid] else [])) ms)"
proof -
  have "outs = [pub_conn_start connid] @ map (pub_conn_read connid) (concat (map frame_data (takeWhile (\<lambda>f. \<not> frame_ends f) frames))) @
       (if \<exists>f \<in> set frames. frame_ends f then [pub_conn_stop connid] else [])"
    and "ws_conns s' = (if \<exists>f \<in> set frames. frame_ends f then AList.delete connid (ws_conns s) else AList.update connid con (ws_conns s))"
    using assms(6) unfolding assms(4) co_ws_handle_eq [OF assms(5)] by auto
  with published [OF assms(1-3,7,8)] show ?thesis by simp
qed

section \<open>A running demo\<close>

text \<open>A code for any countable type with short words for a few values.\<close>

definition enc_tab :: "'a :: countable list \<Rightarrow> 'a \<Rightarrow> string" where
  "enc_tab xs x =
     (if x \<in> set xs then CHR ''#'' # replicate (length (takeWhile (\<lambda>y. y \<noteq> x) xs)) (CHR ''x'') else CHR ''x'' # replicate (to_nat x) (CHR ''x''))"

definition dec_tab :: "'a :: countable list \<Rightarrow> string \<Rightarrow> 'a option" where
  "dec_tab xs s = (case s of [] \<Rightarrow> None | c # cs \<Rightarrow> Some (if c = CHR ''#'' then xs ! length cs else from_nat (length cs)))"

lemma takeWhile_nth: "x \<in> set xs \<Longrightarrow> xs ! length (takeWhile (\<lambda>y. y \<noteq> x) xs) = x"
  by (induction xs) auto

lemma dec_enc_tab: "dec_tab xs (enc_tab xs x) = Some x"
  by (simp add: dec_tab_def enc_tab_def takeWhile_nth)

lemma takeWhile_lt: "x \<in> set xs \<Longrightarrow> length (takeWhile (\<lambda>y. y \<noteq> x) xs) < length xs"
  by (induction xs) auto

lemma enc_tab_length: "x \<in> set xs \<Longrightarrow> length (enc_tab xs x) \<le> length xs"
  using takeWhile_lt [of x xs] by (simp add: enc_tab_def)

instance payload :: countable
  by countable_datatype

text \<open>One node with gate, web socket server, world and game, and one connection.\<close>

definition notify_gate :: gate_t where
  "notify_gate = on_conn_start 0x01000002 7 \<lparr>conn_alloc = 7, gt_players = [], world_id = 0x01000003, game_id = 0x01000004\<rparr>"

definition notify_app :: demo_app where
  "notify_app =
     (app_init (two_nodes 1))
       \<lparr>ap_mgr := \<lparr>allocid = 4, ctxs = [(0x01000001, 0), (0x01000002, 1), (0x01000003, 2), (0x01000004, 3)],
          names = [\<lparr>nid_name = ''game'', nid_id = 0x01000004\<rparr>, \<lparr>nid_name = ''gate'', nid_id = 0x01000001\<rparr>,
                   \<lparr>nid_name = ''world'', nid_id = 0x01000003\<rparr>, \<lparr>nid_name = ''ws_server'', nid_id = 0x01000002\<rparr>]\<rparr>,
        ap_node := \<lparr>self_nodeid = 1, nd_server = Some (1, 8888), nodes = [\<lparr>nd_info = n1_info, nd_queue = queue_init, nd_client = None\<rparr>]\<rparr>,
        ap_objs := [(ctx_new (Obj_gate notify_gate))\<lparr>cx_id := 0x01000001\<rparr>,
          (ctx_new (Obj_ws \<lparr>ws_server = True, ws_conns = [(7, 1)]\<rparr>))\<lparr>cx_id := 0x01000002\<rparr>,
          (ctx_new (Obj_world world_new))\<lparr>cx_id := 0x01000003\<rparr>, (ctx_new (Obj_game game_obj_new))\<lparr>cx_id := 0x01000004\<rparr>]\<rparr>"

lemma notify_app_handles:
  "handle_node (cqy_handle 0x01000001) = 1" "handle_node (cqy_handle 0x01000002) = 1"
  "handle_node (cqy_handle 0x01000003) = 1" "handle_node (cqy_handle 0x01000004) = 1" "handle_node (cqy_handle 0x01000000) = 1"
  "handle_ctxid (cqy_handle 0x01000001) = 1" "handle_ctxid (cqy_handle 0x01000002) = 2"
  "handle_ctxid (cqy_handle 0x01000003) = 3" "handle_ctxid (cqy_handle 0x01000004) = 4"
  by code_simp+

lemma notify_app_facts:
  "get_handle notify_app ''.gate'' = Inr (Some (cqy_handle 0x01000000, ''gate''))" "cfg_nodeid (ap_config notify_app) = 1"
  "find_name (ap_mgr notify_app) ''gate'' = 0x01000001" "get_ctx (ap_mgr notify_app) 0x01000001 = Some 0" "get_ctx (ap_mgr notify_app) 0x01000002 = Some 1"
  "\<not> q_stop (cx_queue (ap_objs notify_app ! 0))" "\<not> q_stop (cx_queue (ap_objs notify_app ! 1))"
  "getid 2 notify_app = 0x01000003" "getid 3 notify_app = 0x01000004"
  by code_simp+

lemma notify_app_users:
  "cx_user (ap_objs notify_app ! 0) = Obj_gate notify_gate" "cx_user (ap_objs notify_app ! 1) = Obj_ws \<lparr>ws_server = True, ws_conns = [(7, 1)]\<rparr>"
  "game_id notify_gate = 0x01000004" "world_id notify_gate = 0x01000003"
  "gt_players notify_gate = [(7, \<lparr>gp_login = False, gp_from = 0x01000002, gp_connid = 7, gp_send_sign = 0, gp_recv_sign = 0\<rparr>)]"
  by (simp_all add: notify_app_def notify_gate_def on_conn_start_def ctx_new_def)

lemma notify_app_inv: "app_inv notify_app"
  by (auto simp: app_inv_def notify_app_def app_init_def two_nodes_def get_ctx_def mgr_inv_def notify_app_handles ctx_new_def split: if_splits)

lemma notify_gate_named: "gate_named notify_app 0"
  using notify_app_facts notify_app_handles by (simp add: gate_named_def)


text \<open>Codes in which the values of the two runs have short words.\<close>

definition ntf_enc :: "mp_obj \<Rightarrow> string" where
  "ntf_enc = enc_tab [pack_ntf MsgPlotEnd, pack_client (From_game ''#'' 1), pack_client (From_world ''#'' 1)]"

definition ntf_table :: "payload list" where
  "ntf_table =
     [Pl_data ''#'', Pl_conn_data 7 ''#'', Pl_conn_data 7 (codec_pack ntf_enc (pack_client (From_game ''#'' 1))),
      Pl_conn_data 7 (codec_pack ntf_enc (pack_client (From_world ''#'' 1)))]"

definition ntf_deser :: "string \<Rightarrow> string + payload" where
  "ntf_deser s = (case dec_tab ntf_table s of None \<Rightarrow> Inl ''struct_pack'' | Some pl \<Rightarrow> Inr pl)"

lemma ntf_codes:
  "dec_tab [pack_ntf MsgPlotEnd, pack_client (From_game ''#'' 1), pack_client (From_world ''#'' 1)] (ntf_enc ob) = Some ob"
  "ntf_deser (enc_tab ntf_table x) = Inr x" "codec_pack ntf_enc (pack_ntf MsgPlotEnd) = ''#''"
  by (simp_all add: ntf_enc_def ntf_deser_def dec_enc_tab codec_pack_def) (simp add: enc_tab_def)

lemma ntf_short: "x \<in> set ntf_table \<Longrightarrow> length (enc_tab ntf_table x) < 2 ^ 32"
  using enc_tab_length [of x ntf_table] by (simp add: ntf_table_def)

definition notify_player :: gate_player where
  "notify_player = \<lparr>gp_login = False, gp_from = 0x01000002, gp_connid = 7, gp_send_sign = 0, gp_recv_sign = 0\<rparr>"

lemma notify_links:
  "getid 3 notify_app = game_id notify_gate" "getid 2 notify_app = world_id notify_gate" "game_id notify_gate \<noteq> world_id notify_gate"
  "map_of (gt_players notify_gate) 7 = Some notify_player" "get_ctx (ap_mgr notify_app) (gp_from notify_player) = Some 1"
  "map_of (ws_conns \<lparr>ws_server = True, ws_conns = [(7, 1)]\<rparr>) 7 = Some (1 :: nat)" "gp_recv_sign notify_player = 0"
  using notify_app_facts by (simp_all add: notify_app_users notify_player_def)

lemma ntf_lengths:
  "length (enc_tab ntf_table (Pl_data ''#'')) < 2 ^ 32" "length (enc_tab ntf_table (Pl_conn_data 7 ''#'')) < 2 ^ 32"
  "length (enc_tab ntf_table (Pl_conn_data 7 (codec_pack ntf_enc (pack_client (From_game ''#'' (gp_recv_sign notify_player + 1)))))) < 2 ^ 32"
  "length (enc_tab ntf_table (Pl_conn_data 7 (codec_pack ntf_enc (pack_client (From_world ''#'' (gp_recv_sign notify_player + 1)))))) < 2 ^ 32"
  unfolding notify_links(7) add_0_left
  by (rule ntf_short, simp add: ntf_table_def del: pack_client.simps)+

theorem write_notify_end_to_end_witness:
  "\<exists>n a1 m1 a2 m2 data.
    write_notify (enc_tab ntf_table) ntf_enc 3 7 (pack_ntf MsgPlotEnd) notify_app = (Inr n, a1) \<and> mbox a1 0 = mbox notify_app 0 @ [m1] \<and>
    gate_handle (enc_tab ntf_table) ntf_deser ntf_enc 0 m1 a1 = ([], a2) \<and> mbox a2 1 = mbox a1 1 @ [m2] \<and>
    ws_handle ntf_deser (\<lambda>_. True) 1 m2 a2 = [Write_frame 1 data]"
  using write_notify_end_to_end [where ser = "enc_tab ntf_table" and deser = ntf_deser and enc = ntf_enc and alive = "\<lambda>_. True" and ntf = MsgPlotEnd,
      OF notify_app_inv notify_gate_named notify_app_users(1) notify_links(1,3,4,5) notify_app_users(2) notify_app_facts(7) notify_links(6)
        TrueI ntf_codes(1,2) ntf_codes(3) [symmetric] refl ntf_lengths(2,3)]
  by blast

lemma notify_players:
  "\<forall>(c, pl) \<in> set (gt_players notify_gate). gp_from pl = 0x01000002 \<and>
     length (enc_tab ntf_table (Pl_conn_data c (codec_pack ntf_enc (pack_client (From_world ''#'' (gp_recv_sign pl + 1)))))) < 2 ^ 32"
  "gt_players notify_gate = [(7, notify_player)]" "distinct (map fst (gt_players notify_gate))"
  using ntf_lengths(4) by (simp_all add: notify_app_users(5) notify_player_def del: pack_client.simps)

theorem broad_notify_end_to_end_witness:
  "\<exists>n a1 m1 a2 m data.
    broad_notify (enc_tab ntf_table) ntf_enc 2 (pack_ntf MsgPlotEnd) notify_app = (Inr n, a1) \<and> mbox a1 0 = mbox notify_app 0 @ [m1] \<and>
    gate_handle (enc_tab ntf_table) ntf_deser ntf_enc 0 m1 a1 = ([], a2) \<and> mbox a2 1 = mbox a1 1 @ [m] \<and>
    ws_handle ntf_deser (\<lambda>_. True) 1 m a2 = [Write_frame 1 data]"
proof -
  obtain n a1 m1 a2 ms where w:
    "broad_notify (enc_tab ntf_table) ntf_enc 2 (pack_ntf MsgPlotEnd) notify_app = (Inr n, a1)" "mbox a1 0 = mbox notify_app 0 @ [m1]"
    "gate_handle (enc_tab ntf_table) ntf_deser ntf_enc 0 m1 a1 = ([], a2)" "mbox a2 1 = mbox a1 1 @ ms"
    "list_all2 (\<lambda>(c, pl) m. \<forall>con. map_of (ws_conns \<lparr>ws_server = True, ws_conns = [(7, 1 :: nat)]\<rparr>) c = Some con \<and> True \<longrightarrow>
      (\<exists>data. ws_handle ntf_deser (\<lambda>_. True) 1 m a2 = [Write_frame con data] \<and>
        codec_unpack (dec_tab [pack_ntf MsgPlotEnd, pack_client (From_game ''#'' 1), pack_client (From_world ''#'' 1)]) data =
          Inr (pack_client (From_world ''#'' (gp_recv_sign pl + 1))))) (gt_players notify_gate) ms"
    using broad_notify_end_to_end [where ser = "enc_tab ntf_table" and deser = ntf_deser and enc = ntf_enc and alive = "\<lambda>_. True",
      OF notify_app_inv notify_gate_named notify_app_users(1) notify_links(2) notify_players(3) notify_app_facts(5) notify_app_users(2)
        notify_app_facts(7) ntf_codes(1,2) ntf_codes(3) [symmetric] ntf_lengths(1) notify_players(1)]
    by blast
  obtain m where "ms = [m]" using w(5) unfolding notify_players(2) by (auto simp: list_all2_Cons1)
  moreover have "\<exists>data. ws_handle ntf_deser (\<lambda>_. True) 1 m a2 = [Write_frame 1 data]"
    using w(5) unfolding notify_players(2) \<open>ms = [m]\<close> by auto
  ultimately show ?thesis using w(1-4) by blast
qed


definition session_table :: "payload list" where
  "session_table = [Pl_conn 8, Pl_conn_data 8 ''a'']"

definition session_deser :: "string \<Rightarrow> string + payload" where
  "session_deser s = (case dec_tab session_table s of None \<Rightarrow> Inl ''struct_pack'' | Some pl \<Rightarrow> Inr pl)"

theorem ws_session_reaches_gate_witness:
  "\<exists>ms. mbox (fold (ws_publish (enc_tab session_table) 1) [pub_conn_start 8, pub_conn_read 8 ''a'', pub_conn_stop 8] notify_app) 0 = mbox notify_app 0 @ ms \<and>
     list_all2 (out_carried session_deser (getid 1 notify_app)) [pub_conn_start 8, pub_conn_read 8 ''a'', pub_conn_stop 8] ms"
proof -
  let ?frames = "[Frame_text ''a'', Frame_close, Frame_text ''b'']" and ?s = "\<lparr>ws_server = True, ws_conns = [(7, 1)]\<rparr>"
  let ?outs = "[pub_conn_start 8, pub_conn_read 8 ''a'', pub_conn_stop 8]"
  have eq: "co_ws_handle (Inr 8) 2 ?frames ?s = (?s, ?outs)"
    by (simp add: co_ws_handle_eq frame_ends_def)
  have len: "1 < length (ap_objs notify_app)" by (simp add: notify_app_def)
  have codes: "session_deser (enc_tab session_table x) = Inr x" for x by (simp add: session_deser_def dec_enc_tab)
  have "x \<in> set session_table \<Longrightarrow> length (enc_tab session_table x) < 2 ^ 32" for x
    using enc_tab_length [of x session_table] by (simp add: session_table_def)
  then have short: "\<forall>out \<in> set ?outs. out_short (enc_tab session_table) out"
    by (simp add: pub_conn_start_def pub_conn_read_def pub_conn_stop_def session_table_def)
  show ?thesis
    using ws_session_reaches_gate [where ser = "enc_tab session_table" and deser = session_deser,
        OF notify_app_inv notify_gate_named len refl _ eq codes short]
    by (simp add: frame_ends_def)
qed

end
