(* ===== verification/Game_Session.thy ===== *)
theory Game_Session
  imports Game_Notify
begin

text \<open>
  A client of the demo from its login to its end, through the contexts of a node: the coroutines of the gate
  (\<open>on_conn_start\<close>, \<open>on_conn_msg\<close> with \<open>co_login\<close>, \<open>on_conn_stop\<close> in \<open>example/game_demo.cpp\<close>) run in the context of the gate, call the functions
  that world and game have registered (\<open>player_login\<close>, \<open>add_player\<close>, \<open>on_client\<close>) by name, and what any of them
  sends goes into mailboxes. A coroutine is run without another one in between; where one can come in, \<open>Game_Login\<close> has the
  pieces. The serializers are struct\_pack and msgpack, collected in one record.
\<close>

section \<open>Arguments and results of calls\<close>

datatype demo_arg = Arg_login u64 MsgLogin | Arg_client u64 string | Arg_start u32 u64 | Arg_conn u64

datatype demo_ret = Ret_connid u64 | Ret_login login_error string

text \<open>struct\_pack on messages, arguments and results, msgpack on packets, and \<open>typeid(MsgLoginResponce).name()\<close>.\<close>

record demo_lib =
  lib_ser :: "payload \<Rightarrow> string"
  lib_deser :: "string \<Rightarrow> string + payload"
  lib_aser :: "demo_arg \<Rightarrow> string"
  lib_adeser :: "string \<Rightarrow> demo_arg option"
  lib_rser :: "demo_ret \<Rightarrow> string"
  lib_rdeser :: "string \<Rightarrow> string + demo_ret"
  lib_enc :: "mp_obj \<Rightarrow> string"
  lib_dec :: "string \<Rightarrow> mp_obj option"
  lib_tyname :: string

text \<open>What the code relies on: each reads back what it wrote.\<close>

definition lib_ok :: "demo_lib \<Rightarrow> bool" where
  "lib_ok L \<longleftrightarrow>
     (\<forall>x. lib_deser L (lib_ser L x) = Inr x) \<and> (\<forall>x. lib_adeser L (lib_aser L x) = Some x) \<and>
     (\<forall>x. lib_rdeser L (lib_rser L x) = Inr x) \<and> (\<forall>x. lib_dec L (lib_enc L x) = Some x)"

text \<open>What \<open>assert\<close>, \<open>component_id\<close> and the clock are for the scenes of the game.\<close>

record demo_env =
  env_ndebug :: bool
  env_cid :: "comp_type \<Rightarrow> nat"
  env_now :: nat

text \<open>Buffers carry the types of what was written: a function sees arguments of its own types only.\<close>

definition args_for :: "demo_lib \<Rightarrow> demo_func \<Rightarrow> string \<Rightarrow> demo_arg option" where
  "args_for L f data =
     (case (f, lib_adeser L data) of
        (Rpc_player_login, Some (Arg_login c m)) \<Rightarrow> Some (Arg_login c m)
      | (Rpc_add_player, Some (Arg_login c m)) \<Rightarrow> Some (Arg_login c m)
      | (Rpc_on_client, Some (Arg_client c d)) \<Rightarrow> Some (Arg_client c d)
      | (Rpc_on_msg, Some (Arg_client c d)) \<Rightarrow> Some (Arg_client c d)
      | (Rpc_on_conn_start, Some (Arg_start i c)) \<Rightarrow> Some (Arg_start i c)
      | (Rpc_on_conn_stop, Some (Arg_conn c)) \<Rightarrow> Some (Arg_conn c)
      | _ \<Rightarrow> None)"

section \<open>World and game\<close>

text \<open>What \<open>rpc_player_login\<close> sends. Both calls of \<open>dispatch_pack\<close> go by name, which does not throw (\<open>dispatch_name_returns\<close> below), so
  that the handler for exceptions in \<open>rpc_player_login\<close> is never reached from here.\<close>

definition world_send :: "demo_lib \<Rightarrow> nat \<Rightarrow> demo_out \<Rightarrow> demo_app \<Rightarrow> demo_app" where
  "world_send L p out a =
     (case out of
        Out_gate_close c \<Rightarrow> snd (dispatch_pack_name (lib_ser L) p ''.gate'' (gate_msg_number Gm_close) (Pl_conn c) a)
      | Out_gate_online n ns \<Rightarrow> snd (broad_notify (lib_ser L) (lib_enc L) p (pack_online \<lparr>u16count = n, vecPlayerNickName = ns\<rparr>) a)
      | Out_ctx _ _ _ _ \<Rightarrow> a)"

definition world_player_login :: "demo_lib \<Rightarrow> nat \<Rightarrow> u64 \<Rightarrow> MsgLogin \<Rightarrow> demo_app \<Rightarrow> demo_ret result \<times> demo_app" where
  "world_player_login L p connid login a =
     (case cx_user (ap_objs a ! p) of
        Obj_world w \<Rightarrow>
          (case rpc_player_login connid (lg_name login) w of
             (err, w1, outs) \<Rightarrow> (Inr (Ret_login err []), fold (world_send L p) outs (set_user p (Obj_world w1) a)))
      | _ \<Rightarrow> (Inl Bad_Access, a))"

definition game_add_player :: "nat \<Rightarrow> u64 \<Rightarrow> MsgLogin \<Rightarrow> demo_app \<Rightarrow> unit result \<times> demo_app" where
  "game_add_player p connid login a =
     (case cx_user (ap_objs a ! p) of
        Obj_game G \<Rightarrow> (Inr (), set_user p (Obj_game (G\<lparr>sg_game := rpc_add_player connid (lg_name login) (sg_game G)\<rparr>)) a)
      | _ \<Rightarrow> (Inl Bad_Access, a))"

definition game_on_client :: "demo_lib \<Rightarrow> demo_env \<Rightarrow> nat \<Rightarrow> u64 \<Rightarrow> string \<Rightarrow> demo_app \<Rightarrow> unit result \<times> demo_app" where
  "game_on_client L E p connid data a =
     (case cx_user (ap_objs a ! p) of
        Obj_game G \<Rightarrow>
          (case rpc_on_client (lib_dec L) (env_ndebug E) (env_cid E) (env_now E) connid data G of
             Inl e \<Rightarrow> (Inl e, a)
           | Inr (G', outs) \<Rightarrow>
               (Inr (), fold (\<lambda>(c, ntf) b. snd (write_notify (lib_ser L) (lib_enc L) p c (pack_ntf ntf) b)) outs (set_user p (Obj_game G') a)))
      | _ \<Rightarrow> (Inl Bad_Access, a))"

text \<open>\<open>on_msg\<close> of world and game.\<close>

definition world_handle :: "demo_lib \<Rightarrow> nat \<Rightarrow> string \<Rightarrow> demo_app \<Rightarrow> demo_app" where
  "world_handle L p m a =
     (case (cx_user (ap_objs a ! p), demo_unpack (lib_deser L) m) of
        (Obj_world w, Some (t, pl)) \<Rightarrow> set_user p (Obj_world (world_on_msg t pl w)) a
      | _ \<Rightarrow> a)"

definition game_handle :: "demo_lib \<Rightarrow> nat \<Rightarrow> string \<Rightarrow> demo_app \<Rightarrow> demo_app" where
  "game_handle L p m a =
     (case (cx_user (ap_objs a ! p), demo_unpack (lib_deser L) m) of
        (Obj_game G, Some (t, pl)) \<Rightarrow> set_user p (Obj_game (G\<lparr>sg_game := game_on_msg t pl (sg_game G)\<rparr>)) a
      | _ \<Rightarrow> a)"

section \<open>The coroutines of the gate\<close>

text \<open>A piece of a coroutine of the gate between two waits: it changes the state of the gate and sends.\<close>

definition gate_seg ::
  "demo_lib \<Rightarrow> nat \<Rightarrow> (gate_t \<Rightarrow> 'r \<times> gate_t \<times> demo_out list) \<Rightarrow> demo_app \<Rightarrow> 'r result \<times> demo_app" where
  "gate_seg L p f a =
     (case cx_user (ap_objs a ! p) of
        Obj_gate g \<Rightarrow>
          (case f g of (r, g1, outs) \<Rightarrow> (Inr r, fold (gate_send (lib_ser L) (lib_enc L) p) outs (set_user p (Obj_gate g1) a)))
      | _ \<Rightarrow> (Inl Bad_Access, a))"

text \<open>The \<open>catch\<close> of \<open>on_conn_msg\<close>.\<close>

definition conn_guard :: "demo_lib \<Rightarrow> nat \<Rightarrow> u64 \<Rightarrow> 'r result \<times> demo_app \<Rightarrow> unit result \<times> demo_app" where
  "conn_guard L p connid ra =
     (case ra of
        (Inr _, a) \<Rightarrow> (Inr (), a)
      | (Inl e, a) \<Rightarrow> if std_exception e then gate_seg L p (\<lambda>g. ((), g, close_con connid g)) a else (Inl e, a))"

text \<open>\<open>codec.head()\<close> and \<open>codec.as<MsgLogin>()\<close> of a packet.\<close>

definition packet_head :: "demo_lib \<Rightarrow> string \<Rightarrow> (bool \<times> u32) result" where
  "packet_head L data =
     bind_result (codec_unpack (lib_dec L) data) (\<lambda>ob. bind_result (codec_head ob) (\<lambda>h. Inr (hd_id h = msg_id Id_Login, hd_sn h)))"

definition packet_login :: "demo_lib \<Rightarrow> string \<Rightarrow> MsgLogin result" where
  "packet_login L data = bind_result (codec_unpack (lib_dec L) data) as_login"

definition login_version :: "MsgLogin result \<Rightarrow> (string \<times> u32) result" where
  "login_version r = bind_result r (\<lambda>m. Inr (lg_name m, lg_uVer m))"

text \<open>\<open>r.as<MsgLoginResponce>()\<close> of the answer of the world.\<close>

definition login_answer :: "demo_lib \<Rightarrow> rpc_result_t result \<Rightarrow> (login_error \<times> string) result" where
  "login_answer L r =
     bind_result r (rpc_as (lib_tyname L)
       (\<lambda>d. case lib_rdeser L d of Inl e \<Rightarrow> Inl e | Inr (Ret_login err tip) \<Rightarrow> Inr (err, tip) | Inr _ \<Rightarrow> Inl ''invalid buffer''))"

text \<open>\<open>exec\<close> runs a registered function of this node, \<open>send\<close> is a call to another node.\<close>

type_synonym demo_exec_t = "(demo_obj, demo_func) rpc_exec"
type_synonym demo_send_t = "nat \<Rightarrow> string \<Rightarrow> string \<Rightarrow> string \<Rightarrow> rpc_result_t remote"

text \<open>\<open>co_login\<close> from its call of \<open>player_login\<close> on.\<close>

definition gate_login_rest ::
  "demo_exec_t \<Rightarrow> demo_send_t \<Rightarrow> demo_lib \<Rightarrow> nat \<Rightarrow> u64 \<Rightarrow> MsgLogin \<Rightarrow> demo_app \<Rightarrow> unit result \<times> demo_app" where
  "gate_login_rest exec send L p connid login a =
     (case ctx_call_name_nolock exec send (lib_aser L) ''.world'' ''player_login'' (Some (Arg_login connid login)) a of
        (r, a1) \<Rightarrow>
          (case gate_seg L p (co_login_end connid (login_answer L r)) a1 of
             (Inl e, a2) \<Rightarrow> (Inl e, a2)
           | (Inr (Inl e), a2) \<Rightarrow> (Inl e, a2)
           | (Inr (Inr False), a2) \<Rightarrow> (Inr (), a2)
           | (Inr (Inr True), a2) \<Rightarrow>
               (case ctx_call_name_nolock exec send (lib_aser L) ''.game'' ''add_player'' (Some (Arg_login connid login)) a2 of
                  (Inl e, a3) \<Rightarrow> (Inl e, a3)
                | (Inr _, a3) \<Rightarrow> (Inr (), a3))))"

definition gate_conn_msg ::
  "demo_exec_t \<Rightarrow> demo_send_t \<Rightarrow> demo_lib \<Rightarrow> nat \<Rightarrow> u64 \<Rightarrow> string \<Rightarrow> demo_app \<Rightarrow> unit result \<times> demo_app" where
  "gate_conn_msg exec send L p connid data a =
     (case gate_seg L p (on_conn_msg connid (packet_head L data) (login_version (packet_login L data))) a of
        (Inl e, a1) \<Rightarrow> (Inl e, a1)
      | (Inr Next_done, a1) \<Rightarrow> (Inr (), a1)
      | (Inr (Next_broken e), a1) \<Rightarrow> (Inl e, a1)
      | (Inr (Next_game c), a1) \<Rightarrow>
          conn_guard L p connid (ctx_call_name_nolock exec send (lib_aser L) ''.game'' ''on_client'' (Some (Arg_client c data)) a1)
      | (Inr (Next_world c name), a1) \<Rightarrow>
          conn_guard L p connid
            (case packet_login L data of Inl e \<Rightarrow> (Inl e, a1) | Inr login \<Rightarrow> gate_login_rest exec send L p c login a1))"

text \<open>A task that \<open>on_msg\<close> started.\<close>

definition gate_task_exec ::
  "demo_exec_t \<Rightarrow> demo_send_t \<Rightarrow> demo_lib \<Rightarrow> nat \<Rightarrow> gate_task \<Rightarrow> demo_app \<Rightarrow> unit result \<times> demo_app" where
  "gate_task_exec exec send L p task a =
     (case task of
        Task_msg (Pl_conn_data connid data) \<Rightarrow> gate_conn_msg exec send L p connid data a
      | _ \<Rightarrow>
          (case gate_seg L p (gate_task_run (packet_head L) (\<lambda>d. login_version (packet_login L d)) task) a of
             (Inl e, a1) \<Rightarrow> (Inl e, a1)
           | (Inr _, a1) \<Rightarrow> (Inr (), a1)))"

section \<open>A new connection\<close>

text \<open>\<open>r.as<uint64_t>()\<close> of the answer of the gate; \<open>co_ws_handle\<close> up to its read loop, in the context \<open>p\<close> of the web socket server, for the connection \<open>con\<close>.\<close>

definition connid_answer :: "demo_lib \<Rightarrow> rpc_result_t result \<Rightarrow> u64 result" where
  "connid_answer L r =
     bind_result r (rpc_as ''m''
       (\<lambda>d. case lib_rdeser L d of Inl e \<Rightarrow> Inl e | Inr (Ret_connid c) \<Rightarrow> Inr c | Inr _ \<Rightarrow> Inl ''invalid buffer''))"

definition ws_connect :: "demo_exec_t \<Rightarrow> demo_send_t \<Rightarrow> demo_lib \<Rightarrow> nat \<Rightarrow> nat \<Rightarrow> demo_app \<Rightarrow> u64 \<times> demo_app" where
  "ws_connect exec send L p con a =
     (case ctx_call_name_nolock exec send (lib_aser L) ''.gate'' ''get_allocid'' None a of
        (r, a1) \<Rightarrow>
          (case cx_user (ap_objs a1 ! p) of
             Obj_ws s \<Rightarrow>
               (case ws_handle_begin (connid_answer L r) con s of
                  (s1, outs) \<Rightarrow> (co_get_connid (connid_answer L r), fold (ws_publish (lib_ser L) p) outs (set_user p (Obj_ws s1) a1)))
           | _ \<Rightarrow> (0, a1)))"

section \<open>Registered functions\<close>

definition gate_get_allocid :: "demo_lib \<Rightarrow> nat \<Rightarrow> demo_app \<Rightarrow> demo_ret result \<times> demo_app" where
  "gate_get_allocid L p a =
     (case gate_seg L p (\<lambda>g. case rpc_get_allocid g of (c, g1) \<Rightarrow> (c, g1, [])) a of
        (Inl e, a1) \<Rightarrow> (Inl e, a1)
      | (Inr c, a1) \<Rightarrow> (Inr (Ret_connid c), a1))"

text \<open>The functions behind \<open>register_rpc_func\<close>; arguments of another shape do not get past \<open>args_for\<close>. \<open>on_msg\<close> of the gate makes calls itself: \<open>n\<close> bounds their
  depth, and the functions it calls make none.\<close>

fun demo_body ::
  "demo_send_t \<Rightarrow> demo_lib \<Rightarrow> demo_env \<Rightarrow> nat \<Rightarrow> demo_func \<Rightarrow> nat \<Rightarrow> (demo_arg, demo_ret, demo_app) rpc_func" where
  "demo_body send L E n f p =
     (case f of
        Rpc_get_allocid \<Rightarrow> Ret_void (gate_get_allocid L p)
      | Rpc_on_conn_start \<Rightarrow>
          Void_param (\<lambda>arg. case arg of Arg_start i c \<Rightarrow> gate_seg L p (\<lambda>g. ((), on_conn_start i c g, [])) | _ \<Rightarrow> Pair (Inl Bad_Access))
      | Rpc_on_conn_stop \<Rightarrow>
          Void_param (\<lambda>arg. case arg of Arg_conn c \<Rightarrow> gate_seg L p (\<lambda>g. ((), on_conn_stop c g)) | _ \<Rightarrow> Pair (Inl Bad_Access))
      | Rpc_on_msg \<Rightarrow>
          Void_param (\<lambda>arg. case (arg, n) of
              (Arg_client c d, Suc m) \<Rightarrow>
                gate_conn_msg (\<lambda>muli f q data b. rpc_call_func (args_for L f) (lib_rser L) (demo_body send L E m f q) data b) send L p c d
            | _ \<Rightarrow> Pair (Inl Bad_Access))
      | Rpc_player_login \<Rightarrow>
          Ret_param (\<lambda>arg. case arg of Arg_login c m \<Rightarrow> world_player_login L p c m | _ \<Rightarrow> Pair (Inl Bad_Access))
      | Rpc_add_player \<Rightarrow>
          Void_param (\<lambda>arg. case arg of Arg_login c m \<Rightarrow> game_add_player p c m | _ \<Rightarrow> Pair (Inl Bad_Access))
      | Rpc_on_client \<Rightarrow>
          Void_param (\<lambda>arg. case arg of Arg_client c d \<Rightarrow> game_on_client L E p c d | _ \<Rightarrow> Pair (Inl Bad_Access)))"

definition demo_exec :: "demo_send_t \<Rightarrow> demo_lib \<Rightarrow> demo_env \<Rightarrow> nat \<Rightarrow> demo_exec_t" where
  "demo_exec send L E n muli f p data a = router_exec (demo_body send L E n) (args_for L f) (lib_rser L) muli f p data a"


declare demo_body.simps [simp del]

section \<open>Frames\<close>

text \<open>Sending to the gate by name does not throw, and its name is short enough for the assertion.\<close>

lemma dispatch_name_returns: "\<exists>n. fst (dispatch_name p ''.gate'' t data a) = Inr n"
  by (simp add: dispatch_name_def get_handle_eq split_beta Let_def split: option.split)

text \<open>What a call or a coroutine leaves alone: it appends to mailboxes and changes the states of the contexts in \<open>S\<close>.\<close>

definition evolves :: "nat set \<Rightarrow> demo_app \<Rightarrow> demo_app \<Rightarrow> bool" where
  "evolves S a a' \<longleftrightarrow>
     ap_mgr a' = ap_mgr a \<and> ap_config a' = ap_config a \<and> length (ap_objs a') = length (ap_objs a) \<and> get_handle a' = get_handle a \<and>
     (\<forall>q < length (ap_objs a).
        cx_router (ap_objs a' ! q) = cx_router (ap_objs a ! q) \<and> cx_id (ap_objs a' ! q) = cx_id (ap_objs a ! q) \<and>
        q_stop (cx_queue (ap_objs a' ! q)) = q_stop (cx_queue (ap_objs a ! q)) \<and> prefix (mbox a q) (mbox a' q) \<and>
        (q \<notin> S \<longrightarrow> cx_user (ap_objs a' ! q) = cx_user (ap_objs a ! q)))"

lemma evolves_refl: "evolves S a a"
  by (simp add: evolves_def)

lemma evolves_trans: "evolves S a b \<Longrightarrow> evolves S b c \<Longrightarrow> evolves S a c"
  by (auto simp: evolves_def intro: prefix_order.trans)

lemma evolves_mono: "evolves S a b \<Longrightarrow> S \<subseteq> T \<Longrightarrow> evolves T a b"
  by (auto simp: evolves_def)

lemma posts_evolves: "posts a b \<Longrightarrow> evolves S a b"
  by (auto simp: posts_def evolves_def)

lemma get_handle_set_user [simp]: "get_handle (set_user p u a) = get_handle a"
  by (rule get_handle_infos) (simp_all add: set_user_def)

lemma evolves_set_user: "p \<in> S \<Longrightarrow> evolves S a (set_user p u a)"
  by (auto simp: evolves_def) (auto simp: set_user_def upd_obj_nth upd_obj_keeps_id)

lemma set_user_same: "cx_user (ap_objs a ! p) = u \<Longrightarrow> set_user p u a = a"
  unfolding set_user_def upd_obj_def by (auto simp: list_update_id)

lemma set_user_self [simp]: "p < length (ap_objs a) \<Longrightarrow> cx_user (ap_objs (set_user p u a) ! p) = u"
  by (simp add: set_user_def upd_obj_nth)

text \<open>The contexts of a running demo: gate, world and game, found by their names, with their functions.\<close>

definition named :: "demo_app \<Rightarrow> string \<Rightarrow> nat \<Rightarrow> bool" where
  "named a nm k \<longleftrightarrow>
     (\<exists>h. get_handle a (CHR ''.'' # nm) = Inr (Some (h, nm)) \<and> handle_node h = cfg_nodeid (ap_config a)) \<and>
     get_ctx (ap_mgr a) (find_name (ap_mgr a) nm) = Some k"

definition wired :: "demo_app \<Rightarrow> nat \<Rightarrow> nat \<Rightarrow> nat \<Rightarrow> bool" where
  "wired a q w k \<longleftrightarrow>
     app_inv a \<and> gate_named a q \<and> named a ''world'' w \<and> named a ''game'' k \<and>
     map_of (cx_router (ap_objs a ! q)) ''get_allocid'' = Some (True, Rpc_get_allocid) \<and>
     map_of (cx_router (ap_objs a ! w)) ''player_login'' = Some (False, Rpc_player_login) \<and>
     map_of (cx_router (ap_objs a ! k)) ''add_player'' = Some (False, Rpc_add_player) \<and>
     map_of (cx_router (ap_objs a ! k)) ''on_client'' = Some (False, Rpc_on_client)"

lemma evolves_inv: "evolves S a b \<Longrightarrow> app_inv a \<Longrightarrow> app_inv b"
  by (auto simp: evolves_def app_inv_def)

lemma wired_lt: "wired a q w k \<Longrightarrow> q < length (ap_objs a) \<and> w < length (ap_objs a) \<and> k < length (ap_objs a)"
  by (auto simp: wired_def named_def gate_named_lt app_inv_lt)

lemma wired_evolves:
  assumes "evolves S a b" "wired a q w k"
  shows "wired b q w k"
proof -
  note e = assms(1) [unfolded evolves_def]
  have "app_inv b" using evolves_inv [OF assms(1)] assms(2) by (simp add: wired_def)
  moreover have "gate_named b q" "named b ''world'' w" "named b ''game'' k"
    using e assms(2) wired_lt [OF assms(2)] by (auto simp: wired_def gate_named_def named_def)
  ultimately show ?thesis
    using e assms(2) wired_lt [OF assms(2)] by (simp add: wired_def)
qed

section \<open>Calls between the contexts\<close>

lemma call_local:
  assumes "named a nm k" "map_of (cx_router (ap_objs a ! k)) fn = Some (muli, F)"
  shows "ctx_call_name_nolock exec send ser (CHR ''.'' # nm) fn args a = exec muli F k (rpc_encode ser args) a"
  using assms
  by (auto simp: named_def ctx_call_name_nolock_def rpc_ctx_call_name_def rpc_call_registered_def rpc_on_call_def
      handle_node_def Let_def split: sum.split prod.split)


lemma wired_calls:
  assumes "wired a q w k"
  shows "ctx_call_name_nolock exec send ser ''.world'' ''player_login'' (Some x) a = exec False Rpc_player_login w (ser x) a"
    "ctx_call_name_nolock exec send ser ''.game'' ''add_player'' (Some x) a = exec False Rpc_add_player k (ser x) a"
    "ctx_call_name_nolock exec send ser ''.game'' ''on_client'' (Some x) a = exec False Rpc_on_client k (ser x) a"
    "ctx_call_name_nolock exec send ser ''.gate'' ''get_allocid'' None a = exec True Rpc_get_allocid q [] a"
proof -
  have nm: "named a ''world'' w" "named a ''game'' k" "named a ''gate'' q"
    and r: "map_of (cx_router (ap_objs a ! w)) ''player_login'' = Some (False, Rpc_player_login)"
      "map_of (cx_router (ap_objs a ! k)) ''add_player'' = Some (False, Rpc_add_player)"
      "map_of (cx_router (ap_objs a ! k)) ''on_client'' = Some (False, Rpc_on_client)"
      "map_of (cx_router (ap_objs a ! q)) ''get_allocid'' = Some (True, Rpc_get_allocid)"
    using assms by (auto simp: wired_def gate_named_def named_def)
  note c = call_local [OF nm(1) r(1)] call_local [OF nm(2) r(2)] call_local [OF nm(2) r(3)] call_local [OF nm(3) r(4)]
  show "ctx_call_name_nolock exec send ser ''.world'' ''player_login'' (Some x) a = exec False Rpc_player_login w (ser x) a"
    "ctx_call_name_nolock exec send ser ''.game'' ''add_player'' (Some x) a = exec False Rpc_add_player k (ser x) a"
    "ctx_call_name_nolock exec send ser ''.game'' ''on_client'' (Some x) a = exec False Rpc_on_client k (ser x) a"
    "ctx_call_name_nolock exec send ser ''.gate'' ''get_allocid'' None a = exec True Rpc_get_allocid q [] a"
    by (simp_all add: c rpc_encode_def)
qed

lemma rpc_func_simps:
  "router_exec body deser rser muli f p data a = rpc_call_func deser rser (body f p) data a"
  "finish_call out (Inr x, s) = (Inr \<lparr>rr_status = 0, rr_res = out x\<rparr>, s)" "finish_call out (Inl e, s) = (Inl e, s)"
  by (simp_all add: router_exec_def finish_call_def ret_status0_def)

lemma exec_player_login:
  assumes "lib_ok L" "world_player_login L w c m a = (Inr x, a')"
  shows "demo_exec send L E n muli Rpc_player_login w (lib_aser L (Arg_login c m)) a = (Inr \<lparr>rr_status = 0, rr_res = lib_rser L x\<rparr>, a')"
  using assms by (simp add: demo_exec_def rpc_func_simps demo_body.simps [of _ _ _ n] args_for_def lib_ok_def)

lemma exec_add_player:
  assumes "lib_ok L" "game_add_player k c m a = (Inr (), a')"
  shows "demo_exec send L E n muli Rpc_add_player k (lib_aser L (Arg_login c m)) a = (Inr \<lparr>rr_status = 0, rr_res = []\<rparr>, a')"
  using assms by (simp add: demo_exec_def rpc_func_simps demo_body.simps [of _ _ _ n] args_for_def lib_ok_def)

lemma exec_on_client:
  assumes "lib_ok L"
  shows "demo_exec send L E n muli Rpc_on_client k (lib_aser L (Arg_client c d)) a =
    (case game_on_client L E k c d a of (Inr _, a') \<Rightarrow> (Inr \<lparr>rr_status = 0, rr_res = []\<rparr>, a') | (Inl e, a') \<Rightarrow> (Inl e, a'))"
  using assms
  by (simp add: demo_exec_def rpc_func_simps demo_body.simps [of _ _ _ n] args_for_def lib_ok_def finish_call_def ret_status0_def
      split: prod.split sum.split)

lemma login_answer_ok:
  "lib_ok L \<Longrightarrow> login_answer L (Inr \<lparr>rr_status = 0, rr_res = lib_rser L (Ret_login err tip)\<rparr>) = Inr (err, tip)"
  by (simp add: login_answer_def rpc_as_def has_value_def lib_ok_def)

text \<open>A message goes into the mailbox of its receiver only.\<close>

lemma dispatch_id_only:
  assumes "app_inv a" "get_ctx (ap_mgr a) i = Some q" "r < length (ap_objs a)" "r \<noteq> q"
  shows "mbox (snd (dispatch_id p i t data a)) r = mbox a r"
proof -
  let ?m = "msg_make (getid p a) i (cx_session (ap_objs a ! p) + 1) t False data" and ?a = "snd (next_session p a)"
  have "node_mq_push ?m ?a \<in> {?a, node_push_msg q ?m ?a}"
  proof (cases "msg_parse True ?m")
    case (Some cmsg)
    then have "msg_to cmsg = i" by (auto dest!: msg_parse_Some)
    then show ?thesis
      using node_mq_push_local [OF Some, of ?a q] assms(1,2) by (simp add: app_inv_def)
  qed (simp add: node_mq_push_def)
  then show ?thesis
    using assms(3,4) by (auto simp: dispatch_id_def mbox_def node_push_msg_def upd_obj_nth split_beta Let_def)
qed

lemma dispatch_gate_only:
  assumes "app_inv a" "gate_named a q" "r < length (ap_objs a)" "r \<noteq> q"
  shows "mbox (snd (dispatch_name p ''.gate'' t data a)) r = mbox a r"
proof -
  obtain h where h: "get_handle a ''.gate'' = Inr (Some (h, ''gate''))" "handle_node h = cfg_nodeid (ap_config a)"
    using assms(2) by (auto simp: gate_named_def)
  then have "snd (dispatch_name p ''.gate'' t data a) = snd (dispatch_id p (find_name (ap_mgr a) ''gate'') t data a)"
    by (simp add: dispatch_name_def app_self_nodeid_def get_ctxid_def handle_node_def split_beta Let_def)
  then show ?thesis
    using assms dispatch_id_only [of a "find_name (ap_mgr a) ''gate''" q r] by (simp add: gate_named_def)
qed

text \<open>The world registers the name and tells the gate who is online.\<close>

definition world_after :: "u64 \<Rightarrow> string \<Rightarrow> world_t \<Rightarrow> world_t" where
  "world_after connid name W = fst (snd (rpc_player_login connid name W))"

definition online_of :: "world_t \<Rightarrow> mp_obj" where
  "online_of W = pack_online \<lparr>u16count = word_of_nat (length (logins W)), vecPlayerNickName = map snd (logins W)\<rparr>"

lemma world_after_tables:
  "map_of (name2conid (world_after connid name W)) name = Some connid" "map_of (logins (world_after connid name W)) connid = Some name"
  by (simp_all add: world_after_def rpc_player_login_def update_conv' split: option.split)

lemma rpc_player_login_eq:
  "\<exists>kicked. rpc_player_login connid name W = (Login_Ok, world_after connid name W,
     kicked @ [Out_gate_online (word_of_nat (length (logins (world_after connid name W)))) (map snd (logins (world_after connid name W)))]) \<and>
     (\<forall>out \<in> set kicked. \<exists>c. out = Out_gate_close c)"
  by (auto simp: world_after_def rpc_player_login_def Let_def split: option.split)

lemma posts_dispatch_name: "posts a (snd (dispatch_name p nodectx t data a))"
  using posts_trans [OF posts_next_session posts_mq_push]
  by (simp add: dispatch_name_def dispatch_id_def split_beta Let_def posts_refl split: sum.split option.split)

lemma posts_world_send: "posts a (world_send L p out a)"
  using posts_dispatch_name by (simp add: world_send_def dispatch_pack_name_def broad_notify_def posts_refl split: demo_out.split)

lemma posts_world_sends: "posts a (fold (world_send L p) outs a)"
  by (induction outs arbitrary: a) (auto simp: posts_refl intro: posts_trans [OF posts_world_send])

lemma gate_named_posts: "posts a b \<Longrightarrow> app_inv a \<Longrightarrow> gate_named a q \<Longrightarrow> gate_named b q"
  using gate_named_lt [of a q] by (auto simp: posts_def gate_named_def)

lemma world_sends_only:
  assumes "app_inv a" "gate_named a q" "r < length (ap_objs a)" "r \<noteq> q"
  shows "mbox (fold (world_send L p) outs a) r = mbox a r"
  using assms
proof (induction outs arbitrary: a)
  case (Cons out outs)
  have "mbox (world_send L p out a) r = mbox a r"
    using dispatch_gate_only [OF Cons.prems] by (simp add: world_send_def dispatch_pack_name_def broad_notify_def split: demo_out.split)
  moreover have "r < length (ap_objs (world_send L p out a))"
    using posts_world_send [of a L p out] Cons.prems(3) by (simp add: posts_def)
  ultimately show ?case
    using Cons.IH [of "world_send L p out a"] Cons.prems posts_inv [OF posts_world_send] gate_named_posts [OF posts_world_send] by simp
qed simp

lemma world_login_spec:
  assumes "app_inv a" "gate_named a q" "w < length (ap_objs a)" "cx_user (ap_objs a ! w) = Obj_world W"
    "length (lib_ser L (Pl_data (codec_pack (lib_enc L) (online_of (world_after c (lg_name m) W))))) < 2 ^ 32"
  shows "\<exists>a' ms mo. world_player_login L w c m a = (Inr (Ret_login Login_Ok []), a') \<and>
    posts (set_user w (Obj_world (world_after c (lg_name m) W)) a) a' \<and> mbox a' q = mbox a q @ ms @ [mo] \<and>
    (\<forall>r < length (ap_objs a). r \<noteq> q \<longrightarrow> mbox a' r = mbox a r) \<and>
    carries mo (getid w a) Gm_broad (lib_ser L (Pl_data (codec_pack (lib_enc L) (online_of (world_after c (lg_name m) W)))))"
proof -
  let ?W = "world_after c (lg_name m) W" and ?b = "set_user w (Obj_world (world_after c (lg_name m) W)) a"
  obtain kicked where k: "rpc_player_login c (lg_name m) W = (Login_Ok, ?W,
     kicked @ [Out_gate_online (word_of_nat (length (logins ?W))) (map snd (logins ?W))])"
    using rpc_player_login_eq by blast
  let ?c = "fold (world_send L w) kicked ?b"
  have pc: "posts ?b ?c" by (rule posts_world_sends)
  have b: "app_inv ?b" "gate_named ?b q" "q < length (ap_objs a)"
    using assms(1-3) gate_named_lt [OF assms(1,2)] by (simp_all add: gate_named_def)
  obtain mo a' where mo: "broad_notify (lib_ser L) (lib_enc L) w (online_of ?W) ?c = (Inr (cx_session (ap_objs ?c ! w) + 1), a')"
      "posts ?c a'" "mbox a' q = mbox ?c q @ [mo]" "carries mo (getid w ?c) Gm_broad (lib_ser L (Pl_data (codec_pack (lib_enc L) (online_of ?W))))"
    using dispatch_gate [where ser = "lib_ser L" and p = w and t = Gm_broad, OF posts_inv [OF pc b(1)] gate_named_posts [OF pc b(1,2)] assms(5)]
    by (auto simp: broad_notify_def)
  have "world_player_login L w c m a = (Inr (Ret_login Login_Ok []), a')"
    using mo(1) by (simp add: world_player_login_def assms(4) k world_send_def online_of_def)
  moreover obtain ms where "mbox ?c q = mbox a q @ ms"
    using pc b(3) by (auto simp: posts_def prefix_def)
  moreover have "getid w ?c = getid w a" using pc assms(3) by (auto simp: posts_def getid_def set_user_frame(4) [unfolded getid_def])
  moreover have "mbox a' r = mbox a r" if "r < length (ap_objs a)" "r \<noteq> q" for r
    using that world_sends_only [OF b(1,2), of r L w kicked] mo(1) posts_inv [OF pc b(1)] gate_named_posts [OF pc b(1,2)] pc
      dispatch_gate_only [of ?c q r w] by (auto simp: broad_notify_def dispatch_pack_name_def posts_def) (metis snd_conv)
  ultimately show ?thesis
    using mo(2-4) posts_trans [OF pc mo(2)] by auto
qed


text \<open>The packet of a login, decoded by the gate.\<close>

lemma packet_of_login:
  assumes "lib_ok L"
  shows "packet_head L (codec_pack (lib_enc L) (pack_login m)) = Inr (hd_id (lg_head m) = msg_id Id_Login, hd_sn (lg_head m))"
    "packet_login L (codec_pack (lib_enc L) (pack_login m)) = Inr m"
  using assms
  by (simp_all add: packet_head_def packet_login_def lib_ok_def codec_unpack_def codec_pack_def pack_login_def as_login_def member_def)

text \<open>The gate's table after the request and after the answer.\<close>

definition gate_asked :: "u64 \<Rightarrow> gate_player \<Rightarrow> gate_t \<Rightarrow> gate_t" where
  "gate_asked connid pl g =
     g\<lparr>gt_players := AList.update connid (pl\<lparr>gp_send_sign := gp_send_sign pl + 1\<rparr>) (gt_players g)\<rparr>"

lemma on_conn_msg_asks:
  assumes "map_of (gt_players g) connid = Some pl" "\<not> gp_login pl" "sn = gp_send_sign pl + 1" "uVer \<le> nVerMax"
  shows "on_conn_msg connid (Inr (True, sn)) (Inr (name, uVer)) g = (Next_world connid name, gate_asked connid pl g, [])"
  using assms by (simp add: on_conn_msg_def co_login_begin_def gate_asked_def nVerMin_def Let_def leD)

lemma co_login_end_ok:
  assumes "map_of (gt_players g) connid = Some pl"
  shows "\<exists>g'. co_login_end connid (Inr (Login_Ok, tip)) g =
      (Inr True, g', [Out_ctx (gp_from pl) Gm_write connid (Some (Login_rsp Login_Ok tip (gp_recv_sign pl + 1)))]) \<and>
    map_of (gt_players g') connid = Some (pl\<lparr>gp_recv_sign := gp_recv_sign pl + 1, gp_login := True\<rparr>)"
  using assms by (simp add: co_login_end_def write_rsp_def update_conv' Let_def)

text \<open>\<open>co_login\<close> from the call of the world to its end.\<close>

lemma login_rest_spec:
  assumes "lib_ok L" "wired a q w k"
    and "cx_user (ap_objs a ! q) = Obj_gate g" "cx_user (ap_objs a ! w) = Obj_world W" "cx_user (ap_objs a ! k) = Obj_game G"
    and "map_of (gt_players g) connid = Some pl" "get_ctx (ap_mgr a) (gp_from pl) = Some v" "\<not> q_stop (cx_queue (ap_objs a ! v))"
      "cx_user (ap_objs a ! v) = Obj_ws s"
    and "W' = world_after connid (lg_name m) W" "length (lib_ser L (Pl_data (codec_pack (lib_enc L) (online_of W')))) < 2 ^ 32"
    and "data = codec_pack (lib_enc L) (pack_client (Login_rsp Login_Ok [] (gp_recv_sign pl + 1)))"
      "length (lib_ser L (Pl_conn_data connid data)) < 2 ^ 32"
  shows "\<exists>a' g' m2 ms mo.
    gate_login_rest (demo_exec send L E n) send L q connid m a = (Inr (), a') \<and>
    cx_user (ap_objs a' ! q) = Obj_gate g' \<and>
    map_of (gt_players g') connid = Some (pl\<lparr>gp_recv_sign := gp_recv_sign pl + 1, gp_login := True\<rparr>) \<and>
    cx_user (ap_objs a' ! w) = Obj_world W' \<and>
    cx_user (ap_objs a' ! k) = Obj_game (G\<lparr>sg_game := rpc_add_player connid (lg_name m) (sg_game G)\<rparr>) \<and>
    cx_user (ap_objs a' ! v) = Obj_ws s \<and>
    mbox a' v = mbox a v @ [m2] \<and> carries m2 (getid q a) Gm_write (lib_ser L (Pl_conn_data connid data)) \<and>
    prefix (mbox a q @ ms @ [mo]) (mbox a' q) \<and> carries mo (getid w a) Gm_broad (lib_ser L (Pl_data (codec_pack (lib_enc L) (online_of W')))) \<and>
    evolves {q, w, k} a a'"
proof -
  have lt: "q < length (ap_objs a)" "w < length (ap_objs a)" "k < length (ap_objs a)" "v < length (ap_objs a)"
    using wired_lt [OF assms(2)] app_inv_lt [OF _ assms(7)] assms(2) by (simp_all add: wired_def)
  have ne: "q \<noteq> w" "q \<noteq> k" "w \<noteq> k" "v \<notin> {q, w, k}" "w \<noteq> q" "k \<noteq> q" "k \<noteq> w" using assms(3-5,9) by auto
  have inv: "app_inv a" "gate_named a q" using assms(2) by (simp_all add: wired_def)
  obtain a1 ms mo where w: "world_player_login L w connid m a = (Inr (Ret_login Login_Ok []), a1)"
      "posts (set_user w (Obj_world W') a) a1" "mbox a1 q = mbox a q @ ms @ [mo]"
      "carries mo (getid w a) Gm_broad (lib_ser L (Pl_data (codec_pack (lib_enc L) (online_of W'))))" "mbox a1 v = mbox a v"
    using world_login_spec [OF inv lt(2) assms(4), of L connid m] assms(10,11) lt(4) ne(4) by auto
  have e1: "evolves {q, w, k} a a1"
    by (rule evolves_trans [OF evolves_set_user posts_evolves [OF w(2)]]) simp
  have u1: "cx_user (ap_objs a1 ! q) = Obj_gate g" "cx_user (ap_objs a1 ! w) = Obj_world W'" "cx_user (ap_objs a1 ! k) = Obj_game G"
      "cx_user (ap_objs a1 ! v) = Obj_ws s" "length (ap_objs a1) = length (ap_objs a)"
    using w(2) lt ne assms(3-5,9) by (simp_all add: posts_def)
  have call1: "ctx_call_name_nolock (demo_exec send L E n) send (lib_aser L) ''.world'' ''player_login'' (Some (Arg_login connid m)) a =
      (Inr \<lparr>rr_status = 0, rr_res = lib_rser L (Ret_login Login_Ok [])\<rparr>, a1)"
    by (simp only: wired_calls [OF assms(2)] exec_player_login [OF assms(1) w(1)])
  obtain g' where g': "co_login_end connid (Inr (Login_Ok, [])) g =
      (Inr True, g', [Out_ctx (gp_from pl) Gm_write connid (Some (Login_rsp Login_Ok [] (gp_recv_sign pl + 1)))])"
      "map_of (gt_players g') connid = Some (pl\<lparr>gp_recv_sign := gp_recv_sign pl + 1, gp_login := True\<rparr>)"
    using co_login_end_ok [OF assms(6)] by blast
  let ?b = "set_user q (Obj_gate g') a1"
  define a2 where "a2 = write_pack (lib_ser L) q (gp_from pl) (gate_msg_number Gm_write) (Pl_conn_data connid data) ?b"
  have seg: "gate_seg L q (co_login_end connid (Inr (Login_Ok, []))) a1 = (Inr (Inr True), a2)"
    by (simp add: gate_seg_def u1(1) g'(1) gate_send_def gate_to_ws_def assms(12) a2_def del: pack_client.simps)
  have po2: "posts ?b a2" unfolding a2_def by (rule posts_write_pack)
  have e2: "evolves {q, w, k} a a2"
    by (rule evolves_trans [OF evolves_trans [OF e1 evolves_set_user] posts_evolves [OF po2]]) simp
  have b: "app_inv ?b" "get_ctx (ap_mgr ?b) (gp_from pl) = Some v" "\<not> q_stop (cx_queue (ap_objs ?b ! v))"
    using evolves_inv [OF e1 inv(1)] e1 assms(7,8) lt u1(5) by (simp_all add: evolves_def)
  obtain m2 where m2: "mbox a2 v = mbox a1 v @ [m2]" "carries m2 (getid q a) Gm_write (lib_ser L (Pl_conn_data connid data))"
    using write_pack_one [where ser = "lib_ser L" and p = q and t = Gm_write, OF b assms(13)] e1 lt u1(5)
    by (auto simp: a2_def evolves_def getid_def set_user_frame(4) [unfolded getid_def])
  have u2: "cx_user (ap_objs a2 ! q) = Obj_gate g'" "cx_user (ap_objs a2 ! w) = Obj_world W'" "cx_user (ap_objs a2 ! k) = Obj_game G"
      "cx_user (ap_objs a2 ! v) = Obj_ws s" "length (ap_objs a2) = length (ap_objs a)"
    using po2 lt ne u1 by (simp_all add: posts_def)
  let ?a3 = "set_user k (Obj_game (G\<lparr>sg_game := rpc_add_player connid (lg_name m) (sg_game G)\<rparr>)) a2"
  have "game_add_player k connid m a2 = (Inr (), ?a3)" by (simp add: game_add_player_def u2(3))
  then have call2: "ctx_call_name_nolock (demo_exec send L E n) send (lib_aser L) ''.game'' ''add_player'' (Some (Arg_login connid m)) a2 =
      (Inr \<lparr>rr_status = 0, rr_res = []\<rparr>, ?a3)"
    by (simp only: wired_calls [OF wired_evolves [OF e2 assms(2)]] exec_add_player [OF assms(1)])
  have run: "gate_login_rest (demo_exec send L E n) send L q connid m a = (Inr (), ?a3)"
    by (simp add: gate_login_rest_def call1 login_answer_ok [OF assms(1)] seg call2)
  have "prefix (mbox a q @ ms @ [mo]) (mbox a2 q)" using po2 lt(1) u1(5) by (simp add: posts_def flip: w(3))
  moreover have "evolves {q, w, k} a ?a3" by (rule evolves_trans [OF e2 evolves_set_user]) simp
  ultimately show ?thesis
    using run g'(2) u2 m2 w(4,5) lt ne by (intro exI [of _ ?a3] exI [of _ g'] exI [of _ m2] exI [of _ ms] exI [of _ mo]) auto
qed


lemma lib_unpack: "lib_ok L \<Longrightarrow> carries m from t (lib_ser L pl) \<Longrightarrow> demo_unpack (lib_deser L) m = Some (t, pl)"
  by (rule carries_unpack [where ser = "lib_ser L"]) (simp_all add: lib_ok_def)

text \<open>\<open>on_msg\<close> of the gate only starts a task for what the web socket server publishes.\<close>

lemma gate_starts_task:
  assumes "lib_ok L" "cx_user (ap_objs a ! q) = Obj_gate g" "carries m from t (lib_ser L pl)"
  shows "t = Ws_msg \<Longrightarrow> gate_handle (lib_ser L) (lib_deser L) (lib_enc L) q m a = ([Task_msg pl], a)"
    "t = Ws_stop \<Longrightarrow> gate_handle (lib_ser L) (lib_deser L) (lib_enc L) q m a = ([Task_stop pl], a)"
    "t = Ws_start \<Longrightarrow> gate_handle (lib_ser L) (lib_deser L) (lib_enc L) q m a = ([Task_start from pl], a)"
  using lib_unpack [OF assms(1,3)] assms(2,3) by (simp_all add: gate_handle_def gate_on_msg_def set_user_same carries_def)

section \<open>From end to end\<close>

text \<open>What \<open>create_ctx("gate", ...)\<close> leaves behind in an application that knows its own node.\<close>

lemma booted_wired:
  assumes "booted True a2 b h2 h3 h5" "mgr_inv m" "names_of m = names_of (ap_mgr b)" "get_ctx m = (get_ctx (ap_mgr b))(ctx_handle a2 \<mapsto> 0)"
    and "ap_objs a2 = []" "a = b\<lparr>ap_mgr := m, ap_receivers := rs\<rparr>" "app_inv a"
    and "get_node_name (ap_node a2) [] = Some j" "ucast (info_nodeid (nd_info (nodes (ap_node a2) ! j))) = cfg_nodeid (ap_config a2)"
  shows "wired a 0 2 3" "getid 1 a = h2" "get_ctx (ap_mgr a) h2 = Some 1" "get_ctx (ap_mgr a) h3 = Some 2" "get_ctx (ap_mgr a) h5 = Some 3"
    "i < 4 \<Longrightarrow> \<not> q_stop (cx_queue (ap_objs a ! i))"
    "cx_user (ap_objs a ! 0) = Obj_gate (gate_new\<lparr>world_id := h3, game_id := h5\<rparr>)" "cx_user (ap_objs a ! 1) = Obj_ws (ws_new\<lparr>ws_server := True\<rparr>)"
    "cx_user (ap_objs a ! 2) = Obj_world world_new" "cx_user (ap_objs a ! 3) = Obj_game (game_on_init game_obj_new)"
proof -
  have gh: "get_handle a (CHR ''.'' # nm) = Inr (Some (handle_set_nodeid (cfg_nodeid (ap_config a)) (cqy_handle 0), nm))" if "nm \<noteq> []" for nm
    using get_handle_dot [of "[]" nm a j] that assms(1,6,8,9) by (simp add: booted_def Let_def)
  have fn: "find_name (ap_mgr a) nm = (case names_of (ap_mgr b) nm of Some i \<Rightarrow> i | None \<Rightarrow> 0)" for nm
    using find_name_names_of [OF assms(2)] assms(3,6) by simp
  have c0: "get_ctx (ap_mgr a) (ctx_handle a2) = Some 0" using assms(4,6) by simp
  show c: "get_ctx (ap_mgr a) h2 = Some 1" "get_ctx (ap_mgr a) h3 = Some 2" "get_ctx (ap_mgr a) h5 = Some 3"
    using assms(1,4-6) by (auto simp: booted_def Let_def)
  have nm: "find_name (ap_mgr a) ''gate'' = ctx_handle a2" "find_name (ap_mgr a) ''world'' = h3" "find_name (ap_mgr a) ''game'' = h5"
    using assms(1) by (simp_all add: fn booted_def Let_def)
  have objs: "ap_objs a = ap_objs b" by (simp add: assms(6))
  have of: "offers (ap_objs a ! 0) [(''get_allocid'', True, Rpc_get_allocid)]" "offers (ap_objs a ! 1) []"
      "offers (ap_objs a ! 2) [(''player_login'', False, Rpc_player_login)]"
      "offers (ap_objs a ! 3) [(''add_player'', False, Rpc_add_player), (''on_client'', False, Rpc_on_client)]"
    using assms(1,5) by (simp_all add: objs booted_def Let_def numeral_2_eq_2)
  show "cx_user (ap_objs a ! 0) = Obj_gate (gate_new\<lparr>world_id := h3, game_id := h5\<rparr>)" "cx_user (ap_objs a ! 1) = Obj_ws (ws_new\<lparr>ws_server := True\<rparr>)"
      "cx_user (ap_objs a ! 2) = Obj_world world_new" "cx_user (ap_objs a ! 3) = Obj_game (game_on_init game_obj_new)"
    using assms(1,5) by (simp_all add: objs booted_def Let_def numeral_2_eq_2)
  show "getid 1 a = h2" using assms(7) c(1) by (simp add: app_inv_def getid_def)
  show "wired a 0 2 3"
    using assms(7) gh [of "''gate''"] gh [of "''world''"] gh [of "''game''"] nm c0 c of
    by (simp add: wired_def gate_named_def named_def offers_def handle_node_def)
  show "\<not> q_stop (cx_queue (ap_objs a ! i))" if "i < 4"
    using that of by (auto simp: offers_def less_Suc_eq numeral_eq_Suc)
qed

text \<open>The program of the demo ends up wired: when the file \<open>config_game.json\<close> can be read and lists the own node, and the web server runs, \<open>main\<close> reaches its wait with gate, world and game
  registered under their names with open mailboxes and their functions, no connection, and a web socket server that is running.\<close>

lemma demo_main_up:
  assumes "from_json (config_default hw) (path_append cwd ''config_game.json'') = (Inr (), cfg)"
    and "own \<in> set (cfg_nodes cfg)" "info_nodeid own = ucast (cfg_nodeid cfg)"
  shows "\<exists>a q w k v g. demo_main from_json cwd hw ndebug Io_running 1 = (Inr (), a) \<and> wired a q w k \<and>
    cx_user (ap_objs a ! q) = Obj_gate g \<and> gt_players g = [] \<and> conn_alloc g = 0 \<and>
    get_ctx (ap_mgr a) (world_id g) = Some w \<and> \<not> q_stop (cx_queue (ap_objs a ! w)) \<and> cx_user (ap_objs a ! w) = Obj_world world_new \<and>
    get_ctx (ap_mgr a) (game_id g) = Some k \<and> \<not> q_stop (cx_queue (ap_objs a ! k)) \<and> cx_user (ap_objs a ! k) = Obj_game (game_on_init game_obj_new) \<and>
    get_ctx (ap_mgr a) (getid v a) = Some v \<and> \<not> q_stop (cx_queue (ap_objs a ! v)) \<and> cx_user (ap_objs a ! v) = Obj_ws \<lparr>ws_server = True, ws_conns = []\<rparr>"
proof -
  let ?init = "demo_on_init ndebug Io_running (Suc 0)" and ?a0 = "demo_loaded cfg" and ?param = "''8,12348,server.crt,server.key,''"
  have cfg: "ap_node ?a0 = node_init" "cfg_nodes (ap_config ?a0) = cfg_nodes cfg" "cfg_nodeid (ap_config ?a0) = cfg_nodeid cfg"
      "cfg_bootstrap (ap_config ?a0) \<noteq> []" "ap_objs ?a0 = []"
    by (simp_all add: demo_loaded_def set_bootstrap_def demo_reg_def reg_ctx_def app_init_def)
  obtain a2 j where st: "app_start ?init ?a0 = (case create_ctx ?init ''gate'' ?param a2 of (Inl e, a3) \<Rightarrow> (Inl e, a3) | (Inr _, a3) \<Rightarrow> (Inr (), a3))"
    and a2: "ap_mgr a2 = ap_mgr ?a0" "ap_config a2 = ap_config ?a0" "ap_creator a2 = ap_creator ?a0" "ap_objs a2 = ap_objs ?a0"
    and nd: "get_node_name (ap_node a2) [] = Some j" "ucast (info_nodeid (nd_info (nodes (ap_node a2) ! j))) = cfg_nodeid (ap_config ?a0)"
    by (rule app_start_boot [OF cfg(1) _ _ cfg(4) main_bootstrap, where own = own and init = ?init]) (use assms cfg(2,3) in simp_all)
  have pre: "app_inv a2" "unat (allocid (ap_mgr a2)) + 1 + demo_room (Suc 0) < 2 ^ 24" "demo_creators a2"
      "\<forall>nm \<in> {''gate'', ''ws_server'', ''world'', ''game''}. names_of (ap_mgr a2) nm = None"
    using demo_loaded_facts [of cfg] a2 by (simp_all add: app_inv_def demo_creators_def)
  obtain b h2 h3 h5 m where cr: "create_ctx ?init ''gate'' ?param a2 =
      (Inr (ctx_handle a2), b\<lparr>ap_mgr := m, ap_receivers := ap_receivers b @ [length (ap_objs a2)]\<rparr>)"
    and bt: "booted (Io_running = Io_running \<and> ws_params ?param \<noteq> None) a2 b h2 h3 h5" and m: "mgr_inv m" "names_of m = names_of (ap_mgr b)"
      "get_ctx m = (get_ctx (ap_mgr b))(ctx_handle a2 \<mapsto> length (ap_objs a2))"
    by (rule gate_created [OF pre, where ndebug = ndebug and io = Io_running and param = ?param])
  define a where "a = b\<lparr>ap_mgr := m, ap_receivers := ap_receivers b @ [length (ap_objs a2)]\<rparr>"
  have run: "demo_main from_json cwd hw ndebug Io_running 1 = (Inr (), a)"
    using demo_main_loaded [of from_json hw cwd cfg ndebug Io_running 1] assms(1) st cr by (simp add: a_def)
  have inv: "app_inv a" using demo.create_keeps [OF pre(1,2), of ndebug Io_running "''gate''" ?param] cr by (simp add: a_def)
  have b: "booted True a2 b h2 h3 h5" using bt main_ws_params by simp
  note w = booted_wired [OF b m(1,2) _ _ a_def inv nd(1)]
  show ?thesis
    using run w m(3) nd(2) a2(2,4) cfg(5)
    by (intro exI [of _ a] exI [of _ 0] exI [of _ 2] exI [of _ 3] exI [of _ 1] exI [of _ "gate_new\<lparr>world_id := h3, game_id := h5\<rparr>"])
      (simp add: gate_new_def ws_new_def)
qed

text \<open>C17. A login from end to end: the gate takes the packet of a client out of its mailbox and starts a task. The task calls the world, which then knows the
  name and tells the gate who is online; the connection is marked as logged in; the answer \<open>Ok\<close> with the next sequence number of the connection is the one new
  message in the mailbox of the web socket server, whose handler writes it to the socket; and the game finds the connection under the name. No other context changes.\<close>

theorem login_end_to_end:
  assumes "lib_ok L" "wired a q w k"
    and "cx_user (ap_objs a ! q) = Obj_gate g" "cx_user (ap_objs a ! w) = Obj_world W" "cx_user (ap_objs a ! k) = Obj_game G"
    and "map_of (gt_players g) connid = Some pl" "\<not> gp_login pl" "hd_id (lg_head login) = msg_id Id_Login"
      "hd_sn (lg_head login) = gp_send_sign pl + 1" "lg_uVer login \<le> nVerMax"
    and "get_ctx (ap_mgr a) (gp_from pl) = Some v" "\<not> q_stop (cx_queue (ap_objs a ! v))" "cx_user (ap_objs a ! v) = Obj_ws s"
      "map_of (ws_conns s) connid = Some con" "alive con"
    and "carries m from Ws_msg (lib_ser L (Pl_conn_data connid (codec_pack (lib_enc L) (pack_login login))))"
    and "data = codec_pack (lib_enc L) (pack_client (Login_rsp Login_Ok [] (gp_recv_sign pl + 1)))"
      "length (lib_ser L (Pl_conn_data connid data)) < 2 ^ 32"
      "length (lib_ser L (Pl_data (codec_pack (lib_enc L) (online_of (world_after connid (lg_name login) W))))) < 2 ^ 32"
  shows "\<exists>task a' g' W' G' m2 ms mo.
    gate_handle (lib_ser L) (lib_deser L) (lib_enc L) q m a = ([task], a) \<and>
    gate_task_exec (demo_exec send L E n) send L q task a = (Inr (), a') \<and> evolves {q, w, k} a a' \<and>
    cx_user (ap_objs a' ! w) = Obj_world W' \<and> map_of (name2conid W') (lg_name login) = Some connid \<and> map_of (logins W') connid = Some (lg_name login) \<and>
    prefix (mbox a q @ ms @ [mo]) (mbox a' q) \<and> demo_unpack (lib_deser L) mo = Some (Gm_broad, Pl_data (codec_pack (lib_enc L) (online_of W'))) \<and>
    cx_user (ap_objs a' ! q) = Obj_gate g' \<and> map_option gp_login (map_of (gt_players g') connid) = Some True \<and>
    mbox a' v = mbox a v @ [m2] \<and> ws_handle (lib_deser L) alive v m2 a' = [Write_frame con data] \<and>
    codec_unpack (lib_dec L) data = Inr (pack_client (Login_rsp Login_Ok [] (gp_recv_sign pl + 1))) \<and>
    cx_user (ap_objs a' ! k) = Obj_game G' \<and> get_player_connid (lg_name login) (sg_game G') = connid"
proof -
  let ?d = "codec_pack (lib_enc L) (pack_login login)" and ?a1 = "set_user q (Obj_gate (gate_asked connid pl g)) a"
  let ?pl = "pl\<lparr>gp_send_sign := gp_send_sign pl + 1\<rparr>" and ?W = "world_after connid (lg_name login) W"
  have rt: "lib_deser L (lib_ser L x) = Inr x" "lib_dec L (lib_enc L ob) = Some ob" for x ob using assms(1) by (simp_all add: lib_ok_def)
  have lt: "q < length (ap_objs a)" "w < length (ap_objs a)" "k < length (ap_objs a)" "v < length (ap_objs a)"
    using wired_lt [OF assms(2)] app_inv_lt [OF _ assms(11)] assms(2) by (simp_all add: wired_def)
  have ne: "w \<noteq> q" "k \<noteq> q" "v \<noteq> q" using assms(3-5,13) by auto
  have gh: "gate_handle (lib_ser L) (lib_deser L) (lib_enc L) q m a = ([Task_msg (Pl_conn_data connid ?d)], a)"
    by (rule gate_starts_task(1) [OF assms(1,3,16) refl])
  have seg: "gate_seg L q (on_conn_msg connid (packet_head L ?d) (login_version (packet_login L ?d))) a = (Inr (Next_world connid (lg_name login)), ?a1)"
    using on_conn_msg_asks [OF assms(6,7,9,10)] assms(3,8) by (simp add: gate_seg_def packet_of_login [OF assms(1)] login_version_def)
  have e1: "evolves {q, w, k} a ?a1" by (rule evolves_set_user) simp
  have pl: "map_of (gt_players (gate_asked connid pl g)) connid = Some ?pl" by (simp add: gate_asked_def update_conv')
  have v: "get_ctx (ap_mgr ?a1) (gp_from ?pl) = Some v" "\<not> q_stop (cx_queue (ap_objs ?a1 ! v))" using assms(11,12) lt by simp_all
  have u: "cx_user (ap_objs ?a1 ! q) = Obj_gate (gate_asked connid pl g)" "cx_user (ap_objs ?a1 ! w) = Obj_world W" "cx_user (ap_objs ?a1 ! k) = Obj_game G"
      "cx_user (ap_objs ?a1 ! v) = Obj_ws s"
    using lt ne assms(4,5,13) by simp_all
  have data: "data = codec_pack (lib_enc L) (pack_client (Login_rsp Login_Ok [] (gp_recv_sign ?pl + 1)))" using assms(17) by simp
  obtain a' g' m2 ms mo where r: "gate_login_rest (demo_exec send L E n) send L q connid login ?a1 = (Inr (), a')"
      "cx_user (ap_objs a' ! q) = Obj_gate g'" "map_of (gt_players g') connid = Some (?pl\<lparr>gp_recv_sign := gp_recv_sign ?pl + 1, gp_login := True\<rparr>)"
      "cx_user (ap_objs a' ! w) = Obj_world ?W" "cx_user (ap_objs a' ! k) = Obj_game (G\<lparr>sg_game := rpc_add_player connid (lg_name login) (sg_game G)\<rparr>)"
      "cx_user (ap_objs a' ! v) = Obj_ws s" "mbox a' v = mbox ?a1 v @ [m2]" "carries m2 (getid q ?a1) Gm_write (lib_ser L (Pl_conn_data connid data))"
      "prefix (mbox ?a1 q @ ms @ [mo]) (mbox a' q)" "carries mo (getid w ?a1) Gm_broad (lib_ser L (Pl_data (codec_pack (lib_enc L) (online_of ?W))))"
      "evolves {q, w, k} ?a1 a'"
    using login_rest_spec [OF assms(1) wired_evolves [OF e1 assms(2)] u(1-3) pl v u(4) refl assms(19) data assms(18)] by blast
  have "gate_task_exec (demo_exec send L E n) send L q (Task_msg (Pl_conn_data connid ?d)) a = (Inr (), a')"
    by (simp add: gate_task_exec_def gate_conn_msg_def seg) (simp add: packet_of_login(2) [OF assms(1)] r(1) conn_guard_def)
  moreover have "demo_unpack (lib_deser L) mo = Some (Gm_broad, Pl_data (codec_pack (lib_enc L) (online_of ?W)))"
    by (rule lib_unpack [OF assms(1) r(10)])
  moreover have "ws_handle (lib_deser L) alive v m2 a' = [Write_frame con data]"
    using ws_handle_write [where ser = "lib_ser L" and deser = "lib_deser L" and alive = alive, OF r(6) assms(14,15) r(8)] rt(1) by simp
  moreover have "get_player_connid (lg_name login) (rpc_add_player connid (lg_name login) (sg_game G)) = connid"
    by (simp add: get_player_connid_def rpc_add_player_def update_conv' Let_def split: option.split)
  ultimately show ?thesis
    using gh r(2-5,7,9) lt world_after_tables [of connid "lg_name login" W] evolves_trans [OF e1 r(11)] rt(2) assms(17)
    by (intro exI [of _ "Task_msg (Pl_conn_data connid ?d)"] exI [of _ a'] exI [of _ g'] exI [of _ ?W]
        exI [of _ "G\<lparr>sg_game := rpc_add_player connid (lg_name login) (sg_game G)\<rparr>"] exI [of _ m2] exI [of _ ms] exI [of _ mo])
      (simp add: codec_unpack_def codec_pack_def)
qed


text \<open>C18. The end of a connection from end to end: the gate forgets the connection and puts one message into the mailbox of the world and one into that of the game;
  when they have handled it, neither knows the connection any more, nor the name it had.\<close>

theorem logout_end_to_end:
  assumes "lib_ok L" "wired a q w k"
    and "cx_user (ap_objs a ! q) = Obj_gate g" "cx_user (ap_objs a ! w) = Obj_world W" "cx_user (ap_objs a ! k) = Obj_game G"
    and "get_ctx (ap_mgr a) (world_id g) = Some w" "\<not> q_stop (cx_queue (ap_objs a ! w))"
      "get_ctx (ap_mgr a) (game_id g) = Some k" "\<not> q_stop (cx_queue (ap_objs a ! k))"
    and "carries m from Ws_stop (lib_ser L (Pl_conn connid))" "length (lib_ser L (Pl_conn connid)) < 2 ^ 32"
  shows "\<exists>task a' g' mw mk a'' W' G'.
    gate_handle (lib_ser L) (lib_deser L) (lib_enc L) q m a = ([task], a) \<and>
    gate_task_exec exec send L q task a = (Inr (), a') \<and> evolves {q} a a' \<and>
    cx_user (ap_objs a' ! q) = Obj_gate g' \<and> map_of (gt_players g') = (map_of (gt_players g))(connid := None) \<and>
    mbox a' w = mbox a w @ [mw] \<and> mbox a' k = mbox a k @ [mk] \<and>
    game_handle L k mk (world_handle L w mw a') = a'' \<and> cx_user (ap_objs a'' ! w) = Obj_world W' \<and> cx_user (ap_objs a'' ! k) = Obj_game G' \<and>
    map_of (logins W') = (map_of (logins W))(connid := None) \<and> map_of (gm_players (sg_game G')) = (map_of (gm_players (sg_game G)))(connid := None) \<and>
    (\<forall>nm. map_of (logins W) connid = Some nm \<longrightarrow> map_of (name2conid W') nm = None) \<and>
    (\<forall>nm. map_of (gm_players (sg_game G)) connid = Some nm \<longrightarrow> get_player_connid nm (sg_game G') = 0)"
proof -
  have lt: "q < length (ap_objs a)" "w < length (ap_objs a)" "k < length (ap_objs a)" using wired_lt [OF assms(2)] by simp_all
  have ne: "w \<noteq> q" "k \<noteq> q" "w \<noteq> k" "k \<noteq> w" using assms(3-5) by auto
  let ?g = "g\<lparr>gt_players := AList.delete connid (gt_players g)\<rparr>" and ?t = "gate_msg_number Gm_close"
  let ?b = "set_user q (Obj_gate ?g) a"
  define c where "c = write_pack (lib_ser L) q (world_id g) ?t (Pl_conn connid) ?b"
  define a' where "a' = write_pack (lib_ser L) q (game_id g) ?t (Pl_conn connid) c"
  have pc: "posts ?b c" and pa: "posts c a'" unfolding c_def a'_def by (rule posts_write_pack)+
  have inv: "app_inv ?b" "app_inv c" using assms(2) posts_inv [OF pc] by (simp_all add: wired_def)
  have ev: "evolves {q} a a'"
    by (rule evolves_trans [OF evolves_set_user posts_evolves [OF posts_trans [OF pc pa]]]) simp
  have len: "length (ap_objs c) = length (ap_objs a)" using pc by (simp add: posts_def)
  have ctx: "get_ctx (ap_mgr ?b) (world_id g) = Some w" "\<not> q_stop (cx_queue (ap_objs ?b ! w))"
      "get_ctx (ap_mgr c) (game_id g) = Some k" "\<not> q_stop (cx_queue (ap_objs c ! k))"
    using assms(6-9) lt pc by (simp_all add: posts_def)
  obtain mw where mw: "mbox c w = mbox ?b w @ [mw]" "carries mw (getid q ?b) Gm_close (lib_ser L (Pl_conn connid))"
    using write_pack_one [where ser = "lib_ser L" and t = Gm_close and p = q, OF inv(1) ctx(1,2) assms(11)] by (auto simp: c_def)
  obtain mk where mk: "mbox a' k = mbox c k @ [mk]" "carries mk (getid q c) Gm_close (lib_ser L (Pl_conn connid))"
    using write_pack_one [where ser = "lib_ser L" and t = Gm_close and p = q, OF inv(2) ctx(3,4) assms(11)] by (auto simp: a'_def)
  have boxes: "mbox a' w = mbox a w @ [mw]" "mbox a' k = mbox a k @ [mk]"
    using mw(1) mk(1) lt ne len dispatch_id_only [OF inv(1) ctx(1), of k q ?t "lib_ser L (Pl_conn connid)"]
      dispatch_id_only [OF inv(2) ctx(3), of w q ?t "lib_ser L (Pl_conn connid)"]
    by (simp_all add: c_def a'_def write_pack_def dispatch_pack_id_def)
  have "gate_task_exec exec send L q (Task_stop (Pl_conn connid)) a = (Inr (), a')"
    by (simp add: gate_task_exec_def gate_seg_def assms(3) gate_task_run_def on_conn_stop_def gate_send_def gate_to_ws_def c_def a'_def)
  moreover have "gate_handle (lib_ser L) (lib_deser L) (lib_enc L) q m a = ([Task_stop (Pl_conn connid)], a)"
    by (rule gate_starts_task(2) [OF assms(1,3,10) refl])
  moreover have u: "cx_user (ap_objs a' ! q) = Obj_gate ?g" "cx_user (ap_objs a' ! w) = Obj_world W" "cx_user (ap_objs a' ! k) = Obj_game G"
      "length (ap_objs a') = length (ap_objs a)"
    using posts_trans [OF pc pa] lt ne assms(4,5) by (simp_all add: posts_def)
  moreover have "world_handle L w mw a' = set_user w (Obj_world (world_on_msg Gm_close (Pl_conn connid) W)) a'"
      "game_handle L k mk (set_user w X a') = set_user k (Obj_game (G\<lparr>sg_game := game_on_msg Gm_close (Pl_conn connid) (sg_game G)\<rparr>)) (set_user w X a')" for X
    using lib_unpack [OF assms(1) mw(2)] lib_unpack [OF assms(1) mk(2)] u lt ne by (simp_all add: world_handle_def game_handle_def)
  ultimately show ?thesis
    using boxes lt ne ev by (auto simp: delete_conv' world_on_msg_def game_on_msg_def get_player_connid_def split: option.split)
qed

text \<open>C19. A new connection from end to end: the gate gives out the next connection number; the web socket server remembers the connection under it and puts one message into the mailbox
  of the gate; the task the gate starts for it enters the connection, not logged in, with both sequence numbers 0 and the id of the server that owns it.\<close>

theorem connect_end_to_end:
  assumes "lib_ok L" "wired a q w k" "cx_user (ap_objs a ! q) = Obj_gate g" "cx_user (ap_objs a ! v) = Obj_ws s" "v < length (ap_objs a)"
    and "connid = conn_alloc g + 1" "connid \<noteq> 0" "length (lib_ser L (Pl_conn connid)) < 2 ^ 32"
  shows "\<exists>a1 m task a2 g'.
    ws_connect (demo_exec send L E n) send L v con a = (connid, a1) \<and> mbox a1 q = mbox a q @ [m] \<and>
    gate_handle (lib_ser L) (lib_deser L) (lib_enc L) q m a1 = ([task], a1) \<and>
    gate_task_exec exec send L q task a1 = (Inr (), a2) \<and> evolves {q, v} a a2 \<and>
    cx_user (ap_objs a2 ! v) = Obj_ws (s\<lparr>ws_conns := AList.update connid con (ws_conns s)\<rparr>) \<and>
    cx_user (ap_objs a2 ! q) = Obj_gate g' \<and> conn_alloc g' = connid \<and>
    map_of (gt_players g') = (map_of (gt_players g))
      (connid \<mapsto> \<lparr>gp_login = False, gp_from = getid v a, gp_connid = connid, gp_send_sign = 0, gp_recv_sign = 0\<rparr>)"
proof -
  have lt: "q < length (ap_objs a)" and ne: "v \<noteq> q" using wired_lt [OF assms(2)] assms(3,4) by auto
  let ?g = "g\<lparr>conn_alloc := connid\<rparr>" and ?s = "s\<lparr>ws_conns := AList.update connid con (ws_conns s)\<rparr>"
  let ?b = "set_user q (Obj_gate ?g) a"
  let ?c = "set_user v (Obj_ws ?s) ?b"
  have call: "ctx_call_name_nolock (demo_exec send L E n) send (lib_aser L) ''.gate'' ''get_allocid'' None a =
      (Inr \<lparr>rr_status = 0, rr_res = lib_rser L (Ret_connid connid)\<rparr>, ?b)"
    by (simp add: wired_calls [OF assms(2)] demo_exec_def rpc_func_simps demo_body.simps [of _ _ _ n] gate_get_allocid_def gate_seg_def
        rpc_get_allocid_def assms(3,6))
  have ans: "connid_answer L (Inr \<lparr>rr_status = 0, rr_res = lib_rser L (Ret_connid connid)\<rparr>) = Inr connid"
    using assms(1) by (simp add: connid_answer_def rpc_as_def has_value_def lib_ok_def)
  have wc: "app_inv ?c" "gate_named ?c q"
    using assms(2,5) lt by (simp_all add: wired_def gate_named_def)
  obtain m a1 where m: "dispatch_pack_name (lib_ser L) v ''.gate'' (gate_msg_number Ws_start) (Pl_conn connid) ?c = (Inr (cx_session (ap_objs ?c ! v) + 1), a1)"
      "posts ?c a1" "mbox a1 q = mbox ?c q @ [m]" "carries m (getid v ?c) Ws_start (lib_ser L (Pl_conn connid))"
    using dispatch_gate [where ser = "lib_ser L" and p = v and t = Ws_start, OF wc assms(8)] by auto
  have c: "ws_connect (demo_exec send L E n) send L v con a = (connid, a1)"
    using assms(4,5,7) ne m(1)
    by (simp add: ws_connect_def call ans ws_handle_begin_def co_get_connid_def ws_publish_def pub_conn_start_def Let_def)
  have u: "cx_user (ap_objs a1 ! q) = Obj_gate ?g" "cx_user (ap_objs a1 ! v) = Obj_ws ?s" "length (ap_objs a1) = length (ap_objs a)"
    using m(2) lt assms(5) ne by (simp_all add: posts_def)
  have e: "evolves {q, v} a a1"
    by (intro evolves_trans [OF evolves_trans [OF evolves_set_user evolves_set_user] posts_evolves [OF m(2)]]) simp_all
  let ?g2 = "on_conn_start (getid v a) connid ?g"
  let ?a2 = "set_user q (Obj_gate ?g2) a1"
  have "gate_task_exec exec send L q (Task_start (getid v a) (Pl_conn connid)) a1 = (Inr (), ?a2)"
    by (simp add: gate_task_exec_def gate_seg_def u(1) gate_task_run_def)
  moreover have "gate_handle (lib_ser L) (lib_deser L) (lib_enc L) q m a1 = ([Task_start (getid v a) (Pl_conn connid)], a1)"
    using gate_starts_task(3) [OF assms(1) u(1) m(4) refl] by simp
  moreover have "evolves {q, v} a ?a2" by (rule evolves_trans [OF e evolves_set_user]) simp
  ultimately show ?thesis
    using c m(3) u lt ne assms(5) by (auto simp: on_conn_start_def update_conv' fun_eq_iff)
qed

text \<open>What the game sends to its players arrives at the gate in order.\<close>

lemma ntfs_published:
  "fold (\<lambda>(c, ntf) b. snd (write_notify ser enc p c (pack_ntf ntf) b)) outs a =
     fold (ws_publish ser p) (map (\<lambda>(c, ntf). Pub Gm_write (Pl_conn_data c (codec_pack enc (pack_ntf ntf)))) outs) a"
  by (induction outs arbitrary: a) (auto simp: ws_publish_def write_notify_def)

lemma posts_ws_publish: "posts a (fold (ws_publish ser p) outs a)"
proof -
  have "posts b (ws_publish ser p out b)" for out b
    using posts_dispatch_name by (simp add: ws_publish_def dispatch_pack_name_def split: ws_out.split)
  then show ?thesis by (induction outs arbitrary: a) (auto simp: posts_refl intro: posts_trans)
qed

text \<open>C20. A packet of a client that is not a login, from end to end: the task of the gate calls \<open>on_client\<close> of the game, the game handles the packet, and every notification
  it sends, in order, is a new message from the game in the mailbox of the gate that decodes to the connection and the notification. Only the state of the game changes.\<close>

theorem client_packet_end_to_end:
  assumes "lib_ok L" "wired a q w k" "cx_user (ap_objs a ! q) = Obj_gate g" "cx_user (ap_objs a ! k) = Obj_game G"
    and "carries m from Ws_msg (lib_ser L (Pl_conn_data connid data))" "packet_head L data = Inr (False, sn)"
    and "rpc_on_client (lib_dec L) (env_ndebug E) (env_cid E) (env_now E) connid data G = Inr (G', outs)"
    and "\<forall>(c, ntf) \<in> set outs. length (lib_ser L (Pl_conn_data c (codec_pack (lib_enc L) (pack_ntf ntf)))) < 2 ^ 32"
  shows "\<exists>task a' ms.
    gate_handle (lib_ser L) (lib_deser L) (lib_enc L) q m a = ([task], a) \<and>
    gate_task_exec (demo_exec send L E n) send L q task a = (Inr (), a') \<and> evolves {k} a a' \<and> cx_user (ap_objs a' ! k) = Obj_game G' \<and>
    mbox a' q = mbox a q @ ms \<and>
    list_all2 (\<lambda>(c, ntf) m. msg_from (get_msg m) = getid k a \<and>
        demo_unpack (lib_deser L) m = Some (Gm_write, Pl_conn_data c (codec_pack (lib_enc L) (pack_ntf ntf)))) outs ms"
proof -
  let ?pubs = "map (\<lambda>(c, ntf). Pub Gm_write (Pl_conn_data c (codec_pack (lib_enc L) (pack_ntf ntf)))) outs"
  let ?b = "set_user k (Obj_game G') a" and ?task = "Task_msg (Pl_conn_data connid data)"
  define a' where "a' = fold (ws_publish (lib_ser L) k) ?pubs ?b"
  have lt: "q < length (ap_objs a)" "k < length (ap_objs a)" using wired_lt [OF assms(2)] by simp_all
  have ne: "q \<noteq> k" using assms(3,4) by auto
  have inv: "app_inv ?b" "gate_named ?b q" "k < length (ap_objs ?b)"
    using assms(2) lt by (simp_all add: wired_def gate_named_def)
  have po: "posts ?b a'" unfolding a'_def by (rule posts_ws_publish)
  obtain ms where ms: "mbox a' q = mbox ?b q @ ms" "list_all2 (out_carried (lib_deser L) (getid k ?b)) ?pubs ms"
    using published [OF inv(1,2,3), of "lib_deser L" "lib_ser L" ?pubs] assms(1,8) by (fastforce simp: a'_def lib_ok_def)
  have "game_on_client L E k connid data a = (Inr (), a')"
    by (simp add: game_on_client_def assms(4,7) ntfs_published a'_def)
  then have "gate_task_exec (demo_exec send L E n) send L q ?task a = (Inr (), a')"
    by (simp add: gate_task_exec_def gate_conn_msg_def gate_seg_def assms(3,6) on_conn_msg_def set_user_same conn_guard_def
        wired_calls [OF assms(2)] exec_on_client [OF assms(1)])
  moreover have "gate_handle (lib_ser L) (lib_deser L) (lib_enc L) q m a = ([?task], a)"
    by (rule gate_starts_task(1) [OF assms(1,3,5) refl])
  moreover have "evolves {k} a a'" by (rule evolves_trans [OF evolves_set_user posts_evolves [OF po]]) simp
  moreover have "cx_user (ap_objs a' ! k) = Obj_game G'" using po lt by (simp add: posts_def)
  moreover have "list_all2 (\<lambda>(c, ntf) m. msg_from (get_msg m) = getid k a \<and>
        demo_unpack (lib_deser L) m = Some (Gm_write, Pl_conn_data c (codec_pack (lib_enc L) (pack_ntf ntf)))) outs ms"
    using ms(2) by (auto simp: list_all2_map1 split_beta elim!: list_all2_mono)
  ultimately show ?thesis using ms(1) lt by auto
qed

section \<open>A running demo\<close>

instance MsgHead_ext :: (countable) countable
  by (rule countable_classI [of "\<lambda>h. to_nat (hd_id h, hd_sn h, hd_rpcSnId h, MsgHead.more h)"]) simp

instance MsgLogin_ext :: (countable) countable
  by (rule countable_classI [of "\<lambda>m. to_nat (lg_head m, lg_name m, lg_pwd m, lg_uVer m, MsgLogin.more m)"]) simp

instance demo_arg :: countable
  by countable_datatype

instance login_error :: countable
  by countable_datatype

instance demo_ret :: countable
  by countable_datatype

text \<open>The demo of \<open>notify_app\<close> with the functions world and game register.\<close>

definition session_app :: demo_app where
  "session_app =
     register_rpc_func 0 ''gate_t::rpc_get_allocid'' True Rpc_get_allocid ''get_allocid''
      (register_rpc_func 3 ''game_t::rpc_on_client'' False Rpc_on_client ''on_client''
       (register_rpc_func 3 ''game_t::rpc_add_player'' False Rpc_add_player ''add_player''
         (register_rpc_func 2 ''world_t::rpc_player_login'' False Rpc_player_login ''player_login'' notify_app)))"

definition ann_login :: MsgLogin where
  "ann_login = \<lparr>lg_head = (head_of Id_Login)\<lparr>hd_sn := 1\<rparr>, lg_name = ''ann'', lg_pwd = [], lg_uVer = 8\<rparr>"

definition ann_world :: world_t where
  "ann_world = world_after 7 ''ann'' world_new"

definition session_objs :: "mp_obj list" where
  "session_objs = [pack_login ann_login, pack_client (Login_rsp Login_Ok [] 1), online_of ann_world]"

definition session_payloads :: "payload list" where
  "session_payloads =
     [Pl_conn_data 7 (enc_tab session_objs (pack_login ann_login)), Pl_conn_data 7 (enc_tab session_objs (pack_client (Login_rsp Login_Ok [] 1))),
      Pl_data (enc_tab session_objs (online_of ann_world)), Pl_conn 7]"

text \<open>Codes for the libraries, with short words for some packets and messages.\<close>

definition tab_lib :: "mp_obj list \<Rightarrow> payload list \<Rightarrow> demo_lib" where
  "tab_lib obs pls =
     \<lparr>lib_ser = enc_tab pls,
      lib_deser = (\<lambda>s. case dec_tab pls s of None \<Rightarrow> Inl ''struct_pack'' | Some pl \<Rightarrow> Inr pl),
      lib_aser = enc_tab [], lib_adeser = dec_tab [],
      lib_rser = enc_tab [], lib_rdeser = (\<lambda>s. case dec_tab [] s of None \<Rightarrow> Inl ''struct_pack'' | Some r \<Rightarrow> Inr r),
      lib_enc = enc_tab obs, lib_dec = dec_tab obs, lib_tyname = ''MsgLoginResponce''\<rparr>"

lemma tab_lib_ok: "lib_ok (tab_lib obs pls)"
  by (simp add: lib_ok_def tab_lib_def dec_enc_tab)

lemma tab_lib_sels [simp]: "lib_ser (tab_lib obs pls) = enc_tab pls" "lib_enc (tab_lib obs pls) = enc_tab obs" "lib_dec (tab_lib obs pls) = dec_tab obs"
  by (simp_all add: tab_lib_def)

lemma tab_short: "x \<in> set pls \<Longrightarrow> length pls < 2 ^ 32 \<Longrightarrow> length (enc_tab pls x) < 2 ^ 32"
  using enc_tab_length [of x pls] by simp

definition session_lib :: demo_lib where
  "session_lib = tab_lib session_objs session_payloads"

lemma session_lib_ok: "lib_ok session_lib"
  by (simp add: session_lib_def tab_lib_ok)

lemma session_short: "x \<in> set session_payloads \<Longrightarrow> length (lib_ser session_lib x) < 2 ^ 32"
  using tab_short [of x session_payloads] by (simp add: session_lib_def session_payloads_def del: pack_client.simps)

lemma session_app_frame:
  "ap_mgr session_app = ap_mgr notify_app" "ap_config session_app = ap_config notify_app" "ap_node session_app = ap_node notify_app"
  "length (ap_objs session_app) = 4"
  by (simp_all add: session_app_def register_rpc_func_def) (simp add: notify_app_def)

lemma session_app_objs:
  "i < 4 \<Longrightarrow> cx_user (ap_objs session_app ! i) = cx_user (ap_objs notify_app ! i) \<and> cx_id (ap_objs session_app ! i) = cx_id (ap_objs notify_app ! i) \<and>
     q_stop (cx_queue (ap_objs session_app ! i)) = q_stop (cx_queue (ap_objs notify_app ! i))"
  by (simp add: session_app_def register_rpc_func_def upd_obj_nth notify_app_def)

lemma session_app_named:
  "get_handle session_app ''.world'' = Inr (Some (cqy_handle 0x01000000, ''world''))" "find_name (ap_mgr notify_app) ''world'' = 0x01000003"
  "get_handle session_app ''.game'' = Inr (Some (cqy_handle 0x01000000, ''game''))" "find_name (ap_mgr notify_app) ''game'' = 0x01000004"
  "get_ctx (ap_mgr notify_app) 0x01000003 = Some 2" "get_ctx (ap_mgr notify_app) 0x01000004 = Some 3"
  by code_simp+

lemma session_app_routers:
  "map_of (cx_router (ap_objs session_app ! 0)) ''get_allocid'' = Some (True, Rpc_get_allocid)"
  "map_of (cx_router (ap_objs session_app ! 2)) ''player_login'' = Some (False, Rpc_player_login)"
  "map_of (cx_router (ap_objs session_app ! 3)) ''add_player'' = Some (False, Rpc_add_player)"
  "map_of (cx_router (ap_objs session_app ! 3)) ''on_client'' = Some (False, Rpc_on_client)"
  by code_simp+

lemma session_wired: "wired session_app 0 2 3"
proof -
  have "get_handle session_app = get_handle notify_app" by (rule get_handle_infos) (simp_all add: session_app_frame)
  moreover have "app_inv session_app"
    using notify_app_inv by (simp add: session_app_def register_rpc_func_def app_inv_upd_obj)
  ultimately show ?thesis
    using notify_gate_named session_app_named session_app_routers session_app_objs [of 0] notify_app_handles notify_app_facts(2)
    by (simp add: wired_def gate_named_def named_def session_app_frame)
qed

text \<open>The message of the web socket server with the packet of the login.\<close>

definition session_msg :: "demo_lib \<Rightarrow> gate_msg_type_t \<Rightarrow> payload \<Rightarrow> string" where
  "session_msg L t pl = msg_make 0x01000002 0x01000001 1 (gate_msg_number t) False (lib_ser L pl)"

lemma session_msg_carries: "length (lib_ser L pl) < 2 ^ 32 \<Longrightarrow> carries (session_msg L t pl) 0x01000002 t (lib_ser L pl)"
  using msg_buffer_make [of "lib_ser L pl"] by (simp add: session_msg_def carries_def)

lemma session_users:
  "cx_user (ap_objs session_app ! 0) = Obj_gate notify_gate" "cx_user (ap_objs session_app ! 1) = Obj_ws \<lparr>ws_server = True, ws_conns = [(7, 1)]\<rparr>"
  "cx_user (ap_objs session_app ! 2) = Obj_world world_new" "cx_user (ap_objs session_app ! 3) = Obj_game game_obj_new"
  using session_app_objs [of 0] session_app_objs [of 1] session_app_objs [of 2] session_app_objs [of 3]
  by (simp_all add: notify_app_users) (simp_all add: notify_app_def ctx_new_def)

lemma session_short_packets:
  "length (lib_ser session_lib (Pl_conn_data 7 (codec_pack (lib_enc session_lib) (pack_client (Login_rsp Login_Ok [] (gp_recv_sign notify_player + 1)))))) < 2 ^ 32"
  "length (lib_ser session_lib (Pl_data (codec_pack (lib_enc session_lib) (online_of (world_after 7 (lg_name ann_login) world_new))))) < 2 ^ 32"
  by (rule session_short; simp add: session_payloads_def session_lib_def codec_pack_def notify_player_def ann_world_def ann_login_def del: pack_client.simps)+

theorem login_end_to_end_witness:
  "\<exists>task a' m2 data G'.
     gate_handle (lib_ser session_lib) (lib_deser session_lib) (lib_enc session_lib) 0
       (session_msg session_lib Ws_msg (Pl_conn_data 7 (codec_pack (lib_enc session_lib) (pack_login ann_login)))) session_app = ([task], session_app) \<and>
     gate_task_exec (demo_exec (\<lambda>_ _ _ _. Pool_Error) session_lib \<lparr>env_ndebug = False, env_cid = cid_demo, env_now = 0\<rparr> 0) (\<lambda>_ _ _ _. Pool_Error)
       session_lib 0 task session_app = (Inr (), a') \<and>
     mbox a' 1 = mbox session_app 1 @ [m2] \<and> ws_handle (lib_deser session_lib) (\<lambda>_. True) 1 m2 a' = [Write_frame 1 data] \<and>
     cx_user (ap_objs a' ! 3) = Obj_game G' \<and> get_player_connid ''ann'' (sg_game G') = 7"
proof -
  have pl: "map_of (gt_players notify_gate) 7 = Some notify_player" "\<not> gp_login notify_player"
    using notify_links(4) by (simp_all add: notify_player_def)
  have lg: "hd_id (lg_head ann_login) = msg_id Id_Login" "hd_sn (lg_head ann_login) = gp_send_sign notify_player + 1" "lg_uVer ann_login \<le> nVerMax"
    by (simp_all add: ann_login_def head_of_def notify_player_def nVerMax_def)
  have ws: "get_ctx (ap_mgr session_app) (gp_from notify_player) = Some 1" "\<not> q_stop (cx_queue (ap_objs session_app ! 1))"
      "map_of (ws_conns \<lparr>ws_server = True, ws_conns = [(7, 1)]\<rparr>) 7 = Some (1 :: nat)"
    using notify_links(5) session_app_objs [of 1] notify_app_facts(7) by (simp_all add: session_app_frame)
  have m: "carries (session_msg session_lib Ws_msg (Pl_conn_data 7 (codec_pack (lib_enc session_lib) (pack_login ann_login)))) 0x01000002 Ws_msg
      (lib_ser session_lib (Pl_conn_data 7 (codec_pack (lib_enc session_lib) (pack_login ann_login))))"
    by (intro session_msg_carries session_short) (simp add: session_payloads_def session_lib_def codec_pack_def)
  show ?thesis
    using login_end_to_end [where alive = "\<lambda>_. True" and send = "\<lambda>_ _ _ _. Pool_Error" and n = 0
        and E = "\<lparr>env_ndebug = False, env_cid = cid_demo, env_now = 0\<rparr>",
        OF session_lib_ok session_wired session_users(1,3,4) pl lg ws(1,2) session_users(2) ws(3) TrueI m refl session_short_packets]
    by (auto simp: ann_login_def)
qed


theorem logout_end_to_end_witness:
  "\<exists>task a' mw mk.
     gate_handle (lib_ser session_lib) (lib_deser session_lib) (lib_enc session_lib) 0 (session_msg session_lib Ws_stop (Pl_conn 7)) session_app = ([task], session_app) \<and>
     gate_task_exec (demo_exec (\<lambda>_ _ _ _. Pool_Error) session_lib \<lparr>env_ndebug = False, env_cid = cid_demo, env_now = 0\<rparr> 0) (\<lambda>_ _ _ _. Pool_Error)
       session_lib 0 task session_app = (Inr (), a') \<and>
     mbox a' 2 = mbox session_app 2 @ [mw] \<and> mbox a' 3 = mbox session_app 3 @ [mk]"
proof -
  have ids: "get_ctx (ap_mgr session_app) (world_id notify_gate) = Some 2" "\<not> q_stop (cx_queue (ap_objs session_app ! 2))"
      "get_ctx (ap_mgr session_app) (game_id notify_gate) = Some 3" "\<not> q_stop (cx_queue (ap_objs session_app ! 3))"
    using session_app_named(5,6) notify_app_users(3,4) session_app_objs [of 2] session_app_objs [of 3]
    by (simp_all add: session_app_frame) (simp_all add: notify_app_def ctx_new_def queue_init_def)
  have pl: "Pl_conn 7 \<in> set session_payloads" by (simp add: session_payloads_def)
  show ?thesis
    using logout_end_to_end [where exec = "demo_exec (\<lambda>_ _ _ _. Pool_Error) session_lib \<lparr>env_ndebug = False, env_cid = cid_demo, env_now = 0\<rparr> 0"
        and send = "\<lambda>_ _ _ _. Pool_Error",
        OF session_lib_ok session_wired session_users(1,3,4) ids session_msg_carries [OF session_short [OF pl]] session_short [OF pl]]
    by blast
qed

text \<open>A player who has joined asks for the training scene: the packet, what the game sends then, and codes with short words for this.\<close>

definition ann_enter :: mp_obj where
  "ann_enter = pack_enter \<lparr>es_head = head_of Id_EnterSingleScene, es_id = 1\<rparr>"

definition enter_outs :: "scene_out list" where
  "enter_outs = (7, MsgEnterSpace 1) # map (Pair 7) (scene1_shown ''ann'' 0)"

definition enter_lib :: demo_lib where
  "enter_lib = tab_lib [] (Pl_conn_data 7 (enc_tab [] ann_enter) # map (\<lambda>(c, ntf). Pl_conn_data c (enc_tab [] (pack_ntf ntf))) enter_outs)"

definition enter_env :: demo_env where
  "enter_env = \<lparr>env_ndebug = False, env_cid = cid_demo, env_now = 0\<rparr>"

lemma ann_enters:
  "\<exists>G'. rpc_on_client (lib_dec enter_lib) (env_ndebug enter_env) (env_cid enter_env) (env_now enter_env) 7 (enc_tab [] ann_enter) demo_game =
     Inr (G', enter_outs)"
proof -
  have n: "0 + 1 < (2 ^ 32 :: nat)" by simp
  have new: "map_of (scene1_map demo_game) ''ann'' = None" by (simp add: demo_game_tables)
  have c: "get_player_connid ''ann'' (sg_game demo_game) = 7" by (simp add: get_player_connid_def demo_game_tables(2))
  obtain s where "on_recv_enter False cid_demo 0 7 1 demo_game =
       Inr (demo_game\<lparr>scene1_map := AList.update ''ann'' s (AList.update ''ann'' (scene_new train_config 0) (scene1_map demo_game))\<rparr>, enter_outs)"
    using first_enter_ok [OF inj_cid_demo n demo_game_tables(1,3) new, of False 0] unfolding c enter_outs_def by metis
  moreover have "as_enter ann_enter = Inr \<lparr>es_head = head_of Id_EnterSingleScene, es_id = 1\<rparr>" "codec_head ann_enter = Inr (head_of Id_EnterSingleScene)"
    by (simp_all add: ann_enter_def pack_enter_def as_enter_def member_def)
  ultimately show ?thesis
    by (simp add: rpc_on_client_def enter_lib_def enter_env_def codec_unpack_def dec_enc_tab swallow_def) (simp add: head_of_def)
qed

lemma enter_short:
  "length (lib_ser enter_lib (Pl_conn_data 7 (enc_tab [] ann_enter))) < 2 ^ 32"
  "\<forall>(c, ntf) \<in> set enter_outs. length (lib_ser enter_lib (Pl_conn_data c (codec_pack (lib_enc enter_lib) (pack_ntf ntf)))) < 2 ^ 32"
proof -
  have len: "length (Pl_conn_data 7 (enc_tab [] ann_enter) # map (\<lambda>(c, ntf). Pl_conn_data c (enc_tab [] (pack_ntf ntf))) enter_outs) < 2 ^ 32"
    by (simp add: enter_outs_def scene1_shown_def)
  show "length (lib_ser enter_lib (Pl_conn_data 7 (enc_tab [] ann_enter))) < 2 ^ 32"
    unfolding enter_lib_def tab_lib_sels by (rule tab_short [OF _ len]) simp
  show "\<forall>(c, ntf) \<in> set enter_outs. length (lib_ser enter_lib (Pl_conn_data c (codec_pack (lib_enc enter_lib) (pack_ntf ntf)))) < 2 ^ 32"
    unfolding enter_lib_def tab_lib_sels codec_pack_def by (intro ballI case_prodI2 tab_short [OF _ len]) force
qed

theorem client_packet_end_to_end_witness:
  "\<exists>task a' ms.
     gate_handle (lib_ser enter_lib) (lib_deser enter_lib) (lib_enc enter_lib) 0
       (session_msg enter_lib Ws_msg (Pl_conn_data 7 (enc_tab [] ann_enter))) (set_user 3 (Obj_game demo_game) session_app) =
       ([task], set_user 3 (Obj_game demo_game) session_app) \<and>
     gate_task_exec (demo_exec (\<lambda>_ _ _ _. Pool_Error) enter_lib enter_env 0) (\<lambda>_ _ _ _. Pool_Error) enter_lib 0 task (set_user 3 (Obj_game demo_game) session_app) = (Inr (), a') \<and>
     mbox a' 0 = mbox (set_user 3 (Obj_game demo_game) session_app) 0 @ ms \<and> length ms = length enter_outs"
proof -
  let ?a = "set_user 3 (Obj_game demo_game) session_app"
  obtain G' where G': "rpc_on_client (lib_dec enter_lib) (env_ndebug enter_env) (env_cid enter_env) (env_now enter_env) 7 (enc_tab [] ann_enter) demo_game =
     Inr (G', enter_outs)" using ann_enters by blast
  have w: "wired ?a 0 2 3" using wired_evolves [OF evolves_set_user session_wired, of 3 UNIV] by simp
  have u: "cx_user (ap_objs ?a ! 0) = Obj_gate notify_gate" "cx_user (ap_objs ?a ! 3) = Obj_game demo_game"
    using session_users(1) by (simp_all add: session_app_frame)
  have h: "packet_head enter_lib (enc_tab [] ann_enter) = Inr (False, 0)"
    by (simp add: packet_head_def enter_lib_def codec_unpack_def dec_enc_tab ann_enter_def pack_enter_def) (simp add: head_of_def)
  have ok: "lib_ok enter_lib" by (simp add: enter_lib_def tab_lib_ok)
  show ?thesis
    using client_packet_end_to_end [where E = enter_env and n = 0 and send = "\<lambda>_ _ _ _. Pool_Error",
        OF ok w u session_msg_carries [OF enter_short(1)] h G' enter_short(2)]
    by (elim exE conjE, intro exI conjI) (assumption | drule list_all2_lengthD, simp)+
qed


theorem connect_end_to_end_witness:
  "\<exists>a1 m task a2.
     ws_connect (demo_exec (\<lambda>_ _ _ _. Pool_Error) (tab_lib [] [Pl_conn 8]) enter_env 0) (\<lambda>_ _ _ _. Pool_Error) (tab_lib [] [Pl_conn 8]) 1 2 session_app = (8, a1) \<and>
     mbox a1 0 = mbox session_app 0 @ [m] \<and>
     gate_handle (lib_ser (tab_lib [] [Pl_conn 8])) (lib_deser (tab_lib [] [Pl_conn 8])) (lib_enc (tab_lib [] [Pl_conn 8])) 0 m a1 = ([task], a1) \<and>
     gate_task_exec (\<lambda>_ _ _ _ b. (Inl Bad_Access, b)) (\<lambda>_ _ _ _. Pool_Error) (tab_lib [] [Pl_conn 8]) 0 task a1 = (Inr (), a2)"
proof -
  have "8 = conn_alloc notify_gate + 1" "(8 :: u64) \<noteq> 0" "length (lib_ser (tab_lib [] [Pl_conn 8]) (Pl_conn 8)) < 2 ^ 32" "1 < length (ap_objs session_app)"
    using tab_short [of "Pl_conn 8" "[Pl_conn 8]"] by (simp_all add: notify_gate_def on_conn_start_def session_app_frame)
  then show ?thesis
    using connect_end_to_end [where send = "\<lambda>_ _ _ _. Pool_Error" and exec = "\<lambda>_ _ _ _ b. (Inl Bad_Access, b)" and n = 0 and E = enter_env and con = 2,
        OF tab_lib_ok session_wired session_users(1,2)] by blast
qed

end
