(* ===== verification/Game_Run.thy ===== *)
theory Game_Run
  imports Game_Session
begin

text \<open>
  The demo as a whole (\<open>example/game_demo.cpp\<close>): from \<open>main\<close> on, under every sequence of connections, frames, messages and tasks, the contexts go on serving. This is an
  invariant over the coroutines of \<open>Game_Session\<close>; the safety of the scenes is that of \<open>Game_Scene\<close>.
\<close>

section \<open>What the gate keeps\<close>

text \<open>Every entry of the table of connections carries its own number; apart from \<open>rpc_get_allocid\<close>, no function of the gate changes the counter or the ids of
  world and game.\<close>

definition keyed :: "gate_t \<Rightarrow> bool" where
  "keyed g \<longleftrightarrow> (\<forall>c p. map_of (gt_players g) c = Some p \<longrightarrow> gp_connid p = c)"

definition gate_keeps :: "gate_t \<Rightarrow> gate_t \<Rightarrow> bool" where
  "gate_keeps g g' \<longleftrightarrow>
     conn_alloc g' = conn_alloc g \<and> world_id g' = world_id g \<and> game_id g' = game_id g \<and> (keyed g \<longrightarrow> keyed g')"

lemma gate_keeps_refl [simp]: "gate_keeps g g"
  by (simp add: gate_keeps_def)

lemma gate_keeps_trans: "gate_keeps g g1 \<Longrightarrow> gate_keeps g1 g2 \<Longrightarrow> gate_keeps g g2"
  by (simp add: gate_keeps_def)

lemma gate_keeps_update:
  "map_of (gt_players g) c = Some p \<Longrightarrow> gp_connid p' = gp_connid p \<Longrightarrow> gate_keeps g (g\<lparr>gt_players := AList.update c p' (gt_players g)\<rparr>)"
  by (simp add: gate_keeps_def keyed_def update_conv')

lemma write_rsp_keeps: "gate_keeps g (fst (write_rsp c mk g))"
  by (auto simp: write_rsp_def Let_def gate_keeps_update split: option.split)

lemma relay_keeps: "gate_keeps g (fst (relay fr c str g))"
  by (simp add: relay_def write_rsp_keeps)

lemma relay_all_keeps: "gate_keeps g (fst (relay_all fr cs str g))"
proof (induction cs arbitrary: g)
  case (Cons c cs)
  from gate_keeps_trans [OF relay_keeps Cons] show ?case by (simp add: split_beta)
qed simp

lemma gate_on_msg_keeps: "gate_keeps g (fst (snd (gate_on_msg fr t pl g)))"
  by (simp add: gate_on_msg_def relay_keeps relay_all_keeps split: gate_msg_type_t.split payload.split)

lemma co_login_begin_keeps: "gate_keeps g (fst (snd (co_login_begin c sn login g)))"
proof (cases "map_of (gt_players g) c")
  case (Some p)
  let ?g = "\<lambda>n. g\<lparr>gt_players := AList.update c (p\<lparr>gp_send_sign := n\<rparr>) (gt_players g)\<rparr>"
  have "gate_keeps g (?g n)" "gate_keeps g (fst (write_rsp c mk (?g n)))" for mk n
    using gate_keeps_update [OF Some] gate_keeps_trans [OF _ write_rsp_keeps] by simp_all
  then show ?thesis
    using Some by (simp add: co_login_begin_def Let_def write_rsp_keeps split_beta split: sum.split)
qed (simp add: co_login_begin_def)

lemma on_conn_msg_keeps: "gate_keeps g (fst (snd (on_conn_msg c head login g)))"
  using co_login_begin_keeps [of g c _ login]
  by (auto simp: on_conn_msg_def conn_catch_def split_beta split: sum.splits login_step.splits)

lemma gate_task_run_keeps: "gate_keeps g (fst (snd (gate_task_run head login task g)))"
proof -
  have "gate_keeps g (on_conn_start fr c g)" "gate_keeps g (fst (on_conn_stop c g))" for fr c
    by (auto simp: gate_keeps_def keyed_def on_conn_start_def on_conn_stop_def update_conv' delete_conv' split: if_splits)
  then show ?thesis
    by (simp add: gate_task_run_def on_conn_msg_keeps split: gate_task.split payload.split)
qed

lemma co_login_end_keeps: "gate_keeps g (fst (snd (co_login_end c rsp g)))"
proof (cases rsp)
  case (Inr x)
  obtain err tip where x: "x = (err, tip)" by fastforce
  let ?g = "fst (write_rsp c (Login_rsp err tip) g)"
  have "gate_keeps g (?g\<lparr>gt_players := AList.update c (p\<lparr>gp_login := True\<rparr>) (gt_players ?g)\<rparr>)" if "map_of (gt_players ?g) c = Some p" for p
    by (rule gate_keeps_trans [OF write_rsp_keeps gate_keeps_update [OF that]]) simp
  then show ?thesis
    using Inr x write_rsp_keeps by (auto simp: co_login_end_def split_beta split: option.split)
qed (simp add: co_login_end_def)

text \<open>After an answer \<open>Ok\<close> the entry is still there, as long as nobody came in between.\<close>

lemma co_login_end_entry:
  assumes "map_of (gt_players g) c \<noteq> None"
  shows "fst (co_login_end c (Inr (Login_Ok, tip)) g) = Inr True"
  using assms by (auto simp: co_login_end_def write_rsp_def Let_def update_conv')

text \<open>\<open>co_login\<close> asks the world only about a connection the gate knows.\<close>

lemma asks_known:
  assumes "fst (on_conn_msg c head login g) = Next_world c' nm"
  shows "c' = c" "map_of (gt_players (fst (snd (on_conn_msg c head login g)))) c \<noteq> None" "\<exists>x. login = Inr x"
  using assms
  by (auto simp: on_conn_msg_def conn_catch_def co_login_begin_def write_rsp_def close_con_def Let_def update_conv'
      split: sum.splits option.splits login_step.splits if_splits prod.splits)

section \<open>Packets\<close>

text \<open>Decoding a packet gives a value or throws; it does not read a member that the packet was too short to set.\<close>

definition decodes :: "'a result \<Rightarrow> bool" where
  "decodes r \<longleftrightarrow> (case r of Inl e \<Rightarrow> std_exception e | Inr _ \<Rightarrow> True)"

text \<open>Packets that are safe to handle: whatever msgpack makes of the bytes, the head and, for the ids whose packets have members without initializers, the
  packet itself can be decoded in this sense. Garbage is safe; an array that ends before such a member is not (\<open>short_packet_indeterminate\<close>).\<close>

definition packet_complete :: "demo_lib \<Rightarrow> string \<Rightarrow> bool" where
  "packet_complete L data \<longleftrightarrow>
     (case lib_dec L data of
        None \<Rightarrow> True
      | Some ob \<Rightarrow>
          decodes (codec_head ob) \<and>
          (case codec_head ob of
             Inl _ \<Rightarrow> True
           | Inr h \<Rightarrow> (hd_id h = msg_id Id_Login \<longrightarrow> decodes (as_login ob)) \<and> (hd_id h = msg_id Id_EnterSingleScene \<longrightarrow> decodes (as_enter ob))))"

lemma swallow_std: "std_exception e \<Longrightarrow> swallow G (Inl e) = Inr (G, [])"
  by (auto simp: swallow_def std_exception_def split: cpp_error.splits)

lemma plot_end_head: "codec_head ob = Inr h \<Longrightarrow> hd_id h = msg_id Id_PlotEnd \<Longrightarrow> as_plot_end ob = Inr h"
  by (cases ob) (auto simp: codec_head_def as_plot_end_def member_def msg_id_def split: if_splits)

lemma rpc_on_client_cases:
  assumes "packet_complete L data"
  shows "rpc_on_client (lib_dec L) ndebug cid now connid data G \<in>
    insert (Inr (G, [])) (insert (scene_step ndebug cid (Ev_plot connid) G) (range (\<lambda>scid. scene_step ndebug cid (Ev_enter now connid scid) G)))"
proof (cases "lib_dec L data")
  case None
  then show ?thesis by (simp add: rpc_on_client_def codec_unpack_def swallow_def)
next
  case (Some ob)
  note c = assms [unfolded packet_complete_def Some option.case]
  show ?thesis
  proof (cases "codec_head ob")
    case (Inl e)
    with c have "std_exception e" by (simp add: decodes_def)
    then show ?thesis using Inl Some by (simp add: rpc_on_client_def codec_unpack_def swallow_std)
  next
    case (Inr h)
    consider (enter) "hd_id h = msg_id Id_EnterSingleScene" | (plot) "hd_id h \<noteq> msg_id Id_EnterSingleScene" "hd_id h = msg_id Id_PlotEnd"
      | (other) "hd_id h \<notin> {msg_id Id_EnterSingleScene, msg_id Id_PlotEnd}" by auto
    then show ?thesis
    proof cases
      case enter
      with c Inr have "decodes (as_enter ob)" by simp
      with enter Inr Some show ?thesis
        by (cases "as_enter ob") (auto simp: rpc_on_client_def codec_unpack_def scene_step_def decodes_def swallow_std)
    next
      case plot
      with Inr Some plot_end_head [OF Inr] show ?thesis
        by (simp add: rpc_on_client_def codec_unpack_def scene_step_def)
    qed (use Inr Some in \<open>simp add: rpc_on_client_def codec_unpack_def swallow_def\<close>)
  qed
qed

lemma rpc_on_client_safe:
  assumes "inj cid" "n + 1 < 2 ^ 32" "scenes_ok cid n G" "packet_complete L data"
  shows "case rpc_on_client (lib_dec L) ndebug cid now connid data G of Inl e \<Rightarrow> \<not> ndebug \<and> e = Assert_Failed | Inr (G', _) \<Rightarrow> scenes_ok cid (n + 1) G'"
  using rpc_on_client_cases [OF assms(4), of ndebug cid now connid G] scenes_ok_mono [OF assms(3)]
    scene_step_safe [OF assms(1-3), of ndebug] by auto

section \<open>A serving demo\<close>

text \<open>The standing assumptions of the theorems of \<open>Game_Session\<close>, for gate \<open>q\<close>, world \<open>w\<close>, game \<open>k\<close> and web socket server \<open>v\<close>: the contexts are registered,
  of the right class, receive, and find each other. \<open>c\<close> connection numbers have been given out; the scenes of the game are safe after \<open>n\<close> events.\<close>

definition serving :: "(comp_type \<Rightarrow> nat) \<Rightarrow> nat \<Rightarrow> u64 \<Rightarrow> demo_app \<Rightarrow> nat \<Rightarrow> nat \<Rightarrow> nat \<Rightarrow> nat \<Rightarrow> bool" where
  "serving cid n c a q w k v \<longleftrightarrow>
     wired a q w k \<and>
     (\<exists>g. cx_user (ap_objs a ! q) = Obj_gate g \<and> conn_alloc g = c \<and> keyed g \<and>
        get_ctx (ap_mgr a) (world_id g) = Some w \<and> get_ctx (ap_mgr a) (game_id g) = Some k) \<and>
     (\<exists>W. cx_user (ap_objs a ! w) = Obj_world W) \<and>
     (\<exists>G. cx_user (ap_objs a ! k) = Obj_game G \<and> scenes_ok cid n G) \<and>
     (\<exists>s. cx_user (ap_objs a ! v) = Obj_ws s) \<and> get_ctx (ap_mgr a) (getid v a) = Some v \<and>
     \<not> q_stop (cx_queue (ap_objs a ! w)) \<and> \<not> q_stop (cx_queue (ap_objs a ! k)) \<and> \<not> q_stop (cx_queue (ap_objs a ! v))"

lemma serving_lt:
  assumes "serving cid n c a q w k v"
  shows "q < length (ap_objs a)" "w < length (ap_objs a)" "k < length (ap_objs a)" "v < length (ap_objs a)"
  using assms wired_lt [of a q w k] app_inv_lt [of a "getid v a" v] by (auto simp: serving_def wired_def)

lemma serving_ne:
  assumes "serving cid n c a q w k v"
  shows "q \<noteq> w" "q \<noteq> k" "q \<noteq> v" "w \<noteq> k" "w \<noteq> v" "k \<noteq> v"
  using assms by (auto simp: serving_def)

lemma serving_mono: "serving cid n c a q w k v \<Longrightarrow> serving cid (Suc n) c a q w k v"
  using scenes_ok_mono by (auto simp: serving_def)

lemma serving_evolves:
  assumes "serving cid n c a q w k v" "evolves S a b"
    and "\<exists>g. cx_user (ap_objs b ! q) = Obj_gate g \<and> conn_alloc g = c' \<and> keyed g \<and>
        get_ctx (ap_mgr a) (world_id g) = Some w \<and> get_ctx (ap_mgr a) (game_id g) = Some k"
      "\<exists>W. cx_user (ap_objs b ! w) = Obj_world W" "\<exists>G. cx_user (ap_objs b ! k) = Obj_game G \<and> scenes_ok cid n' G"
      "\<exists>s. cx_user (ap_objs b ! v) = Obj_ws s"
  shows "serving cid n' c' b q w k v"
  using assms(1) wired_evolves [OF assms(2)] assms(2-) serving_lt [OF assms(1)] by (simp add: serving_def evolves_def getid_def)

text \<open>Sending keeps a demo serving, and so does writing back the state of a context.\<close>

lemma serving_posts:
  assumes "serving cid n c a q w k v" "posts a b"
  shows "serving cid n c b q w k v"
proof (rule serving_evolves [OF assms(1) posts_evolves [OF assms(2)]])
  have "cx_user (ap_objs b ! i) = cx_user (ap_objs a ! i)" if "i \<in> {q, w, k, v}" for i
    using that assms(2) serving_lt [OF assms(1)] by (auto simp: posts_def)
  then show "\<exists>g. cx_user (ap_objs b ! q) = Obj_gate g \<and> conn_alloc g = c \<and> keyed g \<and>
        get_ctx (ap_mgr a) (world_id g) = Some w \<and> get_ctx (ap_mgr a) (game_id g) = Some k"
      "\<exists>W. cx_user (ap_objs b ! w) = Obj_world W" "\<exists>G. cx_user (ap_objs b ! k) = Obj_game G \<and> scenes_ok cid n G"
      "\<exists>s. cx_user (ap_objs b ! v) = Obj_ws s"
    using assms(1) by (simp_all add: serving_def)
qed

lemma serving_set:
  assumes "serving cid n c a q w k v"
  shows "cx_user (ap_objs a ! q) = Obj_gate g \<Longrightarrow> gate_keeps g g' \<Longrightarrow> serving cid n c (set_user q (Obj_gate g') a) q w k v"
    "cx_user (ap_objs a ! q) = Obj_gate g \<Longrightarrow> serving cid n c' (set_user q (Obj_gate (g\<lparr>conn_alloc := c'\<rparr>)) a) q w k v"
    "serving cid n c (set_user w (Obj_world W) a) q w k v"
    "scenes_ok cid m G \<Longrightarrow> serving cid m c (set_user k (Obj_game G) a) q w k v"
    "serving cid n c (set_user v (Obj_ws s) a) q w k v"
proof -
  note lt = serving_lt [OF assms] and ne = serving_ne [OF assms] serving_ne [OF assms, symmetric]
  note ev = serving_evolves [OF assms evolves_set_user [OF UNIV_I]]
  show "serving cid n c (set_user q (Obj_gate g') a) q w k v" if "cx_user (ap_objs a ! q) = Obj_gate g" "gate_keeps g g'"
    by (rule ev) (use that lt ne assms in \<open>simp_all add: serving_def gate_keeps_def\<close>)
  show "serving cid n c' (set_user q (Obj_gate (g\<lparr>conn_alloc := c'\<rparr>)) a) q w k v" if "cx_user (ap_objs a ! q) = Obj_gate g"
    by (rule ev) (use that lt ne assms in \<open>simp_all add: serving_def keyed_def\<close>)
  show "serving cid n c (set_user w (Obj_world W) a) q w k v"
    by (rule ev) (use lt ne assms in \<open>simp_all add: serving_def\<close>)
  show "serving cid m c (set_user k (Obj_game G) a) q w k v" if "scenes_ok cid m G"
    by (rule ev) (use that lt ne assms in \<open>simp_all add: serving_def\<close>)
  show "serving cid n c (set_user v (Obj_ws s) a) q w k v"
    by (rule ev) (use lt ne assms in \<open>simp_all add: serving_def\<close>)
qed

lemma serving_users:
  assumes "serving cid n c a q w k v"
  obtains g W G s where "cx_user (ap_objs a ! q) = Obj_gate g" "conn_alloc g = c" "cx_user (ap_objs a ! w) = Obj_world W"
    "cx_user (ap_objs a ! k) = Obj_game G" "scenes_ok cid n G" "cx_user (ap_objs a ! v) = Obj_ws s" "wired a q w k"
  using assms by (auto simp: serving_def)

section \<open>Coroutines keep the demo serving\<close>

lemma gate_seg_serving:
  assumes "serving cid n c a q w k v" "\<And>g. gate_keeps g (fst (snd (f g)))"
  shows "\<exists>b g. gate_seg L q f a = (Inr (fst (f g)), b) \<and> serving cid n c b q w k v \<and>
    cx_user (ap_objs a ! q) = Obj_gate g \<and> cx_user (ap_objs b ! q) = Obj_gate (fst (snd (f g)))"
proof -
  obtain g where g: "cx_user (ap_objs a ! q) = Obj_gate g" by (rule serving_users [OF assms(1)])
  let ?b = "set_user q (Obj_gate (fst (snd (f g)))) a"
  have po: "posts ?b (fold (gate_send (lib_ser L) (lib_enc L) q) (snd (snd (f g))) ?b)" by (rule fold_gate_send_posts)
  have "serving cid n c ?b q w k v" by (rule serving_set(1) [OF assms(1) g assms(2)])
  from serving_posts [OF this po] show ?thesis
    using g po serving_lt(1) [OF assms(1)] by (simp add: gate_seg_def split_beta posts_def)
qed

lemma call_world_serving:
  assumes "lib_ok L" "serving cid n c a q w k v"
  shows "\<exists>b. ctx_call_name_nolock (demo_exec send L E d) send (lib_aser L) ''.world'' ''player_login'' (Some (Arg_login connid m)) a =
      (Inr \<lparr>rr_status = 0, rr_res = lib_rser L (Ret_login Login_Ok [])\<rparr>, b) \<and>
    serving cid n c b q w k v \<and> cx_user (ap_objs b ! q) = cx_user (ap_objs a ! q)"
proof -
  obtain W where W: "cx_user (ap_objs a ! w) = Obj_world W" and wi: "wired a q w k" by (rule serving_users [OF assms(2)])
  let ?a = "set_user w (Obj_world (world_after connid (lg_name m) W)) a"
  obtain outs where r: "rpc_player_login connid (lg_name m) W = (Login_Ok, world_after connid (lg_name m) W, outs)"
    using rpc_player_login_eq by blast
  let ?b = "fold (world_send L w) outs ?a"
  have po: "posts ?a ?b" by (rule posts_world_sends)
  have "world_player_login L w connid m a = (Inr (Ret_login Login_Ok []), ?b)" by (simp add: world_player_login_def W r)
  then have "ctx_call_name_nolock (demo_exec send L E d) send (lib_aser L) ''.world'' ''player_login'' (Some (Arg_login connid m)) a =
      (Inr \<lparr>rr_status = 0, rr_res = lib_rser L (Ret_login Login_Ok [])\<rparr>, ?b)"
    by (simp only: wired_calls [OF wi] exec_player_login [OF assms(1)])
  then show ?thesis
    using serving_posts [OF serving_set(3) [OF assms(2)] po] po serving_lt [OF assms(2)] serving_ne(1) [OF assms(2)]
    by (auto simp: posts_def)
qed

lemma call_add_serving:
  assumes "lib_ok L" "serving cid n c a q w k v"
  shows "\<exists>b. ctx_call_name_nolock (demo_exec send L E d) send (lib_aser L) ''.game'' ''add_player'' (Some (Arg_login connid m)) a =
      (Inr \<lparr>rr_status = 0, rr_res = []\<rparr>, b) \<and> serving cid n c b q w k v"
proof -
  obtain G where G: "cx_user (ap_objs a ! k) = Obj_game G" "scenes_ok cid n G" and wi: "wired a q w k" by (rule serving_users [OF assms(2)])
  let ?G = "G\<lparr>sg_game := rpc_add_player connid (lg_name m) (sg_game G)\<rparr>"
  have "game_add_player k connid m a = (Inr (), set_user k (Obj_game ?G) a)" by (simp add: game_add_player_def G)
  moreover have "serving cid n c (set_user k (Obj_game ?G) a) q w k v"
    by (rule serving_set(4) [OF assms(2)]) (use G(2) in \<open>simp add: scenes_ok_def\<close>)
  ultimately show ?thesis by (simp only: wired_calls [OF wi] exec_add_player [OF assms(1)]) blast
qed

lemma call_client_serving:
  assumes "lib_ok L" "serving (env_cid E) n c a q w k v" "inj (env_cid E)" "n + 1 < 2 ^ 32" "packet_complete L data"
  shows "case ctx_call_name_nolock (demo_exec send L E d) send (lib_aser L) ''.game'' ''on_client'' (Some (Arg_client connid data)) a of
      (Inl e, b) \<Rightarrow> \<not> env_ndebug E \<and> e = Assert_Failed
    | (Inr _, b) \<Rightarrow> serving (env_cid E) (n + 1) c b q w k v"
proof -
  obtain G where G: "cx_user (ap_objs a ! k) = Obj_game G" "scenes_ok (env_cid E) n G" and wi: "wired a q w k"
    by (rule serving_users [OF assms(2)])
  note safe = rpc_on_client_safe [OF assms(3,4) G(2) assms(5), of "env_ndebug E" "env_now E" connid]
  show ?thesis
  proof (cases "rpc_on_client (lib_dec L) (env_ndebug E) (env_cid E) (env_now E) connid data G")
    case (Inl e)
    with safe show ?thesis by (simp add: wired_calls [OF wi] exec_on_client [OF assms(1)] game_on_client_def G(1))
  next
    case (Inr x)
    obtain G' outs where x: "x = (G', outs)" by fastforce
    with Inr safe have "serving (env_cid E) (n + 1) c (set_user k (Obj_game G') a) q w k v" by (intro serving_set(4) [OF assms(2)]) simp
    from serving_posts [OF this posts_ws_publish] Inr x show ?thesis
      by (simp add: wired_calls [OF wi] exec_on_client [OF assms(1)] game_on_client_def G(1) ntfs_published)
  qed
qed

lemma login_rest_serving:
  assumes "lib_ok L" "serving cid n c a q w k v" "cx_user (ap_objs a ! q) = Obj_gate g" "map_of (gt_players g) connid \<noteq> None"
  shows "\<exists>b. gate_login_rest (demo_exec send L E d) send L q connid m a = (Inr (), b) \<and> serving cid n c b q w k v"
proof -
  obtain a1 where a1: "ctx_call_name_nolock (demo_exec send L E d) send (lib_aser L) ''.world'' ''player_login'' (Some (Arg_login connid m)) a =
      (Inr \<lparr>rr_status = 0, rr_res = lib_rser L (Ret_login Login_Ok [])\<rparr>, a1)" "serving cid n c a1 q w k v" "cx_user (ap_objs a1 ! q) = Obj_gate g"
    using call_world_serving [OF assms(1,2)] assms(3) by metis
  obtain a2 where a2: "gate_seg L q (co_login_end connid (Inr (Login_Ok, []))) a1 = (Inr (Inr True), a2)" "serving cid n c a2 q w k v"
    using gate_seg_serving [OF a1(2), of "co_login_end connid (Inr (Login_Ok, []))" L] co_login_end_keeps co_login_end_entry [OF assms(4)] a1(3)
    by fastforce
  obtain a3 where "ctx_call_name_nolock (demo_exec send L E d) send (lib_aser L) ''.game'' ''add_player'' (Some (Arg_login connid m)) a2 =
      (Inr \<lparr>rr_status = 0, rr_res = []\<rparr>, a3)" "serving cid n c a3 q w k v"
    using call_add_serving [OF assms(1) a2(2)] by blast
  then show ?thesis by (simp add: gate_login_rest_def a1(1) login_answer_ok [OF assms(1)] a2(1))
qed

lemma complete_head: "packet_complete L data \<Longrightarrow> packet_head L data = Inl e \<Longrightarrow> std_exception e"
  by (auto simp: packet_complete_def packet_head_def codec_unpack_def decodes_def bind_result_def std_exception_def
      split: option.splits sum.splits)

lemma complete_login:
  "packet_complete L data \<Longrightarrow> packet_head L data = Inr (True, sn) \<Longrightarrow> login_version (packet_login L data) = Inl e \<Longrightarrow> std_exception e"
  by (auto simp: packet_complete_def packet_head_def packet_login_def login_version_def codec_unpack_def decodes_def bind_result_def
      split: option.splits sum.splits)

lemma complete_not_broken:
  assumes "packet_complete L data"
  shows "fst (on_conn_msg connid (packet_head L data) (login_version (packet_login L data)) g) \<noteq> Next_broken e"
  using complete_head [OF assms] complete_login [OF assms]
  by (auto simp: on_conn_msg_def conn_catch_def co_login_begin_def write_rsp_def Let_def std_exception_def
      split: sum.splits option.splits login_step.splits if_splits prod.splits)

lemma conn_msg_serving:
  assumes "lib_ok L" "serving (env_cid E) n c a q w k v" "inj (env_cid E)" "n + 1 < 2 ^ 32" "packet_complete L data"
  shows "case gate_conn_msg (demo_exec send L E d) send L q connid data a of
      (Inl e, b) \<Rightarrow> \<not> env_ndebug E \<and> e = Assert_Failed
    | (Inr _, b) \<Rightarrow> serving (env_cid E) (n + 1) c b q w k v"
proof -
  let ?f = "on_conn_msg connid (packet_head L data) (login_version (packet_login L data))"
  obtain a1 g where s: "gate_seg L q ?f a = (Inr (fst (?f g)), a1)" "serving (env_cid E) n c a1 q w k v"
      "cx_user (ap_objs a1 ! q) = Obj_gate (fst (snd (?f g)))"
    using gate_seg_serving [OF assms(2), of ?f L] on_conn_msg_keeps by blast
  show ?thesis
  proof (cases "fst (?f g)")
    case Next_done
    then show ?thesis using s serving_mono by (simp add: gate_conn_msg_def)
  next
    case (Next_broken e)
    then show ?thesis using complete_not_broken [OF assms(5)] by simp
  next
    case (Next_game c')
    then show ?thesis
      using s(1) call_client_serving [OF assms(1) s(2) assms(3-5), of send d c']
      by (auto simp: gate_conn_msg_def conn_guard_def std_exception_def split: prod.splits sum.splits)
  next
    case (Next_world c' nm)
    note known = asks_known [OF Next_world]
    obtain login where l: "packet_login L data = Inr login"
      using known(3) by (auto simp: login_version_def bind_result_def split: sum.splits)
    obtain b where b: "gate_login_rest (demo_exec send L E d) send L q c' login a1 = (Inr (), b)" "serving (env_cid E) n c b q w k v"
      using login_rest_serving [OF assms(1) s(2,3)] known(1,2) by blast
    show ?thesis
      using s(1) Next_world l b serving_mono [OF b(2)] by (simp add: gate_conn_msg_def conn_guard_def)
  qed
qed

section \<open>Events\<close>

text \<open>What happens to a running demo: a web socket connects, frames arrive on a connection, a context handles a message, a task of the gate runs, at the time \<open>now\<close>.
  Messages and tasks are arbitrary, so that they include whatever the mailboxes hold at that time, in any order. There is no event for a message of the web socket server:
  its \<open>on_msg\<close> writes to a socket or closes it and changes nothing of this state.\<close>

datatype demo_event =
    Ev_connect nat
  | Ev_frames u64 "ws_frame list"
  | Ev_gate_msg string
  | Ev_gate_task nat gate_task
  | Ev_world_msg string
  | Ev_game_msg string

text \<open>\<open>co_ws_handle\<close> from its read loop on, for the frames that arrive now.\<close>

definition ws_frames :: "demo_lib \<Rightarrow> nat \<Rightarrow> u64 \<Rightarrow> ws_frame list \<Rightarrow> demo_app \<Rightarrow> demo_app" where
  "ws_frames L p connid frames a =
     (case cx_user (ap_objs a ! p) of
        Obj_ws s \<Rightarrow>
          (case co_conn_read connid frames of
             (outs, False) \<Rightarrow> fold (ws_publish (lib_ser L) p) outs a
           | (outs, True) \<Rightarrow>
               (case ws_handle_end connid s of
                  (s1, outs1) \<Rightarrow> fold (ws_publish (lib_ser L) p) (outs @ outs1) (set_user p (Obj_ws s1) a)))
      | _ \<Rightarrow> a)"

text \<open>The numbers given out to connections, and the state; an error is one that ends the process. An exception that leaves a task is lost with it. \<open>get_allocid\<close>, \<open>player_login\<close>, \<open>add_player\<close> and
  \<open>on_client\<close> make no calls, the depth 0 is enough.\<close>

fun demo_step ::
  "demo_send_t \<Rightarrow> demo_lib \<Rightarrow> demo_env \<Rightarrow> nat \<times> nat \<times> nat \<times> nat \<Rightarrow> demo_event \<Rightarrow> demo_app \<Rightarrow> (u64 list \<times> demo_app) result" where
  "demo_step send L E (q, w, k, v) (Ev_connect con) a = (case ws_connect (demo_exec send L E 0) send L v con a of (c, b) \<Rightarrow> Inr ([c], b))"
| "demo_step send L E (q, w, k, v) (Ev_frames connid frames) a = Inr ([], ws_frames L v connid frames a)"
| "demo_step send L E (q, w, k, v) (Ev_gate_msg m) a = Inr ([], snd (gate_handle (lib_ser L) (lib_deser L) (lib_enc L) q m a))"
| "demo_step send L E (q, w, k, v) (Ev_gate_task now task) a =
     (case gate_task_exec (demo_exec send L (E\<lparr>env_now := now\<rparr>) 0) send L q task a of
        (Inl e, b) \<Rightarrow> if std_exception e then Inr ([], b) else Inl e
      | (Inr _, b) \<Rightarrow> Inr ([], b))"
| "demo_step send L E (q, w, k, v) (Ev_world_msg m) a = Inr ([], world_handle L w m a)"
| "demo_step send L E (q, w, k, v) (Ev_game_msg m) a = Inr ([], game_handle L k m a)"

fun demo_run ::
  "demo_send_t \<Rightarrow> demo_lib \<Rightarrow> demo_env \<Rightarrow> nat \<times> nat \<times> nat \<times> nat \<Rightarrow> demo_event list \<Rightarrow> demo_app \<Rightarrow> (u64 list \<times> demo_app) result" where
  "demo_run send L E ids [] a = Inr ([], a)"
| "demo_run send L E ids (ev # evs) a =
     bind_result (demo_step send L E ids ev a) (\<lambda>(cs, b). bind_result (demo_run send L E ids evs b) (\<lambda>(cs', b'). Inr (cs @ cs', b')))"

fun event_complete :: "demo_lib \<Rightarrow> demo_event \<Rightarrow> bool" where
  "event_complete L (Ev_gate_task now (Task_msg (Pl_conn_data connid data))) = packet_complete L data"
| "event_complete L _ = True"

definition connects :: "demo_event list \<Rightarrow> nat" where
  "connects evs = length (filter (\<lambda>ev. case ev of Ev_connect _ \<Rightarrow> True | _ \<Rightarrow> False) evs)"

section \<open>Runs\<close>

lemma connect_serving:
  assumes "lib_ok L" "serving cid n c a q w k v"
  shows "\<exists>b. ws_connect (demo_exec send L E d) send L v con a = (c + 1, b) \<and> serving cid n (c + 1) b q w k v"
proof -
  obtain g s where u: "cx_user (ap_objs a ! q) = Obj_gate g" "conn_alloc g = c" "cx_user (ap_objs a ! v) = Obj_ws s" and wi: "wired a q w k"
    by (rule serving_users [OF assms(2)])
  let ?b = "set_user q (Obj_gate (g\<lparr>conn_alloc := c + 1\<rparr>)) a"
  have call: "ctx_call_name_nolock (demo_exec send L E d) send (lib_aser L) ''.gate'' ''get_allocid'' None a =
      (Inr \<lparr>rr_status = 0, rr_res = lib_rser L (Ret_connid (c + 1))\<rparr>, ?b)"
    by (simp add: wired_calls [OF wi] demo_exec_def rpc_func_simps demo_body.simps [of _ _ _ d] gate_get_allocid_def gate_seg_def
        rpc_get_allocid_def u(1,2))
  have ans: "connid_answer L (Inr \<lparr>rr_status = 0, rr_res = lib_rser L (Ret_connid (c + 1))\<rparr>) = Inr (c + 1)"
    using assms(1) by (simp add: connid_answer_def rpc_as_def has_value_def lib_ok_def)
  have b: "serving cid n (c + 1) ?b q w k v" by (rule serving_set(2) [OF assms(2) u(1)])
  have ub: "cx_user (ap_objs ?b ! v) = Obj_ws s" using u(3) serving_lt(4) [OF assms(2)] serving_ne(3) [OF assms(2)] by simp
  show ?thesis
    using serving_posts [OF serving_set(5) [OF b] posts_ws_publish]
    by (auto simp: ws_connect_def call ans ub co_get_connid_def split: prod.split)
qed

lemma task_serving:
  assumes "lib_ok L" "serving (env_cid E) n c a q w k v" "inj (env_cid E)" "n + 1 < 2 ^ 32" "event_complete L (Ev_gate_task now task)"
  shows "case gate_task_exec (demo_exec send L E d) send L q task a of
      (Inl e, b) \<Rightarrow> \<not> env_ndebug E \<and> e = Assert_Failed
    | (Inr _, b) \<Rightarrow> serving (env_cid E) (n + 1) c b q w k v"
proof (cases "\<exists>connid data. task = Task_msg (Pl_conn_data connid data)")
  case True
  then obtain connid data where t: "task = Task_msg (Pl_conn_data connid data)" by blast
  then show ?thesis using conn_msg_serving [OF assms(1-4), of data send d connid] assms(5) by (simp add: gate_task_exec_def)
next
  case False
  let ?f = "gate_task_run (packet_head L) (\<lambda>d. login_version (packet_login L d)) task"
  obtain b r where "gate_seg L q ?f a = (Inr r, b)" "serving (env_cid E) n c b q w k v"
    using gate_seg_serving [OF assms(2), of ?f L] gate_task_run_keeps by blast
  then show ?thesis
    using False serving_mono by (auto simp: gate_task_exec_def split: gate_task.split payload.split)
qed

lemma handles_serving:
  assumes "serving cid n c a q w k v"
  shows "serving cid n c (snd (gate_handle ser deser enc q m a)) q w k v" "serving cid n c (world_handle L w m a) q w k v"
    "serving cid n c (game_handle L k m a) q w k v" "serving cid n c (ws_frames L v connid frames a) q w k v"
proof -
  obtain g W G s where u: "cx_user (ap_objs a ! q) = Obj_gate g" "cx_user (ap_objs a ! w) = Obj_world W"
    "cx_user (ap_objs a ! k) = Obj_game G" "scenes_ok cid n G" "cx_user (ap_objs a ! v) = Obj_ws s"
    by (rule serving_users [OF assms])
  have "serving cid n c (set_user q (Obj_gate (fst (snd (gate_on_msg fr t pl g)))) a) q w k v" for fr t pl
    by (rule serving_set(1) [OF assms u(1) gate_on_msg_keeps])
  then show "serving cid n c (snd (gate_handle ser deser enc q m a)) q w k v"
    using assms serving_posts [OF _ fold_gate_send_posts] by (simp add: gate_handle_def u(1) split_beta split: option.split)
  show "serving cid n c (world_handle L w m a) q w k v"
    using assms serving_set(3) [OF assms] by (simp add: world_handle_def u(2) split: option.split prod.split)
  have "scenes_ok cid n (G\<lparr>sg_game := x\<rparr>)" for x using u(4) by (simp add: scenes_ok_def)
  then show "serving cid n c (game_handle L k m a) q w k v"
    using assms serving_set(4) [OF assms] by (simp add: game_handle_def u(3) split: option.split prod.split)
  show "serving cid n c (ws_frames L v connid frames a) q w k v"
    using serving_posts [OF assms posts_ws_publish] serving_posts [OF serving_set(5) [OF assms] posts_ws_publish]
    by (auto simp: ws_frames_def u(5) simp del: fold_append split: prod.split bool.split)
qed


lemma step_serving:
  assumes "lib_ok L" "inj (env_cid E)" "serving (env_cid E) n c a q w k v" "n + 1 < 2 ^ 32" "event_complete L ev"
  shows "case demo_step send L E (q, w, k, v) ev a of
      Inl e \<Rightarrow> \<not> env_ndebug E \<and> e = Assert_Failed
    | Inr (cs, b) \<Rightarrow> cs = (if connects [ev] = 1 then [c + 1] else []) \<and> serving (env_cid E) (n + 1) (c + word_of_nat (connects [ev])) b q w k v"
proof (cases ev)
  case (Ev_connect con)
  then show ?thesis
    using connect_serving [OF assms(1,3), of send E 0 con] serving_mono by (auto simp: connects_def)
next
  case (Ev_gate_task now task)
  let ?E = "E\<lparr>env_now := now\<rparr>"
  have "case gate_task_exec (demo_exec send L ?E 0) send L q task a of
      (Inl e, b) \<Rightarrow> \<not> env_ndebug E \<and> e = Assert_Failed | (Inr _, b) \<Rightarrow> serving (env_cid E) (n + 1) c b q w k v"
    using task_serving [of L ?E n c a q w k v now task send 0] assms Ev_gate_task by (auto split: prod.splits sum.splits)
  with Ev_gate_task show ?thesis
    by (auto simp: connects_def std_exception_def split: prod.splits sum.splits)
qed (use handles_serving [OF assms(3)] serving_mono in \<open>simp_all add: connects_def\<close>)

lemma run_serving:
  assumes "lib_ok L" "inj (env_cid E)" "serving (env_cid E) n c a q w k v" "n + length evs < 2 ^ 32" "list_all (event_complete L) evs"
  shows "case demo_run send L E (q, w, k, v) evs a of
      Inl e \<Rightarrow> \<not> env_ndebug E \<and> e = Assert_Failed
    | Inr (cs, b) \<Rightarrow> cs = map (\<lambda>i. c + word_of_nat i) [1..<Suc (connects evs)] \<and>
        serving (env_cid E) (n + length evs) (c + word_of_nat (connects evs)) b q w k v"
  using assms(3-5)
proof (induction evs arbitrary: n c a)
  case Nil
  then show ?case by (simp add: connects_def)
next
  case (Cons ev evs)
  have cn: "connects (ev # evs) = connects [ev] + connects evs" "connects [ev] = 0 \<or> connects [ev] = 1"
    by (auto simp: connects_def split: demo_event.split)
  have st: "case demo_step send L E (q, w, k, v) ev a of
      Inl e \<Rightarrow> \<not> env_ndebug E \<and> e = Assert_Failed
    | Inr (cs, b) \<Rightarrow> cs = (if connects [ev] = 1 then [c + 1] else []) \<and> serving (env_cid E) (n + 1) (c + word_of_nat (connects [ev])) b q w k v"
    using step_serving [OF assms(1,2) Cons.prems(1)] Cons.prems(2,3) by simp
  show ?case
  proof (cases "demo_step send L E (q, w, k, v) ev a")
    case (Inl e)
    with st show ?thesis by (simp add: bind_result_def)
  next
    case (Inr x)
    obtain cs b where x: "x = (cs, b)" by fastforce
    from st Inr x have b: "cs = (if connects [ev] = 1 then [c + 1] else [])" "serving (env_cid E) (n + 1) (c + word_of_nat (connects [ev])) b q w k v"
      by simp_all
    have nums: "cs @ map (\<lambda>i. c + word_of_nat (connects [ev]) + word_of_nat i) [1..<Suc (connects evs)] =
        map (\<lambda>i. c + word_of_nat i) [1..<Suc (connects (ev # evs))]"
    proof (cases "connects [ev] = 0")
      case False
      then have "[1..<Suc (connects (ev # evs))] = 1 # map Suc [1..<Suc (connects evs)]"
        using cn by (simp add: map_Suc_upt upt_conv_Cons)
      then show ?thesis using False cn(2) b(1) by (simp add: add.assoc)
    qed (simp add: b(1) cn(1))
    from Cons.IH [OF b(2)] Cons.prems(2,3)
    have "case demo_run send L E (q, w, k, v) evs b of
      Inl e \<Rightarrow> \<not> env_ndebug E \<and> e = Assert_Failed
    | Inr (cs', b') \<Rightarrow> cs' = map (\<lambda>i. c + word_of_nat (connects [ev]) + word_of_nat i) [1..<Suc (connects evs)] \<and>
        serving (env_cid E) (n + 1 + length evs) (c + word_of_nat (connects [ev]) + word_of_nat (connects evs)) b' q w k v"
      by simp
    then show ?thesis
      using Inr x nums by (auto simp: bind_result_def cn(1) add.assoc split: sum.splits prod.splits)
  qed
qed

section \<open>The program\<close>

text \<open>C5. The demo under every sequence of events. When \<open>config_game.json\<close> can be read and lists the own node and the web server runs, \<open>main\<close> reaches its wait with gate, world, game and web socket
  server created, registered under their names, receiving, and with their functions. From there on, whatever connects, whatever frames and messages arrive in whatever order, garbage included, and
  whatever tasks run, each without another one in between (\<open>login_dangling_reference\<close> shows why), as long as no packet is too short for its members: the demo goes on serving, the connections get the numbers 1, 2, 3 and so on, none twice, no access is out of bounds, and the
  process can only be ended by a failed \<open>assert\<close>, not at all with \<open>NDEBUG\<close>.\<close>

theorem demo_serves:
  assumes "from_json (config_default hw) (path_append cwd ''config_game.json'') = (Inr (), cfg)"
    and "own \<in> set (cfg_nodes cfg)" "info_nodeid own = ucast (cfg_nodeid cfg)"
    and "lib_ok L" "inj (env_cid E)" "length evs < 2 ^ 32" "list_all (event_complete L) evs"
  shows "\<exists>a q w k v. demo_main from_json cwd hw (env_ndebug E) Io_running 1 = (Inr (), a) \<and> serving (env_cid E) 0 0 a q w k v \<and>
    (case demo_run send L E (q, w, k, v) evs a of
       Inl e \<Rightarrow> \<not> env_ndebug E \<and> e = Assert_Failed
     | Inr (cs, b) \<Rightarrow> cs = map word_of_nat [1..<Suc (connects evs)] \<and> distinct cs \<and>
         serving (env_cid E) (length evs) (word_of_nat (connects evs)) b q w k v)"
proof -
  obtain a q w k v g where m: "demo_main from_json cwd hw (env_ndebug E) Io_running 1 = (Inr (), a)" and s: "wired a q w k"
      "cx_user (ap_objs a ! q) = Obj_gate g" "gt_players g = []" "conn_alloc g = 0"
      "get_ctx (ap_mgr a) (world_id g) = Some w" "\<not> q_stop (cx_queue (ap_objs a ! w))" "cx_user (ap_objs a ! w) = Obj_world world_new"
      "get_ctx (ap_mgr a) (game_id g) = Some k" "\<not> q_stop (cx_queue (ap_objs a ! k))" "cx_user (ap_objs a ! k) = Obj_game (game_on_init game_obj_new)"
      "get_ctx (ap_mgr a) (getid v a) = Some v" "\<not> q_stop (cx_queue (ap_objs a ! v))" "cx_user (ap_objs a ! v) = Obj_ws \<lparr>ws_server = True, ws_conns = []\<rparr>"
    using demo_main_up [where from_json = from_json and hw = hw and cwd = cwd and ndebug = "env_ndebug E", OF assms(1-3)] by metis
  have sv: "serving (env_cid E) 0 0 a q w k v"
    using s by (simp add: serving_def keyed_def scenes_ok_def game_on_init_def game_obj_new_def)
  have "connects evs \<le> length evs" by (simp add: connects_def)
  then have "distinct (map word_of_nat [1..<Suc (connects evs)] :: u64 list)"
    using assms(6) by (auto simp: distinct_map inj_on_def of_nat_inverse dest: arg_cong [where f = unat])
  then have "case demo_run send L E (q, w, k, v) evs a of
       Inl e \<Rightarrow> \<not> env_ndebug E \<and> e = Assert_Failed
     | Inr (cs, b) \<Rightarrow> cs = map word_of_nat [1..<Suc (connects evs)] \<and> distinct cs \<and>
         serving (env_cid E) (length evs) (word_of_nat (connects evs)) b q w k v"
    using run_serving [OF assms(4,5) sv, of evs send] assms(6,7) by (auto split: sum.splits)
  with m sv show ?thesis by blast
qed

text \<open>A directory with the file \<open>config_game.json\<close> of \<open>build/\<close>, which mentions nodes only, and a run with two connections, one of which sends garbage and leaves.\<close>

definition game_dir :: json_reader where
  "game_dir cfg file =
     (if file = ''/build/config_game.json''
      then (Inr (), cfg\<lparr>cfg_nodes := [\<lparr>info_name = ''gate'', info_ip = ''127.0.0.1'', info_nodeid = 1, info_port = 12349\<rparr>,
                        \<lparr>info_name = ''world'', info_ip = ''127.0.0.1'', info_nodeid = 2, info_port = 12346\<rparr>,
                        \<lparr>info_name = ''game'', info_ip = ''127.0.0.1'', info_nodeid = 3, info_port = 12345\<rparr>]\<rparr>)
      else (Inl (Runtime_Error ''no such file''), cfg))"

definition two_clients :: "demo_event list" where
  "two_clients = [Ev_connect 5, Ev_gate_task 0 (Task_start 0x01000002 (Pl_conn 1)), Ev_connect 6, Ev_frames 1 [Frame_text ''junk'', Frame_close],
     Ev_gate_task 1 (Task_stop (Pl_conn 1)), Ev_world_msg ''junk'', Ev_game_msg ''junk'', Ev_gate_msg ''junk'']"

theorem demo_serves_witness:
  "\<exists>a ids b. demo_main game_dir ''/build'' 8 True Io_running 1 = (Inr (), a) \<and>
     demo_run (\<lambda>_ _ _ _. Pool_Error) session_lib \<lparr>env_ndebug = True, env_cid = cid_demo, env_now = 0\<rparr> ids two_clients a = Inr ([1, 2], b)"
proof -
  let ?E = "\<lparr>env_ndebug = True, env_cid = cid_demo, env_now = 0\<rparr>"
  have "length two_clients < 2 ^ 32" "list_all (event_complete session_lib) two_clients" "connects two_clients = 2" "inj (env_cid ?E)"
    by (simp_all add: two_clients_def connects_def inj_cid_demo)
  then show ?thesis
    using demo_serves [of game_dir 8 "''/build''" _ "\<lparr>info_name = ''gate'', info_ip = ''127.0.0.1'', info_nodeid = 1, info_port = 12349\<rparr>"
        session_lib ?E two_clients "\<lambda>_ _ _ _. Pool_Error"] session_lib_ok
    by (fastforce simp: game_dir_def path_append_def config_default_def upt_conv_Cons split: sum.splits)
qed

end
