(* ===== verification/Ping_Pong.thy ===== *)
theory Ping_Pong
  imports Cqy_Ctx
begin

text \<open>
  The two programs \<open>example/ping.cpp\<close> and \<open>example/pong.cpp\<close>: a context \<open>ping\<close> on one node calls and
  messages a context \<open>pong\<close> on another. The serializers of struct\_pack are arguments, logging and the pauses of
  a second are left out; what \<open>async_call\<close> starts (\<open>test\<close>) is a function of its own.
\<close>

section \<open>The contexts\<close>

text \<open>\<open>last_session\<close> of \<open>node_ping\<close>, \<open>echo\<close> of \<open>node_pong\<close>.\<close>

datatype pp_obj = Node_ping u32 | Node_pong string

datatype pp_func = Rpc_pong | Rpc_pong1

type_synonym pp_app = "(pp_obj, pp_func) cqy_app_t"

definition set_obj :: "nat \<Rightarrow> pp_obj \<Rightarrow> pp_app \<Rightarrow> pp_app" where
  "set_obj p u = upd_obj p (\<lambda>c. c\<lparr>cx_user := u\<rparr>)"

definition pong_body :: "pp_func \<Rightarrow> nat \<Rightarrow> (string, nat, pp_app) rpc_func" where
  "pong_body f p =
     (case f of
        Rpc_pong \<Rightarrow> Ret_param (\<lambda>s b. (Inr (length s), b))
      | Rpc_pong1 \<Rightarrow> Void_param (\<lambda>s b. (Inr (), b)))"

definition pong_on_init :: "(pp_obj, pp_func) ctx_on_init" where
  "pong_on_init p param a =
     (case ctx_register_name p ''pong'' a of
        (Inl e, a1) \<Rightarrow> (Inl e, a1)
      | (Inr _, a1) \<Rightarrow>
          (Inr True,
           register_rpc_func p ''cqy::node_pong::rpc_pong1'' False Rpc_pong1 ''rpc_pong1''
             (register_rpc_func p ''cqy::node_pong::rpc_pong'' False Rpc_pong ''rpc_pong'' (set_obj p (Node_pong param) a1))))"

definition ping_on_init :: "(pp_obj, pp_func) ctx_on_init" where
  "ping_on_init p param a =
     (case ctx_register_name p ''ping'' a of
        (Inl e, a1) \<Rightarrow> (Inl e, a1)
      | (Inr _, a1) \<Rightarrow> (Inr True, a1))"

definition pp_on_init :: "(pp_obj, pp_func) ctx_on_init" where
  "pp_on_init p param a =
     (case cx_user (ap_objs a ! p) of Node_ping _ \<Rightarrow> ping_on_init p param a | Node_pong _ \<Rightarrow> pong_on_init p param a)"

text \<open>\<open>node_pong::on_msg\<close>: answer, then stop the application.\<close>

definition pong_on_msg :: "nat \<Rightarrow> string \<Rightarrow> pp_app \<Rightarrow> pp_app" where
  "pong_on_msg p s a =
     (case cx_user (ap_objs a ! p) of
        Node_pong echo \<Rightarrow> snd (app_stop (response p (get_msg s) echo a))
      | Node_ping _ \<Rightarrow> a)"

text \<open>\<open>node_ping::on_msg\<close> with its assertions.\<close>

definition ping_on_msg :: "bool \<Rightarrow> nat \<Rightarrow> string \<Rightarrow> pp_app \<Rightarrow> unit result \<times> pp_app" where
  "ping_on_msg ndebug p s a =
     (case cx_user (ap_objs a ! p) of
        Node_ping last_session \<Rightarrow>
          if \<not> ndebug \<and> msg_session (get_msg s) \<noteq> last_session then (Inl Assert_Failed, a)
          else if \<not> ndebug \<and> \<not> msg_response (get_msg s) then (Inl Assert_Failed, a)
          else (Inr (), snd (app_stop a))
      | Node_pong _ \<Rightarrow> (Inr (), a))"

text \<open>\<open>catch (std::exception &e)\<close> ends \<open>test\<close>.\<close>

definition caught :: "cpp_error \<Rightarrow> unit result" where
  "caught e = (case e of Bad_Access \<Rightarrow> Inl e | Assert_Failed \<Rightarrow> Inl e | _ \<Rightarrow> Inr ())"

definition ping_test ::
  "bool \<Rightarrow> (pp_obj, pp_func) rpc_exec \<Rightarrow> (nat \<Rightarrow> string \<Rightarrow> string \<Rightarrow> string \<Rightarrow> rpc_result_t remote) \<Rightarrow> (string \<Rightarrow> string) \<Rightarrow>
   (string \<Rightarrow> string + nat) \<Rightarrow> nat \<Rightarrow> pp_app \<Rightarrow> unit result \<times> pp_app"
where
  "ping_test ndebug exec send ser rdeser p a =
     (case ctx_call_name_nolock exec send ser ''n1.pong'' ''rpc_pong'' (Some ''hello'') a of
        (Inl e, a1) \<Rightarrow> (caught e, a1)
      | (Inr r, a1) \<Rightarrow>
          (case rpc_as ''m'' rdeser r of
             Inl e \<Rightarrow> (caught e, a1)
           | Inr n \<Rightarrow>
               (case ctx_call_name_nolock exec send ser ''n1.pong'' ''rpc_pong1'' (Some ''hello'') a1 of
                  (Inl e, a2) \<Rightarrow> (caught e, a2)
                | (Inr r2, a2) \<Rightarrow>
                    if \<not> ndebug \<and> has_error r2 then (Inl Assert_Failed, a2)
                    else (case dispatch_name p ''n1.pong'' 0 ''hello'' a2 of
                            (Inl e, a3) \<Rightarrow> (caught e, a3)
                          | (Inr session, a3) \<Rightarrow> (Inr (), set_obj p (Node_ping session) a3)))))"

section \<open>Contract\<close>

interpretation pp: ctx_class pp_on_init 0
proof
  fix a :: pp_app and p param
  assume a: "app_inv a"
  have n: "app_inv (snd (ctx_register_name p nm a)) \<and> app_grows a (snd (ctx_register_name p nm a)) \<and>
      allocid (ap_mgr (snd (ctx_register_name p nm a))) = allocid (ap_mgr a)" for nm
    using app_inv_register_name [OF a] by (simp add: ctx_register_name_def)
  have u: "app_inv (upd_obj p f b) \<and> app_grows a (upd_obj p f b) \<and> allocid (ap_mgr (upd_obj p f b)) = allocid (ap_mgr a)"
    if "app_inv b \<and> app_grows a b \<and> allocid (ap_mgr b) = allocid (ap_mgr a)" "\<And>c. cx_id (f c) = cx_id c" for f b
    using app_inv_upd_obj [of b f p] that by (auto intro: app_grows_trans)
  have "app_inv (snd (pp_on_init p param a)) \<and> app_grows a (snd (pp_on_init p param a)) \<and>
      allocid (ap_mgr (snd (pp_on_init p param a))) = allocid (ap_mgr a)"
    using n [of "''ping''"] n [of "''pong''"]
    by (auto simp: pp_on_init_def ping_on_init_def pong_on_init_def register_rpc_func_def set_obj_def split: pp_obj.split prod.split sum.split
        simp del: upd_obj_simps intro!: u)
  then show "app_inv (snd (pp_on_init p param a)) \<and> app_grows a (snd (pp_on_init p param a)) \<and>
      unat (allocid (ap_mgr (snd (pp_on_init p param a)))) \<le> unat (allocid (ap_mgr a)) + 0"
    by simp
qed


section \<open>The exchange\<close>

text \<open>The two nodes once both programs have started, with nothing sent yet: ping runs on node 2, pong on node 1.\<close>

definition ping_ready :: "nat \<Rightarrow> nat \<Rightarrow> pp_app \<Rightarrow> bool" where
  "ping_ready k p a \<longleftrightarrow>
     (\<exists>h. get_handle a ''n1.pong'' = Inr (Some (h, ''pong'')) \<and> handle_node h = 1) \<and> cfg_nodeid (ap_config a) = 2 \<and>
     get_node (ap_node a) 1 = Some k \<and> nd_client (nodes (ap_node a) ! k) \<noteq> None \<and> nd_queue (nodes (ap_node a) ! k) = queue_init \<and>
     p < length (ap_objs a) \<and> get_ctx (ap_mgr a) (cx_id (ap_objs a ! p)) = Some p \<and>
     handle_node (cqy_handle (cx_id (ap_objs a ! p))) = 2 \<and> cx_queue (ap_objs a ! p) = queue_init"

definition pong_ready :: "nat \<Rightarrow> nat \<Rightarrow> string \<Rightarrow> pp_app \<Rightarrow> bool" where
  "pong_ready k q echo b \<longleftrightarrow>
     (\<exists>h. get_handle b ''n1.pong'' = Inr (Some (h, ''pong'')) \<and> handle_node h = 1) \<and> cfg_nodeid (ap_config b) = 1 \<and>
     get_node (ap_node b) 2 = Some k \<and> nd_queue (nodes (ap_node b) ! k) = queue_init \<and>
     q < length (ap_objs b) \<and> get_ctx (ap_mgr b) (find_name (ap_mgr b) ''pong'') = Some q \<and>
     cx_queue (ap_objs b ! q) = queue_init \<and> cx_user (ap_objs b ! q) = Node_pong echo \<and>
     map_of (cx_router (ap_objs b ! q)) ''rpc_pong'' = Some (False, Rpc_pong) \<and>
     map_of (cx_router (ap_objs b ! q)) ''rpc_pong1'' = Some (False, Rpc_pong1)"

text \<open>The connection from ping to pong: a call runs on the other node.\<close>

definition to_pong ::
  "(string \<Rightarrow> string option) \<Rightarrow> (nat \<Rightarrow> string) \<Rightarrow> pp_app \<Rightarrow> nat \<Rightarrow> string \<Rightarrow> string \<Rightarrow> string \<Rightarrow> rpc_result_t remote"
where
  "to_pong deser rser b k nodectx f d =
     (case fst (rpc_ctx_call_name (router_exec pong_body deser rser) nodectx f d b) of Inr r \<Rightarrow> Reply r | Inl _ \<Rightarrow> Call_Error)"

lemma call_pong:
  assumes "ping_ready k p a" "pong_ready k' q echo b" "deser (ser ''hello'') = Some ''hello''"
  shows "ctx_call_name_nolock exec (to_pong deser rser b) ser ''n1.pong'' ''rpc_pong'' (Some ''hello'') a =
      (Inr \<lparr>rr_status = 0, rr_res = rser (length ''hello'')\<rparr>, a)"
    and "ctx_call_name_nolock exec (to_pong deser rser b) ser ''n1.pong'' ''rpc_pong1'' (Some ''hello'') a =
      (Inr \<lparr>rr_status = 0, rr_res = []\<rparr>, a)"
  using assms
  by (auto simp: ping_ready_def pong_ready_def ctx_call_name_nolock_def to_pong_def rpc_ctx_call_name_def rpc_call_registered_def
      rpc_on_call_def router_exec_def pong_body_def rpc_encode_def finish_call_def ret_status0_def handle_node_def Let_def)

lemma pp_dispatch:
  assumes "ping_ready k p a"
  defines "s \<equiv> cx_session (ap_objs a ! p) + 1"
  defines "m \<equiv> msg_make_route (cx_id (ap_objs a ! p)) 1 ''pong'' s 0 False ''hello''"
  shows "dispatch_name p ''n1.pong'' 0 ''hello'' a = (Inr s, peer_push k m (snd (next_session p a)))"
    and "q_items (nd_queue (nodes (ap_node (peer_push k m (snd (next_session p a)))) ! k)) = [m]"
proof -
  obtain h where h: "get_handle a ''n1.pong'' = Inr (Some (h, ''pong''))" "handle_node h = 1" "cfg_nodeid (ap_config a) = 2"
    "get_node (ap_node a) 1 = Some k" "nd_queue (nodes (ap_node a) ! k) = queue_init"
    using assms(1) by (auto simp: ping_ready_def)
  have l: "length ''pong'' < 255" "1 + length ''pong'' + length ''hello'' < 2 ^ 32" by simp_all
  show "dispatch_name p ''n1.pong'' 0 ''hello'' a = (Inr s, peer_push k m (snd (next_session p a)))"
    using dispatch_name_remote [OF h(1) _ _ _ l, of k p 0] h by (simp add: m_def s_def getid_def)
  show "q_items (nd_queue (nodes (ap_node (peer_push k m (snd (next_session p a)))) ! k)) = [m]"
    using peer_push_queue [of k "snd (next_session p a)" m] get_node_first [OF h(4)] h(5) by (simp add: queue_init_def)
qed


text \<open>Pong takes the message out of its mailbox, answers and stops; the answer reaches ping.\<close>

lemma pp_answer:
  fixes s :: u32
  assumes "pong_ready k' q echo b" "length echo < 2 ^ 32" "handle_node (cqy_handle i) = 2"
  defines "m \<equiv> msg_make_route i 1 ''pong'' s 0 False ''hello''"
  defines "b1 \<equiv> snd (rpc_on_mq [m] b)"
  defines "m' \<equiv> msg_make (cx_id (ap_objs b ! q)) i s 0 True echo"
  shows "q_items (cx_queue (ap_objs b1 ! q)) = [m]"
    and "q_items (nd_queue (nodes (ap_node (pong_on_msg q m b1)) ! k')) = [m']" and "ap_bstop (pong_on_msg q m b1)"
proof -
  have b: "q < length (ap_objs b)" "cx_queue (ap_objs b ! q) = queue_init" "get_ctx (ap_mgr b) (find_name (ap_mgr b) ''pong'') = Some q"
    "cfg_nodeid (ap_config b) = 1" "get_node (ap_node b) 2 = Some k'" "nd_queue (nodes (ap_node b) ! k') = queue_init"
    "cx_user (ap_objs b ! q) = Node_pong echo"
    using assms(1) by (auto simp: pong_ready_def)
  have m: "well_formed m" "mq_target b m = Some q"
    using b(3) by (simp_all add: m_def well_formed_make_route mq_target_make_route)
  show "q_items (cx_queue (ap_objs b1 ! q)) = [m]"
    using rpc_on_mq_one [OF m b(1)] b(2) by (simp add: b1_def queue_init_def)
  have b1: "b1 = node_push_msg q m b"
    unfolding b1_def by (rule rpc_on_mq_single [OF m])
  have keep: "ap_config b1 = ap_config b" "ap_node b1 = ap_node b" "getid q b1 = cx_id (ap_objs b ! q)"
    "cx_user (ap_objs b1 ! q) = Node_pong echo"
    using b(1,7) by (simp_all add: b1 node_push_msg_def upd_obj_nth getid_def)
  have "response q (get_msg m) echo b1 = peer_push k' (msg_make (getid q b1) i s 0 True echo) b1"
    using response_remote [of "get_msg m" i b1 k' echo q] assms(2,3) b(4,5) keep
    by (simp add: m_def msg_zero_def)
  then have r: "pong_on_msg q m b1 = snd (app_stop (peer_push k' m' b1))"
    using keep by (simp add: pong_on_msg_def m'_def)
  show "q_items (nd_queue (nodes (ap_node (pong_on_msg q m b1)) ! k')) = [m']"
    using peer_push_queue [of k' b1 m'] get_node_first [OF b(5)] b(6) keep(2)
    by (auto simp: r app_stop_def queue_init_def)
  show "ap_bstop (pong_on_msg q m b1)" by (simp add: r app_stop_def)
qed

lemma exchange:
  assumes "ping_ready k p a" "pong_ready k' q echo b" "length echo < 2 ^ 32"
    "deser (ser ''hello'') = Some ''hello''" "\<And>n. rdeser (rser n) = Inr n"
  shows "\<exists>a1 m m'. ping_test ndebug exec (to_pong deser rser b) ser rdeser p a = (Inr (), a1) \<and>
     q_items (nd_queue (nodes (ap_node a1) ! k)) = [m] \<and>
     q_items (cx_queue (ap_objs (snd (rpc_on_mq [m] b)) ! q)) = [m] \<and>
     q_items (nd_queue (nodes (ap_node (pong_on_msg q m (snd (rpc_on_mq [m] b)))) ! k')) = [m'] \<and>
     ap_bstop (pong_on_msg q m (snd (rpc_on_mq [m] b))) \<and>
     q_items (cx_queue (ap_objs (snd (rpc_on_mq [m'] a1)) ! p)) = [m'] \<and> msg_buffer m' = Inr echo \<and>
     fst (ping_on_msg ndebug p m' (snd (rpc_on_mq [m'] a1))) = Inr () \<and> ap_bstop (snd (ping_on_msg ndebug p m' (snd (rpc_on_mq [m'] a1))))"
proof -
  define s where "s = cx_session (ap_objs a ! p) + 1"
  define m where "m = msg_make_route (cx_id (ap_objs a ! p)) 1 ''pong'' s 0 False ''hello''"
  define m' where "m' = msg_make (cx_id (ap_objs b ! q)) (cx_id (ap_objs a ! p)) s 0 True echo"
  define a1 where "a1 = set_obj p (Node_ping s) (peer_push k m (snd (next_session p a)))"
  note d = pp_dispatch [OF assms(1), folded s_def, folded m_def]
  have a: "p < length (ap_objs a)" "get_ctx (ap_mgr a) (cx_id (ap_objs a ! p)) = Some p" "cx_queue (ap_objs a ! p) = queue_init"
    "handle_node (cqy_handle (cx_id (ap_objs a ! p))) = 2"
    using assms(1) by (auto simp: ping_ready_def)
  have test: "ping_test ndebug exec (to_pong deser rser b) ser rdeser p a = (Inr (), a1)"
    using call_pong [where deser = deser and ser = ser, OF assms(1,2,4)] assms(5) d(1)
    by (simp add: ping_test_def rpc_as_def has_value_def has_error_def a1_def)
  have a1: "p < length (ap_objs a1)" "get_ctx (ap_mgr a1) (cx_id (ap_objs a ! p)) = Some p" "cx_queue (ap_objs a1 ! p) = queue_init"
    "cx_user (ap_objs a1 ! p) = Node_ping s"
    using a by (simp_all add: a1_def set_obj_def peer_push_def next_session_def upd_obj_nth Let_def)
  have t: "well_formed m'" "mq_target a1 m' = Some p"
    using a1(2) assms(3) by (simp_all add: m'_def well_formed_make)
  have got: "q_items (cx_queue (ap_objs (snd (rpc_on_mq [m'] a1)) ! p)) = [m']"
    using rpc_on_mq_one [OF t a1(1)] a1(3) by (simp add: queue_init_def)
  have "snd (rpc_on_mq [m'] a1) = node_push_msg p m' a1"
    by (rule rpc_on_mq_single [OF t])
  then have u: "cx_user (ap_objs (snd (rpc_on_mq [m'] a1)) ! p) = Node_ping s"
    using a1 by (simp add: node_push_msg_def upd_obj_nth)
  have fin: "fst (ping_on_msg ndebug p m' (snd (rpc_on_mq [m'] a1))) = Inr ()"
    "ap_bstop (snd (ping_on_msg ndebug p m' (snd (rpc_on_mq [m'] a1))))"
    using u by (simp_all add: ping_on_msg_def m'_def app_stop_def)
  have "q_items (nd_queue (nodes (ap_node a1) ! k)) = [m]" using d(2) by (simp add: a1_def set_obj_def)
  with test got fin pp_answer [OF assms(2,3) a(4), of s, folded m_def, folded m'_def] msg_buffer_make [OF assms(3)] show ?thesis
    by (intro exI [of _ a1] exI [of _ m] exI [of _ m']) (simp add: m'_def)
qed


section \<open>The two programs\<close>

text \<open>\<open>main\<close> up to the wait for the server; ping reads its configuration before it registers its class, pong after that.\<close>

definition ping_main :: "json_reader \<Rightarrow> string \<Rightarrow> u32 \<Rightarrow> unit result \<times> pp_app" where
  "ping_main from_json cwd hw =
     (case load_config from_json cwd ''config2.json'' (app_init (config_default hw)) of
        (Inl e, a) \<Rightarrow> (Inl e, a)
      | (Inr _, a) \<Rightarrow> app_start pp_on_init (reg_ctx ''cqy::node_ping'' (Node_ping 0) ''ping'' a))"

definition pong_main :: "json_reader \<Rightarrow> string \<Rightarrow> u32 \<Rightarrow> unit result \<times> pp_app" where
  "pong_main from_json cwd hw =
     (case load_config from_json cwd ''config1.json'' (reg_ctx ''cqy::node_pong'' (Node_pong []) ''pong'' (app_init (config_default hw))) of
        (Inl e, a) \<Rightarrow> (Inl e, a)
      | (Inr _, a) \<Rightarrow> app_start pp_on_init a)"

text \<open>A configuration that was read.\<close>

definition reads :: "json_reader \<Rightarrow> string \<Rightarrow> string \<Rightarrow> u32 \<Rightarrow> config_t \<Rightarrow> bool" where
  "reads from_json cwd file hw cfg \<longleftrightarrow> from_json (config_default hw) (path_append cwd file) = (Inr (), cfg)"

text \<open>\<open>build/config1.json\<close> and \<open>build/config2.json\<close> have the same nodes; they differ in node number and bootstrap line.\<close>

definition pp_config :: "u8 \<Rightarrow> u32 \<Rightarrow> string \<Rightarrow> config_t" where
  "pp_config i thread boot = (two_nodes i)\<lparr>cfg_thread := thread, cfg_bootstrap := boot\<rparr>"

definition pp_base :: "u8 \<Rightarrow> node_info \<Rightarrow> node_info \<Rightarrow> config_t \<Rightarrow> string \<Rightarrow> pp_obj \<Rightarrow> pp_app" where
  "pp_base i self other cfg name u =
     (app_init cfg)
       \<lparr>ap_node := \<lparr>self_nodeid = i, nd_server = Some (cfg_thread cfg, info_port self),
          nodes = [\<lparr>nd_info = other, nd_queue = queue_init, nd_client = Some (info_ip other @ '':'' @ int_to_string (info_port other))\<rparr>,
                   \<lparr>nd_info = self, nd_queue = queue_init, nd_client = None\<rparr>]\<rparr>,
        ap_senders := [ucast (info_nodeid other)], ap_creator := [(name, u)]\<rparr>"

lemma pong_main_base:
  "reads from_json cwd ''config1.json'' hw (pp_config 1 t (''pong '' @ echo)) \<Longrightarrow> pong_main from_json cwd hw =
     (case create_ctx pp_on_init ''pong'' echo (pp_base 1 n1_info n2_info (pp_config 1 t (''pong '' @ echo)) ''pong'' (Node_pong [])) of
        (Inl e, a) \<Rightarrow> (Inl e, a) | (Inr _, a) \<Rightarrow> (Inr (), a))"
  by (simp add: pong_main_def load_config_def reads_def pp_config_def two_nodes_def app_start_def create_client_def create_rpc_server_def pp_base_def
      reg_ctx_def app_init_def node_init_def n1_info_def n2_info_def split_one_char Let_def)

lemma ping_main_base:
  "reads from_json cwd ''config2.json'' hw (pp_config 2 t (''ping '' @ param)) \<Longrightarrow> ping_main from_json cwd hw =
     (case create_ctx pp_on_init ''ping'' param (pp_base 2 n2_info n1_info (pp_config 2 t (''ping '' @ param)) ''ping'' (Node_ping 0)) of
        (Inl e, a) \<Rightarrow> (Inl e, a) | (Inr _, a) \<Rightarrow> (Inr (), a))"
  by (simp add: ping_main_def load_config_def reads_def pp_config_def two_nodes_def app_start_def create_client_def create_rpc_server_def pp_base_def
      reg_ctx_def app_init_def node_init_def n1_info_def n2_info_def split_one_char Let_def)

lemma pp_base_facts:
  "app_inv (pp_base i self other cfg name u)" "allocid (ap_mgr (pp_base i self other cfg name u)) = 0"
  "names_of (ap_mgr (pp_base i self other cfg name u)) nm = None" "ap_objs (pp_base i self other cfg name u) = []"
  "map_of (ap_creator (pp_base i self other cfg name u)) name = Some u" "ap_config (pp_base i self other cfg name u) = cfg"
  by (simp_all add: pp_base_def app_init_def app_inv_def get_ctx_def names_of_def) (simp_all add: ctx_mgr_init_def)

lemma pp_handle: "handle_node (cqy_handle (ctx_handle (pp_base i self other cfg name u))) = cfg_nodeid cfg"
  using ctx_handle_parts(1) [of "pp_base i self other cfg name u"] by (simp add: pp_base_facts)

lemma ping_created:
  assumes "a = pp_base 2 n2_info n1_info cfg ''ping'' (Node_ping 0)" "cfg_nodeid cfg = 2"
  shows "\<exists>a'. create_ctx pp_on_init ''ping'' param a = (Inr (ctx_handle a), a') \<and> ping_ready 0 0 a'"
proof -
  note f = pp_base_facts [of 2 n2_info n1_info cfg "''ping''" "Node_ping 0", folded assms(1)]
  let ?c = "(ctx_new (Node_ping 0))\<lparr>cx_id := ctx_handle a\<rparr>"
  have "\<exists>a'. create_ctx pp_on_init ''ping'' param a = (Inr (if True then ctx_handle a else 0), a') \<and> grown True ''ping'' ?c a a'"
    by (rule create_leaf [OF pp.ctx_class_axioms f(1) _ f(5) f(3), where f = "\<lambda>c. c"])
      (auto simp: f pp_on_init_def ping_on_init_def upd_obj_id split: prod.split sum.split)
  then obtain a' where a': "create_ctx pp_on_init ''ping'' param a = (Inr (ctx_handle a), a')" and g: "grown True ''ping'' ?c a a'"
    by auto
  have "ping_ready 0 0 a'"
    using g f(4,6) pp_handle [of 2 n2_info n1_info cfg "''ping''" "Node_ping 0"] assms
    by (auto simp: ping_ready_def grown_def get_handle_eq ctx_new_def get_node_name_def get_node_def handle_node_def n1_info_def n2_info_def)
      (simp_all add: pp_base_def)
  with a' show ?thesis by blast
qed

lemma pong_created:
  assumes "b = pp_base 1 n1_info n2_info cfg ''pong'' (Node_pong [])" "cfg_nodeid cfg = 1"
  shows "\<exists>b'. create_ctx pp_on_init ''pong'' echo b = (Inr (ctx_handle b), b') \<and> pong_ready 0 0 echo b'"
proof -
  note f = pp_base_facts [of 1 n1_info n2_info cfg "''pong''" "Node_pong []", folded assms(1)]
  let ?f = "\<lambda>c :: (pp_obj, pp_func) cqy_ctx_t. c\<lparr>cx_user := Node_pong echo,
    cx_router := AList.update ''rpc_pong1'' (False, Rpc_pong1) (AList.update ''rpc_pong'' (False, Rpc_pong) (cx_router c))\<rparr>"
  let ?c = "?f ((ctx_new (Node_pong []))\<lparr>cx_id := ctx_handle b\<rparr>)"
  have "\<exists>b'. create_ctx pp_on_init ''pong'' echo b = (Inr (if True then ctx_handle b else 0), b') \<and> grown True ''pong'' ?c b b'"
    by (rule create_leaf [OF pp.ctx_class_axioms f(1) _ f(5) f(3), where f = ?f])
      (auto simp: f pp_on_init_def pong_on_init_def register_rpc_func_def set_obj_def upd_obj_twice split: prod.split sum.split)
  then obtain b' where b': "create_ctx pp_on_init ''pong'' echo b = (Inr (ctx_handle b), b')" and g: "grown True ''pong'' ?c b b'"
    by auto
  have "find_name (ap_mgr b') ''pong'' = ctx_handle b"
    using g find_name_names_of [of "ap_mgr b'"] by (simp add: grown_def app_inv_def)
  then have "pong_ready 0 0 echo b'"
    using g f(4,6) pp_handle [of 1 n1_info n2_info cfg "''pong''" "Node_pong []"] assms
    by (auto simp: pong_ready_def grown_def get_handle_eq ctx_new_def get_node_name_def get_node_def handle_node_def n1_info_def n2_info_def
        update_conv') (simp_all add: pp_base_def)
  with b' show ?thesis by blast
qed

lemma mains_ready:
  "reads rd1 cwd1 ''config1.json'' hw1 (pp_config 1 t1 (''pong '' @ echo)) \<Longrightarrow> \<exists>b. pong_main rd1 cwd1 hw1 = (Inr (), b) \<and> pong_ready 0 0 echo b"
  "reads rd2 cwd2 ''config2.json'' hw2 (pp_config 2 t2 (''ping '' @ param)) \<Longrightarrow> \<exists>a. ping_main rd2 cwd2 hw2 = (Inr (), a) \<and> ping_ready 0 0 a"
proof -
  have n: "cfg_nodeid (pp_config i t boot) = i" for i t boot by (simp add: pp_config_def two_nodes_def)
  show "\<exists>b. pong_main rd1 cwd1 hw1 = (Inr (), b) \<and> pong_ready 0 0 echo b"
    if "reads rd1 cwd1 ''config1.json'' hw1 (pp_config 1 t1 (''pong '' @ echo))"
    using pong_created [of _ "pp_config 1 t1 (''pong '' @ echo)" echo, OF refl n] unfolding pong_main_base [OF that] by auto
  show "\<exists>a. ping_main rd2 cwd2 hw2 = (Inr (), a) \<and> ping_ready 0 0 a"
    if "reads rd2 cwd2 ''config2.json'' hw2 (pp_config 2 t2 (''ping '' @ param))"
    using ping_created [of _ "pp_config 2 t2 (''ping '' @ param)" param, OF refl n] unfolding ping_main_base [OF that] by auto
qed

text \<open>C16. Ping and pong from end to end, when the files \<open>config1.json\<close> and \<open>config2.json\<close> have the nodes they have in \<open>build/\<close>, with any parameters: both programs
  start; both calls of \<open>test\<close> succeed, the message it dispatches reaches the mailbox of pong, pong answers with its parameter and stops, and when
  the answer arrives at ping, both assertions of \<open>on_msg\<close> hold (the session is the one \<open>dispatch\<close> returned, and it is a
  response), the text is pong's parameter, and ping stops.\<close>

theorem ping_pong_exchange:
  assumes "length echo < 2 ^ 32" "deser (ser ''hello'') = Some ''hello''" "\<And>n. rdeser (rser n) = Inr n"
    "reads rd1 cwd1 ''config1.json'' hw1 (pp_config 1 t1 (''pong '' @ echo))" "reads rd2 cwd2 ''config2.json'' hw2 (pp_config 2 t2 (''ping '' @ param))"
  shows "\<exists>a b a1 m m'. ping_main rd2 cwd2 hw2 = (Inr (), a) \<and> pong_main rd1 cwd1 hw1 = (Inr (), b) \<and>
     ping_test ndebug exec (to_pong deser rser b) ser rdeser 0 a = (Inr (), a1) \<and>
     q_items (nd_queue (nodes (ap_node a1) ! 0)) = [m] \<and>
     q_items (cx_queue (ap_objs (snd (rpc_on_mq [m] b)) ! 0)) = [m] \<and>
     q_items (nd_queue (nodes (ap_node (pong_on_msg 0 m (snd (rpc_on_mq [m] b)))) ! 0)) = [m'] \<and>
     ap_bstop (pong_on_msg 0 m (snd (rpc_on_mq [m] b))) \<and>
     q_items (cx_queue (ap_objs (snd (rpc_on_mq [m'] a1)) ! 0)) = [m'] \<and> msg_buffer m' = Inr echo \<and>
     fst (ping_on_msg ndebug 0 m' (snd (rpc_on_mq [m'] a1))) = Inr () \<and> ap_bstop (snd (ping_on_msg ndebug 0 m' (snd (rpc_on_mq [m'] a1))))"
proof -
  obtain a b where "ping_main rd2 cwd2 hw2 = (Inr (), a)" "ping_ready 0 0 a" "pong_main rd1 cwd1 hw1 = (Inr (), b)" "pong_ready 0 0 echo b"
    using mains_ready(1) [OF assms(4)] mains_ready(2) [OF assms(5)] by blast
  then show ?thesis
    using exchange [where deser = deser and ser = ser, OF _ _ assms(1-3)] by blast
qed

text \<open>A directory with the two files of \<open>build/\<close>, which do not mention the number of threads.\<close>

definition build_dir :: json_reader where
  "build_dir cfg file =
     (if file = ''/build/config1.json'' then (Inr (), (pp_config 1 0 ''pong world'')\<lparr>cfg_thread := cfg_thread cfg\<rparr>)
      else if file = ''/build/config2.json'' then (Inr (), (pp_config 2 0 ''ping hello'')\<lparr>cfg_thread := cfg_thread cfg\<rparr>)
      else (Inl (Runtime_Error ''no such file''), cfg))"

lemma build_dir_reads:
  "reads build_dir ''/build'' ''config1.json'' 8 (pp_config 1 8 (''pong '' @ ''world''))"
  "reads build_dir ''/build'' ''config2.json'' 8 (pp_config 2 8 (''ping '' @ ''hello''))"
  by (simp_all add: reads_def path_append_def build_dir_def pp_config_def config_default_def)

theorem ping_pong_exchange_witness:
  "\<exists>a b a1 m m'. ping_main build_dir ''/build'' 8 = (Inr (), a) \<and> pong_main build_dir ''/build'' 8 = (Inr (), b) \<and>
     ping_test False (\<lambda>_ _ _ _ b. (Inr rpc_result_zero, b)) (to_pong Some (\<lambda>n. replicate n (CHR ''x'')) b) id (\<lambda>s. Inr (length s)) 0 a =
      (Inr (), a1) \<and>
     q_items (nd_queue (nodes (ap_node (pong_on_msg 0 m (snd (rpc_on_mq [m] b)))) ! 0)) = [m'] \<and>
     msg_buffer m' = Inr ''world'' \<and> fst (ping_on_msg False 0 m' (snd (rpc_on_mq [m'] a1))) = Inr ()"
proof -
  have c: "length ''world'' < 2 ^ 32" "Some (id ''hello'') = Some ''hello''" "Inr (length (replicate n (CHR ''x''))) = Inr n" for n by simp_all
  show ?thesis
    using ping_pong_exchange [where ser = id and deser = Some and rdeser = "\<lambda>s. Inr (length s)" and ndebug = False
        and exec = "\<lambda>_ _ _ _ b. (Inr rpc_result_zero, b)", OF c build_dir_reads] by blast
qed

end
