(* ===== verification/Msgpack_Rpc.thy ===== *)
theory Msgpack_Rpc
  imports Cpp_Std
begin

text \<open>
  \<open>example/msgpack_rpc_protocol.hpp\<close> and \<open>example/msgpack_protocol.hpp\<close>: a protocol adapter for coro\_rpc. The
  headers are read and written as they lie in memory, little endian. A socket is the bytes that will arrive on it before it
  closes; \<open>async_read\<close> fills its buffer or reports an error. The serializers of struct\_pack and msgpack are arguments.
\<close>

section \<open>Headers\<close>

record req_header =
  rq_magic :: u8
  rq_version :: u8
  serialize_type :: u8
  rq_msg_type :: u8
  rq_seq_num :: u32
  function_id :: u32
  rq_length :: u32
  rq_attach_length :: u32

record resp_header =
  rs_magic :: u8
  rs_version :: u8
  err_code :: u8
  rs_msg_type :: u8
  rs_seq_num :: u32
  rs_length :: u32
  rs_attach_length :: u32

definition magic_number :: u8 where "magic_number = 21"

definition VERSION_NUMBER :: u8 where "VERSION_NUMBER = 0"

definition REQ_HEAD_LEN :: nat where "REQ_HEAD_LEN = 20"

definition RESP_HEAD_LEN :: nat where "RESP_HEAD_LEN = 16"

definition put_req :: "req_header \<Rightarrow> string" where
  "put_req h =
     map char_of_byte [rq_magic h, rq_version h, serialize_type h, rq_msg_type h] @
     put_u32 (rq_seq_num h) @ put_u32 (function_id h) @ put_u32 (rq_length h) @ put_u32 (rq_attach_length h)"

definition get_req :: "string \<Rightarrow> req_header" where
  "get_req s =
     \<lparr>rq_magic = get_u8 s 0, rq_version = get_u8 s 1, serialize_type = get_u8 s 2, rq_msg_type = get_u8 s 3,
      rq_seq_num = get_u32 s 4, function_id = get_u32 s 8, rq_length = get_u32 s 12, rq_attach_length = get_u32 s 16\<rparr>"

definition put_resp :: "resp_header \<Rightarrow> string" where
  "put_resp h =
     map char_of_byte [rs_magic h, rs_version h, err_code h, rs_msg_type h] @
     put_u32 (rs_seq_num h) @ put_u32 (rs_length h) @ put_u32 (rs_attach_length h)"

definition get_resp :: "string \<Rightarrow> resp_header" where
  "get_resp s =
     \<lparr>rs_magic = get_u8 s 0, rs_version = get_u8 s 1, err_code = get_u8 s 2, rs_msg_type = get_u8 s 3,
      rs_seq_num = get_u32 s 4, rs_length = get_u32 s 8, rs_attach_length = get_u32 s 12\<rparr>"

definition get_serialize_protocol :: "req_header \<Rightarrow> unit option" where
  "get_serialize_protocol h = (if serialize_type h = 0 then Some () else None)"

definition get_route_key :: "req_header \<Rightarrow> u32" where
  "get_route_key h = function_id h"

section \<open>Reading\<close>

datatype io_error = Io_eof | Protocol_error

text \<open>\<open>coro_io::async_read\<close> into a buffer of \<open>n\<close> bytes: the bytes and the rest of the socket.\<close>

definition async_read :: "nat \<Rightarrow> string \<Rightarrow> io_error + (string \<times> string)" where
  "async_read n sock = (if length sock < n then Inl Io_eof else Inr (take n sock, drop n sock))"

definition read_head :: "string \<Rightarrow> io_error + (req_header \<times> string)" where
  "read_head sock =
     (case async_read REQ_HEAD_LEN sock of
        Inl ec \<Rightarrow> Inl ec
      | Inr (buf, sock1) \<Rightarrow>
          let req_head = get_req buf
          in if rq_magic req_head \<noteq> magic_number \<or> rq_version req_head > VERSION_NUMBER then Inl Protocol_error
             else Inr (req_head, sock1))"

text \<open>\<open>read_payload\<close>: buffer, attachment and the rest; two buffers are filled one after the other.\<close>

definition read_payload :: "req_header \<Rightarrow> string \<Rightarrow> io_error + (string \<times> string \<times> string)" where
  "read_payload h sock =
     (let n = unat (rq_length h); k = unat (rq_attach_length h) in
      if k > 0 then
        if n > 0 then
          (case async_read (n + k) sock of Inl ec \<Rightarrow> Inl ec | Inr (buf, sock1) \<Rightarrow> Inr (take n buf, drop n buf, sock1))
        else (case async_read k sock of Inl ec \<Rightarrow> Inl ec | Inr (att, sock1) \<Rightarrow> Inr ([], att, sock1))
      else (case async_read n sock of Inl ec \<Rightarrow> Inl ec | Inr (buf, sock1) \<Rightarrow> Inr (buf, [], sock1)))"

text \<open>A request is read by \<open>read_head\<close> and then \<open>read_payload\<close>; it is coro\_rpc that calls the one after the other.\<close>

definition read_request :: "string \<Rightarrow> io_error + ((req_header \<times> string \<times> string) \<times> string)" where
  "read_request sock =
     (case read_head sock of
        Inl ec \<Rightarrow> Inl ec
      | Inr (h, sock1) \<Rightarrow>
          (case read_payload h sock1 of Inl ec \<Rightarrow> Inl ec | Inr (body, att, sock2) \<Rightarrow> Inr ((h, body, att), sock2)))"

section \<open>Responses\<close>

text \<open>\<open>prepare_response\<close>: the header and the new value of \<open>rpc_result\<close>. \<open>ser_msg\<close> and \<open>ser_pair\<close> are
  \<open>struct_pack::serialize_to\<close>; \<open>too_large\<close> is \<open>errc::message_too_large\<close> of coro\_rpc.\<close>

definition prepare_response ::
  "(string \<Rightarrow> string) \<Rightarrow> (u16 \<times> string \<Rightarrow> string) \<Rightarrow> u16 \<Rightarrow> string \<Rightarrow> req_header \<Rightarrow> nat \<Rightarrow> u16 \<Rightarrow> string \<Rightarrow> string \<times> string"
where
  "prepare_response ser_msg ser_pair too_large rpc_result h attachment_len rpc_err_code err_msg =
     (let head = \<lparr>rs_magic = magic_number, rs_version = VERSION_NUMBER, err_code = 0, rs_msg_type = 0,
                  rs_seq_num = rq_seq_num h, rs_length = 0, rs_attach_length = word_of_nat attachment_len\<rparr>;
          (code, msg) =
            (if attachment_len > 2 ^ 32 - 1 then
               (too_large, ''attachment larger than 4G:'' @ int_to_string (int attachment_len) @ ''B'')
             else if length rpc_result > 2 ^ 32 - 1 then
               (too_large, ''body larger than 4G:'' @ int_to_string (int attachment_len) @ ''B'')
             else (rpc_err_code, err_msg));
          (result, head1) =
            (if code \<noteq> 0 then
               (if unat code > 255 then (ser_pair (code, msg), head\<lparr>err_code := 255\<rparr>)
                else (ser_msg msg, head\<lparr>err_code := ucast code\<rparr>))
             else (rpc_result, head))
      in (put_resp (head1\<lparr>rs_length := word_of_nat (length result)\<rparr>), result))"

section \<open>\<open>msgpack_protocol\<close>\<close>

text \<open>\<open>dec\<close> is \<open>unpack(...).get().as<T>()\<close>, \<open>None\<close> when it throws.\<close>

definition deserialize_to :: "(string \<Rightarrow> 't option) \<Rightarrow> string \<Rightarrow> 't result" where
  "deserialize_to dec buffer =
     (case dec buffer of Some t \<Rightarrow> Inr t | None \<Rightarrow> Inl (Runtime_Error ''unpack failed: Args not match!''))"

text \<open>\<open>enc\<close> is \<open>msgpack::pack\<close> of the tuple \<open>(0, t)\<close>.\<close>

definition serialize :: "(nat \<times> 't \<Rightarrow> string) \<Rightarrow> 't \<Rightarrow> string" where
  "serialize enc t = enc (0, t)"

text \<open>A \<open>const char*\<close> made into a \<open>std::string\<close>: the characters before the first zero byte; \<open>None\<close> when the
  buffer has none and the search leaves it.\<close>

definition from_c_str :: "string \<Rightarrow> string option" where
  "from_c_str s = (if CHR 0x00 \<in> set s then Some (takeWhile (\<lambda>c. c \<noteq> CHR 0x00) s) else None)"

text \<open>\<open>enc0\<close> is \<open>msgpack::pack\<close> of the integer 0.\<close>

definition serialize_void :: "string \<Rightarrow> string option" where
  "serialize_void enc0 = from_c_str enc0"


section \<open>Framing\<close>

lemma length_put_req [simp]: "length (put_req h) = 20"
  by (simp add: put_req_def)

lemma length_put_resp [simp]: "length (put_resp h) = 16"
  by (simp add: put_resp_def)

lemma get_put_req [simp]: "get_req (put_req h) = h"
proof -
  have "get_u32 (put_req h) 4 = rq_seq_num h" "get_u32 (put_req h) 8 = function_id h"
    "get_u32 (put_req h) 12 = rq_length h" "get_u32 (put_req h) 16 = rq_attach_length h"
    by (rule get_put_u32; simp add: put_req_def)+
  then show ?thesis
    by (simp add: get_req_def get_u8_def) (simp add: put_req_def)
qed

lemma get_put_resp [simp]: "get_resp (put_resp h) = h"
proof -
  have "get_u32 (put_resp h) 4 = rs_seq_num h" "get_u32 (put_resp h) 8 = rs_length h" "get_u32 (put_resp h) 12 = rs_attach_length h"
    by (rule get_put_u32; simp add: put_resp_def)+
  then show ?thesis
    by (simp add: get_resp_def get_u8_def) (simp add: put_resp_def)
qed

text \<open>What a client sends, and the requests the protocol accepts.\<close>

definition write_request :: "req_header \<times> string \<times> string \<Rightarrow> string" where
  "write_request r = (case r of (h, body, att) \<Rightarrow> put_req h @ body @ att)"

definition request_ok :: "req_header \<times> string \<times> string \<Rightarrow> bool" where
  "request_ok r =
     (case r of (h, body, att) \<Rightarrow>
        rq_magic h = magic_number \<and> rq_version h = VERSION_NUMBER \<and>
        unat (rq_length h) = length body \<and> unat (rq_attach_length h) = length att)"

lemma read_head_put:
  "rq_magic h = magic_number \<Longrightarrow> rq_version h = VERSION_NUMBER \<Longrightarrow> read_head (put_req h @ rest) = Inr (h, rest)"
  by (simp add: read_head_def async_read_def REQ_HEAD_LEN_def)

lemma read_request_write:
  "request_ok r \<Longrightarrow> read_request (write_request r @ rest) = Inr (r, rest)"
  by (auto simp: request_ok_def write_request_def read_request_def read_head_put read_payload_def async_read_def Let_def split: prod.split)

fun read_requests :: "nat \<Rightarrow> string \<Rightarrow> io_error + ((req_header \<times> string \<times> string) list \<times> string)" where
  "read_requests 0 sock = Inr ([], sock)"
| "read_requests (Suc n) sock =
     (case read_request sock of
        Inl ec \<Rightarrow> Inl ec
      | Inr (r, sock1) \<Rightarrow>
          (case read_requests n sock1 of Inl ec \<Rightarrow> Inl ec | Inr (rs, sock2) \<Rightarrow> Inr (r # rs, sock2)))"

text \<open>Framing: a stream of requests that a client wrote back to back is read as exactly these requests, each with its
  header, body and attachment (either of which may be empty), and nothing beyond the last one is consumed.\<close>

theorem request_stream:
  assumes "\<forall>r \<in> set rs. request_ok r"
  shows "read_requests (length rs) (concat (map write_request rs) @ rest) = Inr (rs, rest)"
  using assms by (induction rs) (simp_all add: read_request_write)

definition demo_requests :: "(req_header \<times> string \<times> string) list" where
  "demo_requests =
     [(\<lparr>rq_magic = 21, rq_version = 0, serialize_type = 0, rq_msg_type = 0, rq_seq_num = 1, function_id = 7, rq_length = 2,
        rq_attach_length = 1\<rparr>, ''ab'', ''c''),
      (\<lparr>rq_magic = 21, rq_version = 0, serialize_type = 0, rq_msg_type = 0, rq_seq_num = 2, function_id = 7, rq_length = 0,
        rq_attach_length = 1\<rparr>, [], ''d'')]"

theorem request_stream_witness:
  "read_requests 2 (concat (map write_request demo_requests) @ ''x'') = Inr (demo_requests, ''x'')"
proof -
  have ok: "\<forall>r \<in> set demo_requests. request_ok r"
    by (simp add: demo_requests_def request_ok_def magic_number_def VERSION_NUMBER_def)
  have "length demo_requests = 2" by (simp add: demo_requests_def)
  with request_stream [OF ok, of "''x''"] show ?thesis by simp
qed

lemma u32_bytes_of [simp]: "u32_bytes (u32_of_bytes b0 b1 b2 b3) = [b0, b1, b2, b3]"
proof -
  have "ucast (u32_of_bytes b0 b1 b2 b3) = b0" "ucast (drop_bit 8 (u32_of_bytes b0 b1 b2 b3)) = b1"
    "ucast (drop_bit 16 (u32_of_bytes b0 b1 b2 b3)) = b2" "ucast (drop_bit 24 (u32_of_bytes b0 b1 b2 b3)) = b3"
    by (rule bit_word_eqI; auto simp: u32_of_bytes_def bit_simps dest: bit_imp_le_length)+
  then show ?thesis by (simp add: u32_bytes_def)
qed

lemma put_get_u32: "put_u32 (get_u32 s i) = [s ! i, s ! (i + 1), s ! (i + 2), s ! (i + 3)]"
  by (simp add: put_u32_def get_u32_def get_u8_def)

lemma put_get_req:
  assumes "length s = 20"
  shows "put_req (get_req s) = s"
proof (rule nth_equalityI)
  show "length (put_req (get_req s)) = length s" using assms by simp
  fix i
  assume "i < length (put_req (get_req s))"
  then have "i \<in> set [0..<20]" by simp
  then show "put_req (get_req s) ! i = s ! i"
    by (simp add: put_req_def get_req_def put_get_u32 get_u8_def upt_rec numeral_eq_Suc) (elim disjE; simp)
qed

text \<open>C34. Every byte sequence is either refused or is a request the client could have written: \<open>read_request\<close> consumes
  exactly the bytes of the request it returns, refuses a wrong magic number or a newer version, and otherwise fails only
  when the stream is too short.\<close>

theorem read_request_exact:
  "(case read_request sock of
      Inr (r, rest) \<Rightarrow> request_ok r \<and> sock = write_request r @ rest
    | Inl Protocol_error \<Rightarrow> 20 \<le> length sock \<and>
        (rq_magic (get_req (take 20 sock)) \<noteq> magic_number \<or> rq_version (get_req (take 20 sock)) \<noteq> VERSION_NUMBER)
    | Inl Io_eof \<Rightarrow> length sock < 20 \<or>
        length sock < 20 + unat (rq_length (get_req (take 20 sock))) + unat (rq_attach_length (get_req (take 20 sock))))"
proof (cases "length sock < 20")
  case True
  then show ?thesis by (simp add: read_request_def read_head_def async_read_def REQ_HEAD_LEN_def)
next
  case False
  define h where "h = get_req (take 20 sock)"
  have sock: "sock = put_req h @ drop 20 sock"
    using False by (simp add: h_def put_get_req)
  show ?thesis
  proof (cases "rq_magic h = magic_number \<and> rq_version h = VERSION_NUMBER")
    case ok: True
    define n k where "n = unat (rq_length h)" and "k = unat (rq_attach_length h)"
    have head: "read_head sock = Inr (h, drop 20 sock)"
      using read_head_put [of h "drop 20 sock"] ok sock by simp
    show ?thesis
    proof (cases "length (drop 20 sock) < n + k")
      case True
      then show ?thesis
        using False head by (auto simp: read_request_def read_payload_def async_read_def Let_def n_def [symmetric] k_def [symmetric] h_def [symmetric])
    next
      case enough: False
      define r where "r = (h, take n (drop 20 sock), take k (drop n (drop 20 sock)))"
      have "request_ok r"
        using ok enough by (auto simp: r_def request_ok_def n_def k_def)
      moreover have s: "sock = write_request r @ drop (n + k) (drop 20 sock)"
        using sock by (simp add: r_def write_request_def) (metis append_take_drop_id drop_drop add.commute)
      ultimately show ?thesis
        using read_request_write [of r "drop (n + k) (drop 20 sock)"] by simp
    qed
  next
    case bad: False
    then have "read_request sock = Inl Protocol_error"
      using False by (auto simp: read_request_def read_head_def async_read_def REQ_HEAD_LEN_def h_def VERSION_NUMBER_def word_gt_0)
    then show ?thesis using bad False by (simp add: h_def)
  qed
qed


theorem read_request_exact_witness:
  "read_request ''too short'' = Inl Io_eof \<and>
   (case read_request (write_request (demo_requests ! 0) @ ''x'') of
      Inr (r, rest) \<Rightarrow> request_ok r \<and> rest = ''x'' \<and> write_request (demo_requests ! 0) = write_request r | Inl _ \<Rightarrow> False)"
proof -
  have ok: "request_ok (demo_requests ! 0)"
    by (simp add: demo_requests_def request_ok_def magic_number_def VERSION_NUMBER_def)
  have "read_request (write_request (demo_requests ! 0) @ ''x'') = Inr (demo_requests ! 0, ''x'')"
    by (rule read_request_write [OF ok])
  moreover have "read_request ''too short'' = Inl Io_eof"
    using read_request_exact [of "''too short''"]
    by (simp add: read_request_def read_head_def async_read_def REQ_HEAD_LEN_def)
  ultimately show ?thesis
    using read_request_exact [of "write_request (demo_requests ! 0) @ ''x''"] by simp
qed

section \<open>Responses\<close>

lemma code_byte: "unat (code :: u16) \<le> 255 \<Longrightarrow> unat (ucast code :: u8) = unat code"
  by (simp add: unsigned_ucast_eq take_bit_eq_mod)

text \<open>The response header: it echoes the sequence number, and its length is the length of the body that follows; a call
  without error keeps its result and has error code 0; a failed one has a serialized message as its body and its code in the header, or 255
  with code and message in the body when the code needs two bytes.\<close>

theorem response_header:
  assumes "prepare_response ser_msg ser_pair too_large result h k code msg = (hdr, body)" "k < 2 ^ 32" "length result < 2 ^ 32"
    "length body < 2 ^ 32"
  shows "rs_seq_num (get_resp hdr) = rq_seq_num h \<and> unat (rs_length (get_resp hdr)) = length body \<and>
     unat (rs_attach_length (get_resp hdr)) = k \<and> rs_magic (get_resp hdr) = magic_number \<and>
     (if code = 0 then body = result \<and> err_code (get_resp hdr) = 0
      else if unat code \<le> 255 then body = ser_msg msg \<and> unat (err_code (get_resp hdr)) = unat code
      else body = ser_pair (code, msg) \<and> err_code (get_resp hdr) = 255)"
  using assms code_byte [of code] by (auto simp: prepare_response_def Let_def unat_of_nat split: if_splits)

text \<open>An attachment of 4 GiB or more is reported as an error, but the header still announces an attachment, of the length modulo
  \<open>2 ^ 32\<close>; and a code of exactly 255 cannot be told from a larger one by the header.\<close>

theorem response_too_large:
  assumes "2 ^ 32 \<le> k" "too_large \<noteq> 0"
  shows "unat (rs_attach_length (get_resp (fst (prepare_response ser_msg ser_pair too_large result h k code msg)))) = k mod 2 ^ 32 \<and>
     err_code (get_resp (fst (prepare_response ser_msg ser_pair too_large result h k code msg))) \<noteq> 0 \<and>
     err_code (get_resp (fst (prepare_response ser_msg ser_pair t2 [] h 0 255 msg))) =
       err_code (get_resp (fst (prepare_response ser_msg ser_pair t2 [] h 0 256 msg)))"
proof -
  have "unat (ucast too_large :: u8) \<noteq> 0" if "unat too_large \<le> 255"
    using that code_byte [OF that] assms(2) by (simp add: unat_eq_zero)
  then show ?thesis
    using assms by (auto simp: prepare_response_def Let_def unat_of_nat)
qed

theorem response_header_witness:
  "rs_seq_num (get_resp (fst (prepare_response id snd 9 ''ok'' (fst (demo_requests ! 0)) 0 0 []))) = 1"
  using response_header [of id snd 9 "''ok''" "fst (demo_requests ! 0)" 0 0 "[]"
      "fst (prepare_response id snd 9 ''ok'' (fst (demo_requests ! 0)) 0 0 [])" "''ok''"]
  by (simp add: prepare_response_def Let_def) (simp add: demo_requests_def)

theorem response_too_large_witness:
  "unat (rs_attach_length (get_resp (fst (prepare_response id snd 9 ''ok'' (fst (demo_requests ! 0)) (2 ^ 32 + 5) 0 [])))) = 5"
  using response_too_large [of "2 ^ 32 + 5" 9 id snd "''ok''" "fst (demo_requests ! 0)" 0 "[]"] by simp

text \<open>\<open>serialize()\<close> packs the integer 0, which msgpack writes as one zero byte, and then reads that byte as the end of a string: it
  returns the empty string instead of the packed value.\<close>

lemma serialize_void_empty: "serialize_void [CHR 0x00] = Some []"
  by (simp add: serialize_void_def from_c_str_def)

end
