(* ===== verification/Spec2Isabelle.thy ===== *)
theory Spec2Isabelle
  imports Cqy_Queue_Conc Cqy_Ctx_Life Cqy_Ctx_Loop Cqy_Gen Cqy_Net Cqy_Random Cqy_Shared Game_Geom Game_Run Ping_Pong Msgpack_Rpc
begin

text \<open>
  Verification of cqy, a C++ library for applications that run on several nodes. An application
  (\<open>cqy_app\<close>) hosts contexts (\<open>cqy_ctx\<close>), which have a mailbox, a lock and registered functions.
  Contexts send each other messages (\<open>dispatch\<close>, \<open>response\<close>) and call each other's functions
  (\<open>ctx_call\<close>), by id or by a name of the form \<open>node.ctx\<close>. Messages for another node go into the
  queue of that node; a coroutine per node sends them in batches until they are acknowledged.

  \<^bold>\<open>Theories.\<close>

  \<^item> \<open>Cqy_Prelude\<close>: machine integers, bytes of a string, errors as values (\<open>result\<close>), the interface
    \<open>packed_pair\<close> of a word made of two fields, the interfaces \<open>step_invariant\<close> and \<open>waiting_steps\<close> of systems that run in steps.
  \<^item> \<open>Cpp_Std\<close>: what the code uses of the C++ library: \<open>string_view::find\<close> and \<open>substr\<close>, splitting,
    \<open>from_chars\<close>, \<open>lower_bound\<close> and \<open>binary_search\<close> as loops, decimal and hexadecimal output,
    appending to a path.
  \<^item> \<open>Cqy_Handle\<close> (\<open>include/cqy_handle.h\<close>): the 32-bit handle of a context, one byte node number and
    24 bits context number, as the union reads and writes it.
  \<^item> \<open>Cqy_Algo\<close> and \<open>Cqy_Random\<close> (\<open>cqy_algo\<close>): \<open>split\<close>, \<open>split_one\<close>, \<open>to_n\<close>; the random helpers, over the engine and distribution of the
    standard library.
  \<^item> \<open>Cqy_Msg\<close> (\<open>cqy_msg\<close>): the wire format. \<open>msg_make\<close> and \<open>msg_make_route\<close> build a message byte by
    byte, \<open>msg_parse\<close>, \<open>msg_name\<close> and \<open>msg_buffer\<close> read it; reads outside the string are
    \<open>Bad_Access\<close>. Round trips, and which parsed messages are safe to read.
  \<^item> \<open>Cqy_Ctx_Mgr\<close> (\<open>cqy_ctx_mgr\<close>): the registry of contexts and names, with the interface
    \<open>name_registry\<close>. Its operations hold the lock of the registry and are taken as atomic.
  \<^item> \<open>Cqy_Shared\<close> (\<open>shared_mutex_type\<close> in \<open>include/cqy_utils.h\<close>, the locks of \<open>src/cqy_ctx_mgr.cpp\<close>): threads under a reader-writer lock in
    interleaved steps, with the interface \<open>shared_object\<close>; it justifies taking the operations of the registry as atomic.
  \<^item> \<open>Cqy_Queue\<close> and \<open>Cqy_Queue_Conc\<close> (\<open>cqy_cv_queue_t\<close> in \<open>include/cqy_utils.h\<close>): the mailbox. First
    as an atomic object with the interface \<open>fifo_channel\<close>, then as a system of interleaved steps of
    a consumer, producers and \<open>shutdown\<close> on mutex, condition variable and \<open>stop\<close>, one step per access.
  \<^item> \<open>Cqy_Rpc\<close> (\<open>rpc_result_t\<close>, \<open>rpc_call_func\<close>, \<open>rpc_encode\<close>): decoding, calling and encoding;
    struct\_pack is a parameter.
  \<^item> \<open>Cqy_Node\<close> (\<open>cqy_node\<close>): the peers and \<open>node_mq_spawn\<close>, the loop that sends the queue of a peer,
    beside pushes and shutdown. The outcome of a call is an input.
  \<^item> \<open>Cqy_App\<close> (\<open>cqy_app\<close>): the application. Contexts are objects in a store, a shared pointer is an
    index. Message routing, the functions called by other nodes, creating and stopping contexts,
    start and stop. The virtual \<open>on_init\<close> is an argument; the interface \<open>ctx_class\<close> states what it
    may do. \<open>load_config\<close> has the JSON reader of iguana and the current directory as arguments. \<open>start()\<close> is split where it waits for the server (\<open>app_start\<close>, \<open>app_clear\<close>).
  \<^item> \<open>Cqy_Ctx\<close> (\<open>cqy_ctx\<close>): what a context does: sending, answering, calling, registering, and
    \<open>wait_msg_spawn\<close>. Theorems from end to end over two applications.
  \<^item> \<open>Cqy_Ctx_Loop\<close> (\<open>wait_msg_spawn\<close> in \<open>src/cqy_ctx.cpp\<close>): the receiving coroutine of a context on the interleaved queue of \<open>Cqy_Queue_Conc\<close>; a \<open>shutdown\<close> may come in
    between any two of its steps.
  \<^item> \<open>Cqy_Ctx_Lock\<close> (\<open>ctx_lock\<close> in \<open>cqy_ctx\<close>, \<open>cqy_finally.h\<close>): the tasks of a context, its lock and the threads of their executors as
    a step system: awaits, calls that release the lock, calls inside such calls, and the \<open>lock()\<close> of their \<open>finally\<close>, which keeps the thread.
  \<^item> \<open>Cqy_Ctx_Life\<close> (\<open>cqy_app::create_ctx\<close>, \<open>cqy_ctx\<close>): who owns a context, and until when; the interface \<open>ref_counted\<close> of a
    reference count.
  \<^item> \<open>Cqy_Net\<close>: the sending loop of one node (\<open>Cqy_Node\<close>) and the receiving application and coroutine of another (\<open>Cqy_App\<close>, \<open>Cqy_Ctx\<close>)
    as one system, over calls that may fail before, at or after delivery.
  \<^item> \<open>Cqy_Gen\<close> (\<open>include/cqy_gen.h\<close>): the generator coroutine type. Coroutine frames on a heap, the awaiters of nested
    generators, iterator and destructors; the body of a coroutine is the tree of its awaits.
  \<^item> \<open>Entity_Mgr\<close> (\<open>example/entity\<close>): the entity store of the game demo, with versions, free list and
    component pools; the interface \<open>slot_map\<close> of a table written by key.
  \<^item> \<open>Game_Msg\<close> (\<open>example/msg_define.h\<close>): packets and their codec; the byte format of msgpack is a parameter.
  \<^item> \<open>Game_Geom\<close> (\<open>Position\<close> and \<open>Rect\<close> of \<open>example/msg_define.h\<close>): IEEE binary32 numbers as bits, their sums and differences with rounding,
    positions and rectangles.
  \<^item> \<open>Game_Login\<close> (\<open>example/game_demo\<close>): the login protocol between gate, world and game.
  \<^item> \<open>Game_Scene\<close> (\<open>example/game_component\<close> and the scenes of \<open>example/game_demo\<close>): components, notifications, the task of the
    training scene and the handlers of client packets.
  \<^item> \<open>Game_Ws\<close> and \<open>Game_App\<close> (\<open>example/game_demo\<close>): the web socket server, the \<open>on_init\<close> functions of the four classes and \<open>main\<close>.
  \<^item> \<open>Game_Notify\<close> (\<open>example/game_demo\<close>): notifications of world and game on their way through the mailboxes of gate and
    web socket server to the sockets, and what the sockets deliver on its way to the gate.
  \<^item> \<open>Game_Session\<close> (\<open>example/game_demo\<close>): clients of the demo from connection to end: the coroutines of the gate run in its context, call the
    functions registered by world and game, and what is sent goes through the mailboxes. Serializers are collected in a record.
  \<^item> \<open>Game_Run\<close> (\<open>example/game_demo\<close>): the running demo under every sequence of events, from \<open>main\<close> on.
  \<^item> \<open>Ping_Pong\<close> (\<open>example/ping.cpp\<close>, \<open>example/pong.cpp\<close>): the two example programs, run against each other.
  \<^item> \<open>Msgpack_Rpc\<close> (\<open>example/msgpack_rpc_protocol.hpp\<close>, \<open>example/msgpack_protocol.hpp\<close>): headers, framing and responses of
    the protocol adapter.

  \<^bold>\<open>What is shown.\<close> A message sent by name reaches the mailbox of the named context on the other node
  with its data, and a response comes back with its session number; the queue of a node loses,
  reorders and duplicates nothing up to the acknowledgement and is emptied in at most five steps of
  the loop when calls succeed; the mailbox delivers in order under every interleaving and a push
  wakes the consumer; the registry stays sorted, its names are found, ids are unique below
  \<open>2 ^ 24\<close>; an application keeps every registered context alive under its own id; calls return what
  the function returned; if only tasks that hold the lock of a context use the calls that release it, and none inside another, at most one of them is in user code at a time,
  other awaits included, and a task that waits for the lock can get it unless all threads of the executor of the holder wait in a \<open>lock()\<close>; after a shutdown at most one more \<open>on_msg\<close> is
  started and the receiving coroutine ends unless it misses the notification; over two nodes, acknowledged messages arrive at least once and in order whatever happens to the calls, and exactly once if no
  reply is lost; the registry is linearizable; a context is not used after its destruction and is destroyed once nobody owns it; a checked parse makes reading the name safe and it is stated exactly when reading the
  payload is. The registry implements a pair of finite maps, whatever the sequence of calls and their results.
  Iterating a generator, nested to any depth, terminates and yields the flattened sequence, an exception
  passes through the nesting, and no frame is left behind.

  For the examples: the programs ping and pong read their configuration files, start, call and answer each other and stop; the
  game demo starts whatever its web server does; \<open>main\<close> leaves its contexts registered, receiving and connected by their names, and they stay so under every sequence of
  connections, frames, messages and tasks with no packet too short for its members, while no access is out of bounds and connection numbers are not given out twice; a new connection, a first login,
  a packet of a client and the end of a connection pass through the mailboxes and registered functions of gate, world, game and web socket server with the right effect on each; under every sequence of events the component pools of
  a scene hold components of their own type and no access leaves them; the plot of the training scene is
  played in order; a notification of the game, and a broadcast of the world, passes through all mailboxes and is written to the sockets; the integer size
  of a rectangle is exact for whole coordinates; packets decode to what was packed; a web socket session is reported to the gate in order and forgotten at its
  end; every byte stream read by the msgpack adapter is split into exactly the requests that were written, or refused.

  Some theorems state defects: a shutdown that is not noticed by a waiting consumer, a
  null client used after shutdown, names left behind by \<open>del_ctx\<close> and by a failed \<open>on_init\<close>, \<open>muli\<close>
  functions that break the lock, a \<open>lock()\<close> that waits on the thread the holder needs, a call inside \<open>sync_call\<close> that never returns, message tasks that outlive the closure they run in, a lost reply that duplicates messages, a duplicate login that is not kicked, a second entry into a scene that fails an assertion,
  a response to an oversized attachment that announces one all the same.

  \<^bold>\<open>Bounds.\<close> Loops are structural, have a termination proof, are step functions of systems with explicit runs, or, for
  generators, whose bodies are arbitrary, a partial function whose termination on finite bodies is proved. One function has a depth:
  \<open>demo_on_init\<close> bounds how often a gate may create a gate inside its own creation, which \<open>main\<close> does not do; its theorem holds for
  every positive depth. Likewise \<open>demo_body\<close> bounds the depth of calls that calls make: a registered function of the gate calls the game, which calls nothing.
  Bounds in theorems are those of the code: names below
  256 bytes (where \<open>dispatch\<close> sends them below 255, which it asserts) and payloads below \<open>2 ^ 32\<close> (the fields of the header), fewer than \<open>2 ^ 24\<close> contexts
  (the handle), fewer than \<open>2 ^ 32\<close> operations on an entity store (versions).

  \<^bold>\<open>Not modelled.\<close> Logging, which changes no state; the thread pools and executors, of which only \<open>Cqy_Ctx_Lock\<close> has the number of threads; weak memory orders (steps are sequentially
  consistent); the libraries async\_simple, coro\_rpc, struct\_pack, msgpack, iguana and
  cinatra (their results are arguments), and so the main functions of \<open>example/msgpack_rpc.cpp\<close> and \<open>example/msgpack_codec.cpp\<close>, which only call them; the
  allocators and type computations of \<open>cqy_gen.h\<close>; \<open>on_stop\<close> of derived classes, which the destructor of \<open>cqy_ctx\<close> never reaches; tests and benchmarks. In the
  sessions and runs of the demo a coroutine runs without another one in between; \<open>Game_Login\<close> has the pieces for the interleavings.
\<close>

end
